(* ===== verification/Prelude.thy ===== *)
theory Prelude
  imports Main "HOL-Library.Word" "HOL-Library.Multiset"
begin

text \<open>
  Shared vocabulary of the development: the machine integer types, the C++
  exceptions as values of a sum type, loops that may throw, uniqueness checks
  against an \<open>unordered_set\<close>, and the invariant locale the state machines use.
\<close>

section \<open>Machine integers\<close>

text \<open>
  \<open>std::uint64_t\<close> counters are \<^typ>\<open>64 word\<close> (they wrap), \<open>std::int64_t\<close> values are
  the same words read with \<^const>\<open>sint\<close>, bytes are \<^typ>\<open>8 word\<close>.
\<close>

type_synonym u64 = "64 word"
type_synonym i64 = "64 word"
type_synonym u8 = "8 word"

text \<open>\<open>std::numeric_limits<std::uint64_t>::max()\<close>.\<close>

abbreviation u64_max :: u64 where
  "u64_max \<equiv> - 1"

section \<open>Exceptions\<close>

text \<open>
  The exception classes the sources throw, with the text \<open>what()\<close> returns.
  \<open>Unknown_exception\<close> is anything a plugin throws that is not a \<open>std::exception\<close>.
\<close>

datatype exn =
    Invalid_argument string
  | Logic_error string
  | Runtime_error string
  | Out_of_range string
  | Unknown_exception

type_synonym 'a result = "exn + 'a"

fun what :: "exn \<Rightarrow> string option" where
  "what (Invalid_argument m) = Some m"
| "what (Logic_error m) = Some m"
| "what (Runtime_error m) = Some m"
| "what (Out_of_range m) = Some m"
| "what Unknown_exception = None"

definition rbind :: "'e + 'a \<Rightarrow> ('a \<Rightarrow> 'e + 'b) \<Rightarrow> 'e + 'b" where
  "rbind m f = (case m of Inl e \<Rightarrow> Inl e | Inr a \<Rightarrow> f a)"

text \<open>A loop over a range whose body may throw.\<close>

fun rfold :: "('s \<Rightarrow> 'a \<Rightarrow> 'e + 's) \<Rightarrow> 's \<Rightarrow> 'a list \<Rightarrow> 'e + 's" where
  "rfold f s [] = Inr s"
| "rfold f s (x # xs) = (case f s x of Inl e \<Rightarrow> Inl e | Inr s' \<Rightarrow> rfold f s' xs)"

section \<open>Lemma collections\<close>

named_theorems op_defs \<open>definitions of the modelled operations\<close>
named_theorems throw_simps \<open>rewriting of results and of throwing loops\<close>

lemma rbind_simps [simp]:
  "rbind (Inl e) f = Inl e"
  "rbind (Inr a) f = f a"
  by (simp_all add: rbind_def)

lemma rbind_Inr_iff [throw_simps]:
  "rbind m f = Inr b \<longleftrightarrow> (\<exists>a. m = Inr a \<and> f a = Inr b)"
  by (cases m) auto

lemma rbind_Inl_iff [throw_simps]:
  "rbind m f = Inl e \<longleftrightarrow> m = Inl e \<or> (\<exists>a. m = Inr a \<and> f a = Inl e)"
  by (cases m) auto

lemma rfold_Cons_iff [throw_simps]:
  "rfold f s (x # xs) = Inr s' \<longleftrightarrow> (\<exists>t. f s x = Inr t \<and> rfold f t xs = Inr s')"
  by (auto split: sum.splits)

lemma rfold_append:
  "rfold f s (xs @ ys) = rbind (rfold f s xs) (\<lambda>s'. rfold f s' ys)"
  by (induction xs arbitrary: s) (auto split: sum.splits)

lemma rfold_invariant:
  assumes "rfold f s xs = Inr s'" and "P s"
    and "\<And>t x t'. P t \<Longrightarrow> x \<in> set xs \<Longrightarrow> f t x = Inr t' \<Longrightarrow> P t'"
  shows "P s'"
  using assms
proof (induction xs arbitrary: s)
  case Nil
  then show ?case by simp
next
  case (Cons x xs)
  from Cons.prems(1) obtain t where t: "f s x = Inr t" "rfold f t xs = Inr s'"
    by (auto split: sum.splits)
  have "P t" by (rule Cons.prems(3) [OF Cons.prems(2) _ t(1)]) simp
  then show ?case
    by (rule Cons.IH [OF t(2)]) (rule Cons.prems(3), auto)
qed

section \<open>Maps built by insertion\<close>

lemma map_add_map_of_Cons:
  "k \<notin> fst ` set xs \<Longrightarrow> m(k \<mapsto> v) ++ map_of xs = m ++ map_of ((k, v) # xs)"
  by (simp add: map_add_upd_left dom_map_of_conv_image_fst)

text \<open>
  A loop that inserts entries under keys that must be new and valid: it succeeds
  exactly on valid entries with distinct unused keys, and builds their map.
\<close>

locale unique_insert =
  fixes ins :: "('k \<rightharpoonup> 'v) \<Rightarrow> 'x \<Rightarrow> 'e + ('k \<rightharpoonup> 'v)"
    and key :: "'x \<Rightarrow> 'k"
    and val :: "'x \<Rightarrow> 'v"
    and ok :: "'x \<Rightarrow> bool"
  assumes ins_iff: "ins m x = Inr m' \<longleftrightarrow> ok x \<and> m (key x) = None \<and> m' = m(key x \<mapsto> val x)"
begin

lemma fold_iff:
  "rfold ins m xs = Inr m' \<longleftrightarrow>
     distinct (map key xs) \<and> (\<forall>x \<in> set xs. ok x \<and> m (key x) = None) \<and>
     m' = m ++ map_of (map (\<lambda>x. (key x, val x)) xs)"
proof (induction xs arbitrary: m)
  case Nil
  then show ?case by auto
next
  case (Cons x xs)
  have fresh: "(\<forall>y \<in> set xs. ok y \<and> (m(key x \<mapsto> val x)) (key y) = None) \<longleftrightarrow>
      key x \<notin> key ` set xs \<and> (\<forall>y \<in> set xs. ok y \<and> m (key y) = None)"
    by (auto split: if_splits simp: image_iff)
  have maps: "key x \<notin> key ` set xs \<Longrightarrow>
      m(key x \<mapsto> val x) ++ map_of (map (\<lambda>x. (key x, val x)) xs) =
      m ++ map_of (map (\<lambda>x. (key x, val x)) (x # xs))"
    using map_add_map_of_Cons [of "key x" "map (\<lambda>x. (key x, val x)) xs" m "val x"]
    by (simp add: image_image)
  have head: "rfold ins m (x # xs) = Inr m' \<longleftrightarrow>
      ok x \<and> m (key x) = None \<and> rfold ins (m(key x \<mapsto> val x)) xs = Inr m'"
    unfolding rfold_Cons_iff ins_iff by blast
  have split: "distinct (map key (x # xs)) \<longleftrightarrow> key x \<notin> key ` set xs \<and> distinct (map key xs)"
    "(\<forall>y \<in> set (x # xs). ok y \<and> m (key y) = None) \<longleftrightarrow>
       ok x \<and> m (key x) = None \<and> (\<forall>y \<in> set xs. ok y \<and> m (key y) = None)"
    by auto
  show ?case
    unfolding head split Cons.IH fresh by (cases "key x \<in> key ` set xs") (auto simp only: maps)
qed

lemma fold_empty_iff:
  "rfold ins Map.empty xs = Inr m' \<longleftrightarrow>
     distinct (map key xs) \<and> (\<forall>x \<in> set xs. ok x) \<and> m' = map_of (map (\<lambda>x. (key x, val x)) xs)"
  by (simp add: fold_iff)

end

text \<open>
  The same for loops that only remember the names they have seen, as a list with the
  latest first.
\<close>

locale unique_names =
  fixes remember :: "'k list \<Rightarrow> 'x \<Rightarrow> 'e + 'k list"
    and key :: "'x \<Rightarrow> 'k"
    and ok :: "'x \<Rightarrow> bool"
  assumes remember_iff: "remember ids x = Inr ids' \<longleftrightarrow> ok x \<and> key x \<notin> set ids \<and> ids' = key x # ids"
begin

lemma fold_iff:
  "rfold remember ids xs = Inr ids' \<longleftrightarrow>
     distinct (map key xs) \<and> (\<forall>x \<in> set xs. ok x \<and> key x \<notin> set ids) \<and> ids' = rev (map key xs) @ ids"
proof (induction xs arbitrary: ids)
  case (Cons x xs)
  have "rfold remember ids (x # xs) = Inr ids' \<longleftrightarrow>
      ok x \<and> key x \<notin> set ids \<and> rfold remember (key x # ids) xs = Inr ids'"
    unfolding rfold_Cons_iff remember_iff by blast
  then show ?case unfolding Cons.IH by (auto simp: image_iff)
qed auto

end

section \<open>Invariants of step relations\<close>

text \<open>
  One induction for every state machine of the development: what holds at the
  start and is kept by each step holds in every reachable state.
\<close>

inductive reachable :: "('s \<Rightarrow> bool) \<Rightarrow> ('s \<Rightarrow> 's \<Rightarrow> bool) \<Rightarrow> 's \<Rightarrow> bool"
  for init :: "'s \<Rightarrow> bool" and step :: "'s \<Rightarrow> 's \<Rightarrow> bool" where
  start: "init s \<Longrightarrow> reachable init step s"
| step: "reachable init step s \<Longrightarrow> step s t \<Longrightarrow> reachable init step t"

locale state_machine =
  fixes init :: "'s \<Rightarrow> bool"
    and step :: "'s \<Rightarrow> 's \<Rightarrow> bool"
    and inv :: "'s \<Rightarrow> bool"
  assumes inv_init: "init s \<Longrightarrow> inv s"
    and inv_step: "step s t \<Longrightarrow> inv s \<Longrightarrow> inv t"
begin

lemma reachable_inv: "reachable init step s \<Longrightarrow> inv s"
  by (induction rule: reachable.induct) (auto intro: inv_init inv_step)

lemma rtranclp_inv: "step\<^sup>*\<^sup>* s t \<Longrightarrow> inv s \<Longrightarrow> inv t"
  by (induction rule: rtranclp.induct) (auto intro: inv_step)

end

end
