(* ===== verification/Double.thy ===== *)
theory Double
  imports Prelude Complex_Main "HOL-Library.Log_Nat"
begin

text \<open>
  The C++ type \<open>double\<close> as the gateway uses it: IEEE 754 binary64 with rounding to
  nearest, ties to even. A finite value is its sign bit and its exact magnitude,
  so \<open>-0.0\<close> and \<open>0.0\<close> differ and equality of values is equality of terms. Signs and
  payloads of NaNs are not represented. Expressions are rounded after every
  operation, as on targets that do not contract them into fused operations.
\<close>

section \<open>Values and rounding\<close>

datatype double = NaN | Infinity bool | Finite bool rat

definition pow2 :: "int \<Rightarrow> rat" where
  "pow2 e = (if 0 \<le> e then 2 ^ nat e else 1 / 2 ^ nat (- e))"

text \<open>The exponent of the leading bit of a positive rational.\<close>

definition ilog2 :: "rat \<Rightarrow> int" where
  "ilog2 r = (let (p, q) = quotient_of r; k = bitlen p - bitlen q
              in if pow2 k \<le> r then k else k - 1)"

definition round_half_even :: "rat \<Rightarrow> int" where
  "round_half_even r =
     (let f = \<lfloor>r\<rfloor>; d = r - of_int f
      in if d < 1 / 2 then f else if 1 / 2 < d then f + 1 else if even f then f else f + 1)"

text \<open>
  Rounding a magnitude: 53 significant bits, no unit below \<open>2\<^sup>-\<^sup>1\<^sup>0\<^sup>7\<^sup>4\<close>, and infinity
  from \<open>2\<^sup>1\<^sup>0\<^sup>2\<^sup>4\<close> on (\<open>9007199254740992 = 2\<^sup>5\<^sup>3\<close>).
\<close>

definition round_unit :: "rat \<Rightarrow> int" where
  "round_unit r = max (ilog2 r - 52) (-1074)"

definition round_double :: "bool \<Rightarrow> rat \<Rightarrow> double" where
  "round_double s r =
     (if r \<le> 0 then Finite s 0
      else let e = round_unit r; m = round_half_even (r / pow2 e)
           in if 971 < e \<or> (e = 971 \<and> 9007199254740992 \<le> m) then Infinity s
              else Finite s (of_int m * pow2 e))"

section \<open>Arithmetic and comparison\<close>

definition signed_rat :: "bool \<Rightarrow> rat \<Rightarrow> rat" where
  "signed_rat s r = (if s then - r else r)"

definition double_of_int :: "int \<Rightarrow> double" where
  "double_of_int i = round_double (i < 0) (of_int \<bar>i\<bar>)"

fun isfinite :: "double \<Rightarrow> bool" where
  "isfinite (Finite s r) = True"
| "isfinite _ = False"

fun dadd :: "double \<Rightarrow> double \<Rightarrow> double" where
  "dadd NaN _ = NaN"
| "dadd _ NaN = NaN"
| "dadd (Infinity s) (Infinity t) = (if s = t then Infinity s else NaN)"
| "dadd (Infinity s) (Finite _ _) = Infinity s"
| "dadd (Finite _ _) (Infinity t) = Infinity t"
| "dadd (Finite s a) (Finite t b) =
     (let v = signed_rat s a + signed_rat t b
      in if v = 0 then Finite (s \<and> t) 0 else round_double (v < 0) \<bar>v\<bar>)"

fun dmul :: "double \<Rightarrow> double \<Rightarrow> double" where
  "dmul NaN _ = NaN"
| "dmul _ NaN = NaN"
| "dmul (Infinity s) (Infinity t) = Infinity (s \<noteq> t)"
| "dmul (Infinity s) (Finite t b) = (if b = 0 then NaN else Infinity (s \<noteq> t))"
| "dmul (Finite s a) (Infinity t) = (if a = 0 then NaN else Infinity (s \<noteq> t))"
| "dmul (Finite s a) (Finite t b) = round_double (s \<noteq> t) (a * b)"

fun ddiv :: "double \<Rightarrow> double \<Rightarrow> double" where
  "ddiv NaN _ = NaN"
| "ddiv _ NaN = NaN"
| "ddiv (Infinity s) (Infinity t) = NaN"
| "ddiv (Infinity s) (Finite t b) = Infinity (s \<noteq> t)"
| "ddiv (Finite s a) (Infinity t) = Finite (s \<noteq> t) 0"
| "ddiv (Finite s a) (Finite t b) =
     (if b = 0 then (if a = 0 then NaN else Infinity (s \<noteq> t))
      else round_double (s \<noteq> t) (a / b))"

fun dlt :: "double \<Rightarrow> double \<Rightarrow> bool" where
  "dlt NaN _ = False"
| "dlt _ NaN = False"
| "dlt (Infinity s) (Infinity t) = (s \<and> \<not> t)"
| "dlt (Infinity s) (Finite _ _) = s"
| "dlt (Finite _ _) (Infinity t) = (\<not> t)"
| "dlt (Finite s a) (Finite t b) = (signed_rat s a < signed_rat t b)"

fun deq :: "double \<Rightarrow> double \<Rightarrow> bool" where
  "deq NaN _ = False"
| "deq _ NaN = False"
| "deq (Infinity s) (Infinity t) = (s = t)"
| "deq (Finite s a) (Finite t b) = (signed_rat s a = signed_rat t b)"
| "deq _ _ = False"

text \<open>
  \<open>std::sqrt\<close>, correctly rounded: the integer square root of the argument scaled to
  at least 110 bits, with the discarded part kept as a half unit.
\<close>

function isqrt :: "int \<Rightarrow> int" where
  "isqrt n =
     (if n \<le> 0 then 0
      else let r = 2 * isqrt (n div 4) in if (r + 1) * (r + 1) \<le> n then r + 1 else r)"
  by pat_completeness auto
termination
  by (relation "measure nat") auto

fun dsqrt :: "double \<Rightarrow> double" where
  "dsqrt NaN = NaN"
| "dsqrt (Infinity s) = (if s then NaN else Infinity False)"
| "dsqrt (Finite s r) =
     (if r = 0 then Finite s 0
      else if s then NaN
      else let k = 55 - ilog2 r div 2; x = r * pow2 (2 * k); n = isqrt \<lfloor>x\<rfloor>;
               tail = (if of_int (n * n) = x then 0 else 1 / 2)
           in round_double False ((of_int n + tail) * pow2 (- k)))"

text \<open>
  \<open>std::llround\<close>: half away from zero; the result is unspecified (here \<^const>\<open>None\<close>)
  when it does not fit \<open>long long\<close>.
\<close>

definition in_int64 :: "int \<Rightarrow> bool" where
  "in_int64 i \<longleftrightarrow> - (2 ^ 63) \<le> i \<and> i < 2 ^ 63"

fun llround :: "double \<Rightarrow> int option" where
  "llround (Finite s r) =
     (let m = \<lfloor>r + 1 / 2\<rfloor>; i = (if s then - m else m)
      in if in_int64 i then Some i else None)"
| "llround _ = None"

text \<open>The magnitudes a binary64 value can have.\<close>

definition representable :: "rat \<Rightarrow> bool" where
  "representable r \<longleftrightarrow>
     (\<exists>m e. r = of_int m * pow2 e \<and> 0 \<le> m \<and> m < 2 ^ 53 \<and> -1074 \<le> e \<and> e \<le> 971)"

fun wf_double :: "double \<Rightarrow> bool" where
  "wf_double (Finite s r) = representable r"
| "wf_double _ = True"

declare isqrt.simps [simp del]

section \<open>Powers of two\<close>

lemma pow2_powi: "pow2 e = 2 powi e"
  by (simp add: pow2_def power_int_def inverse_eq_divide power_one_over)

lemma pow2_pos [simp]: "0 < pow2 e" "0 \<le> pow2 e" "pow2 e \<noteq> 0"
  by (simp_all add: pow2_powi)

lemma pow2_add: "pow2 (a + b) = pow2 a * pow2 b"
  by (simp add: pow2_powi power_int_add)

lemma pow2_diff: "pow2 (a - b) = pow2 a / pow2 b"
  by (simp add: pow2_powi power_int_diff)

lemma pow2_nat: "0 \<le> e \<Longrightarrow> pow2 e = of_int (2 ^ nat e)"
  by (simp add: pow2_def)

lemma pow2_mono: "a \<le> b \<Longrightarrow> pow2 a \<le> pow2 b"
  by (simp add: pow2_powi power_int_increasing)

lemma pow2_bitlen:
  assumes "0 < x"
  shows "pow2 (bitlen x - 1) \<le> of_int x" and "of_int x < pow2 (bitlen x)"
proof -
  have "2 ^ nat (bitlen x - 1) \<le> x \<and> x < 2 ^ nat (bitlen x)"
    using bitlen_bounds [of x] assms by simp
  moreover have "0 \<le> bitlen x - 1" using bitlen_ge_iff_power [of 1 x] assms by simp
  ultimately show "pow2 (bitlen x - 1) \<le> of_int x" "of_int x < pow2 (bitlen x)"
    by (simp_all add: pow2_nat del: of_int_power)
qed

lemma ilog2_bounds:
  assumes "0 < r"
  shows "pow2 (ilog2 r) \<le> r" and "r < pow2 (ilog2 r + 1)"
proof -
  obtain p q where pq: "quotient_of r = (p, q)" by fastforce
  have q: "0 < q" using quotient_of_denom_pos [OF pq] .
  have r: "r = of_int p / of_int q" using quotient_of_div [OF pq] .
  have p: "0 < p" using assms q by (simp add: r zero_less_divide_iff)
  define k where "k = bitlen p - bitlen q"
  have ub: "r < pow2 (k + 1)"
  proof -
    have "r < pow2 (bitlen p) / pow2 (bitlen q - 1)"
      unfolding r using pow2_bitlen [OF p] pow2_bitlen [OF q] p q
      by (intro frac_less) auto
    also have "\<dots> = pow2 (k + 1)" by (simp add: k_def pow2_diff [symmetric] algebra_simps)
    finally show ?thesis .
  qed
  have lb: "pow2 (k - 1) \<le> r"
  proof -
    have "pow2 (k - 1) = pow2 (bitlen p - 1) / pow2 (bitlen q)"
      by (simp add: k_def pow2_diff [symmetric] algebra_simps)
    also have "\<dots> \<le> r"
      unfolding r using pow2_bitlen [OF p] pow2_bitlen [OF q] p q
      by (intro frac_le) auto
    finally show ?thesis .
  qed
  have il: "ilog2 r = (if pow2 k \<le> r then k else k - 1)"
    by (simp add: ilog2_def pq k_def)
  show "pow2 (ilog2 r) \<le> r" "r < pow2 (ilog2 r + 1)"
    using ub lb by (auto simp: il)
qed

section \<open>Rounding to an integer\<close>

lemma round_half_even_of_int [simp]: "round_half_even (of_int n) = n"
  by (simp add: round_half_even_def)

lemma round_half_even_floor:
  "\<lfloor>r\<rfloor> \<le> round_half_even r" "round_half_even r \<le> \<lfloor>r\<rfloor> + 1"
  by (auto simp: round_half_even_def Let_def)

lemma round_half_even_error: "\<bar>of_int (round_half_even r) - r\<bar> \<le> 1 / 2"
proof -
  have "of_int \<lfloor>r\<rfloor> \<le> r" "r < of_int \<lfloor>r\<rfloor> + 1" by linarith+
  then show ?thesis
    unfolding round_half_even_def Let_def abs_le_iff by (auto; linarith)
qed

lemma round_half_even_lower: "of_int n \<le> r \<Longrightarrow> n \<le> round_half_even r"
  using round_half_even_floor(1) [of r] by (simp add: le_floor_iff [symmetric])

lemma round_half_even_upper:
  assumes "r \<le> of_int n"
  shows "round_half_even r \<le> n"
proof (cases "r = of_int n")
  case True
  then show ?thesis by simp
next
  case False
  with assms have "r < of_int n" by simp
  then have "\<lfloor>r\<rfloor> < n" by (simp add: floor_less_iff)
  then show ?thesis using round_half_even_floor(2) [of r] by simp
qed

section \<open>Rounding to a double\<close>

lemma round_unit_le:
  assumes "0 < r" and "r \<le> of_int m * pow2 e" and "m < 2 ^ 53" and "-1074 \<le> e"
  shows "round_unit r \<le> e"
proof -
  have "pow2 (ilog2 r) < pow2 (e + 53)"
  proof -
    have "pow2 (ilog2 r) \<le> of_int m * pow2 e" using ilog2_bounds [OF assms(1)] assms(2) by simp
    also have "\<dots> < 2 ^ 53 * pow2 e"
      using assms(3) by (intro mult_strict_right_mono) (auto simp flip: of_int_power)
    also have "\<dots> = pow2 (e + 53)" by (simp add: pow2_add pow2_nat)
    finally show ?thesis .
  qed
  then have "ilog2 r < e + 53" by (meson linorder_not_less pow2_mono)
  then show ?thesis using assms(4) by (simp add: round_unit_def)
qed

lemma round_mantissa_bounds:
  assumes "0 < r"
  shows "0 \<le> round_half_even (r / pow2 (round_unit r))"
    and "round_half_even (r / pow2 (round_unit r)) \<le> 2 ^ 53"
proof -
  show "0 \<le> round_half_even (r / pow2 (round_unit r))"
    using assms by (intro round_half_even_lower) auto
  have "r < pow2 (round_unit r + 53)"
    using ilog2_bounds(2) [OF assms] pow2_mono [of "ilog2 r + 1" "round_unit r + 53"]
    unfolding round_unit_def by linarith
  then have "r / pow2 (round_unit r) \<le> of_int (2 ^ 53)"
    by (simp add: pow2_add pow2_nat divide_le_eq mult.commute)
  then show "round_half_even (r / pow2 (round_unit r)) \<le> 2 ^ 53"
    by (rule round_half_even_upper)
qed

lemma representableI:
  "r = of_int m * pow2 e \<Longrightarrow> 0 \<le> m \<Longrightarrow> m < 2 ^ 53 \<Longrightarrow> -1074 \<le> e \<Longrightarrow> e \<le> 971
    \<Longrightarrow> representable r"
  unfolding representable_def by blast

lemma representable_0 [simp]: "representable 0"
  by (rule representableI [of _ 0 0]) simp_all

lemma wf_round_double [simp, intro]: "wf_double (round_double s r)"
proof (cases "r \<le> 0")
  case True
  then show ?thesis by (simp add: round_double_def)
next
  case False
  then have r: "0 < r" by simp
  define e where "e = round_unit r"
  define m where "m = round_half_even (r / pow2 e)"
  have m: "0 \<le> m" "m \<le> 2 ^ 53" unfolding m_def e_def using round_mantissa_bounds [OF r] by auto
  have e: "-1074 \<le> e" by (simp add: e_def round_unit_def)
  show ?thesis
  proof (cases "971 < e \<or> (e = 971 \<and> 9007199254740992 \<le> m)")
    case True
    then show ?thesis using r by (simp add: round_double_def e_def m_def Let_def)
  next
    case fin: False
    have "representable (of_int m * pow2 e)"
    proof (cases "m = 2 ^ 53")
      case True
      have "of_int m * pow2 e = of_int (2 ^ 52) * pow2 (e + 1)"
        by (simp add: True pow2_add pow2_nat)
      then show ?thesis
        using fin e True by (intro representableI [of _ "2 ^ 52" "e + 1"]) auto
    next
      case False
      then show ?thesis using fin e m by (intro representableI [of _ m e]) auto
    qed
    then show ?thesis using r fin by (auto simp: round_double_def e_def m_def Let_def)
  qed
qed

text \<open>
  A representable bound is kept by rounding, and a representable value is not
  changed.
\<close>

lemma round_double_le:
  assumes "0 \<le> r" and "r \<le> b" and "representable b"
  shows "\<exists>v. round_double s r = Finite s v \<and> 0 \<le> v \<and> v \<le> b"
proof (cases "r = 0")
  case True
  then show ?thesis using assms by (simp add: round_double_def)
next
  case False
  with assms have r: "0 < r" by simp
  obtain m e where b: "b = of_int m * pow2 e" "0 \<le> m" "m < 2 ^ 53" "-1074 \<le> e" "e \<le> 971"
    using assms(3) by (auto simp: representable_def)
  define u where "u = round_unit r"
  define k where "k = round_half_even (r / pow2 u)"
  have u: "u \<le> e" unfolding u_def using round_unit_le [OF r _ b(3,4)] assms(2) b(1) by simp
  have be: "b / pow2 u = of_int (m * 2 ^ nat (e - u))"
    using u pow2_nat [of "e - u"] by (simp add: b(1) pow2_diff field_simps)
  have k: "0 \<le> k" "k \<le> m * 2 ^ nat (e - u)"
  proof -
    show "0 \<le> k" unfolding k_def u_def using round_mantissa_bounds(1) [OF r] .
    have "r / pow2 u \<le> of_int (m * 2 ^ nat (e - u))"
      unfolding be [symmetric] using assms(2) by (simp add: divide_right_mono)
    then show "k \<le> m * 2 ^ nat (e - u)" unfolding k_def by (rule round_half_even_upper)
  qed
  have fin: "\<not> (971 < u \<or> (u = 971 \<and> 9007199254740992 \<le> k))"
  proof -
    have "u = 971 \<Longrightarrow> e = u" using u b(5) by simp
    then show ?thesis using u b k by auto
  qed
  have "of_int k \<le> b / pow2 u" using k(2) unfolding be by (simp only: of_int_le_iff)
  then have "of_int k * pow2 u \<le> b" by (simp add: le_divide_eq)
  moreover have "round_double s r = Finite s (of_int k * pow2 u)"
    using r fin by (auto simp: round_double_def u_def k_def Let_def)
  ultimately show ?thesis using k(1) by simp
qed

lemma round_double_exact:
  assumes "representable r" and "0 \<le> r"
  shows "round_double s r = Finite s r"
proof (cases "r = 0")
  case True
  then show ?thesis by (simp add: round_double_def)
next
  case False
  with assms have r: "0 < r" by simp
  obtain m e where b: "r = of_int m * pow2 e" "0 \<le> m" "m < 2 ^ 53" "-1074 \<le> e" "e \<le> 971"
    using assms(1) by (auto simp: representable_def)
  define u where "u = round_unit r"
  have u: "u \<le> e" unfolding u_def using round_unit_le [OF r _ b(3,4)] b(1) by simp
  have q: "r / pow2 u = of_int (m * 2 ^ nat (e - u))"
    using u pow2_nat [of "e - u"] by (simp add: b(1) pow2_diff field_simps)
  have k: "round_half_even (r / pow2 u) = m * 2 ^ nat (e - u)"
    unfolding q by (rule round_half_even_of_int)
  have restore: "of_int (m * 2 ^ nat (e - u)) * pow2 u = r"
    unfolding q [symmetric] by simp
  have "u = 971 \<Longrightarrow> e = u" using u b(5) by simp
  then have fin: "\<not> (971 < u \<or> (u = 971 \<and> 9007199254740992 \<le> round_half_even (r / pow2 u)))"
    using u b k by auto
  show ?thesis
    using r fin restore k unfolding round_double_def u_def [symmetric] Let_def by simp
qed

text \<open>An integer magnitude does not round to zero.\<close>

lemma round_double_nonzero:
  assumes "round_double s (of_int n) = Finite s' 0" and "0 \<le> n"
  shows "n = 0"
proof (rule ccontr)
  assume "n \<noteq> 0"
  with assms(2) have n: "1 \<le> n" by simp
  define r where "r = (of_int n :: rat)"
  have r: "1 \<le> r" "0 < r" using n by (simp_all add: r_def)
  have "round_half_even (r / pow2 (round_unit r)) = 0"
    using assms(1) r by (auto simp: round_double_def Let_def r_def [symmetric] split: if_splits)
  moreover have "1 \<le> r / pow2 (round_unit r)"
    using ilog2_bounds(1) [OF r(2)] r pow2_mono [of "round_unit r" "max (ilog2 r) 0"]
    by (cases "ilog2 r \<le> 0") (auto simp: round_unit_def pow2_nat le_divide_eq)
  ultimately show False using round_half_even_lower [of 1 "r / pow2 (round_unit r)"] by simp
qed

lemma representable_int: "\<bar>n\<bar> \<le> 2 ^ 53 \<Longrightarrow> representable (of_int \<bar>n\<bar>)"
proof (cases "\<bar>n\<bar> = 2 ^ 53")
  case True
  then show ?thesis by (intro representableI [of _ "2 ^ 52" 1]) (simp_all add: pow2_nat)
next
  case False
  assume "\<bar>n\<bar> \<le> 2 ^ 53"
  with False show ?thesis by (intro representableI [of _ "\<bar>n\<bar>" 0]) (simp_all add: pow2_nat)
qed

lemma double_of_int_exact: "\<bar>n\<bar> \<le> 2 ^ 53 \<Longrightarrow> double_of_int n = Finite (n < 0) (of_int \<bar>n\<bar>)"
  unfolding double_of_int_def
  by (rule round_double_exact) (simp_all add: representable_int del: of_int_abs)

lemma wf_double_ops [simp, intro]:
  "wf_double (double_of_int i)"
  "wf_double (dadd x y)"
  "wf_double (dmul x y)"
  "wf_double (ddiv x y)"
  "wf_double (dsqrt x)"
proof -
  show "wf_double (double_of_int i)" by (simp add: double_of_int_def)
  show "wf_double (dadd x y)" by (cases "(x, y)" rule: dadd.cases) (auto simp: Let_def)
  show "wf_double (dmul x y)" by (cases "(x, y)" rule: dmul.cases) auto
  show "wf_double (ddiv x y)" by (cases "(x, y)" rule: ddiv.cases) auto
  show "wf_double (dsqrt x)" by (cases x rule: dsqrt.cases) (auto simp: Let_def)
qed

section \<open>Rounding to \<open>long long\<close>\<close>

lemma representable_2_63: "representable (2 ^ 63)"
  by (rule representableI [of _ "2 ^ 52" 11]) (simp_all add: pow2_nat)

text \<open>
  Below \<open>2\<^sup>6\<^sup>3\<close> a double is either smaller than \<open>2\<^sup>5\<^sup>3\<close> or an integer, so rounding
  it to an integer stays below \<open>2\<^sup>6\<^sup>3\<close>.
\<close>

lemma round_away_less:
  assumes "representable r" and "r < 2 ^ 63"
  shows "\<lfloor>r + 1 / 2\<rfloor> < 2 ^ 63"
proof -
  obtain m e where b: "r = of_int m * pow2 e" "0 \<le> m" "m < 2 ^ 53" "e \<le> 971"
    using assms(1) by (auto simp: representable_def)
  show ?thesis
  proof (cases "0 \<le> e")
    case True
    then have r: "r = of_int (m * 2 ^ nat e)" by (simp add: b(1) pow2_nat)
    then have "\<lfloor>r + 1 / 2\<rfloor> = m * 2 ^ nat e" unfolding floor_eq_iff by simp
    moreover have "m * 2 ^ nat e < 2 ^ 63" using assms(2) unfolding r
      by (metis of_int_less_iff of_int_numeral of_int_power)
    ultimately show ?thesis by simp
  next
    case False
    then have "pow2 e \<le> 1" using pow2_mono [of e 0] by (simp add: pow2_nat)
    then have "r \<le> of_int m" using b(1,2) by (simp add: mult_left_le)
    moreover have "of_int m < (2 ^ 53 :: rat)" using b(3)
      by (metis of_int_less_iff of_int_numeral of_int_power)
    ultimately have "r + 1 / 2 < of_int (2 ^ 63)" by simp
    then show ?thesis by (simp only: floor_less_iff)
  qed
qed

lemma llround_defined:
  assumes "wf_double d" and "d = Finite s r" and "0 \<le> r"
    and "- (2 ^ 63) \<le> signed_rat s r" and "signed_rat s r < 2 ^ 63"
  shows "\<exists>i. llround d = Some i \<and> in_int64 i \<and> \<bar>of_int i - signed_rat s r\<bar> \<le> 1 / 2"
proof -
  define m where "m = \<lfloor>r + 1 / 2\<rfloor>"
  have m0: "0 \<le> m" unfolding m_def using assms(3) by (simp add: le_floor_iff)
  have err: "\<bar>of_int m - r\<bar> \<le> 1 / 2" unfolding m_def by linarith
  have rng: "in_int64 (if s then - m else m)"
  proof (cases "r = 2 ^ 63")
    case True
    then have "m = 2 ^ 63" "s" unfolding m_def
      using assms(5) by (auto simp: floor_eq_iff signed_rat_def split: if_splits)
    then show ?thesis by (simp add: in_int64_def)
  next
    case False
    with assms have "r < 2 ^ 63" by (auto simp: signed_rat_def split: if_splits)
    then have "m < 2 ^ 63" unfolding m_def using assms(1,2) round_away_less by simp
    then show ?thesis using m0 by (auto simp: in_int64_def)
  qed
  then show ?thesis
    using assms(2) err unfolding signed_rat_def
    by (intro exI [of _ "if s then - m else m"]) (auto simp: m_def Let_def abs_minus_commute)
qed

section \<open>Square root\<close>

lemma isqrt_nonneg: "0 \<le> isqrt n"
  by (induction n rule: isqrt.induct) (subst isqrt.simps, auto simp: Let_def)

lemma isqrt_bounds: "0 \<le> n \<Longrightarrow> isqrt n * isqrt n \<le> n \<and> n < (isqrt n + 1) * (isqrt n + 1)"
proof (induction n rule: isqrt.induct)
  case (1 n)
  show ?case
  proof (cases "n \<le> 0")
    case True
    with "1.prems" show ?thesis by (subst (1 2 3 4) isqrt.simps) simp
  next
    case False
    define s where "s = isqrt (n div 4)"
    have IH: "s * s \<le> n div 4" "n div 4 < (s + 1) * (s + 1)"
      unfolding s_def using "1.IH" False by auto
    have low: "4 * (s * s) \<le> n" using IH(1) by linarith
    have high: "n < 4 * ((s + 1) * (s + 1))" using IH(2) by linarith
    have eq: "isqrt n = (if (2 * s + 1) * (2 * s + 1) \<le> n then 2 * s + 1 else 2 * s)"
      by (subst isqrt.simps) (simp add: False s_def Let_def)
    show ?thesis unfolding eq using low high by (auto simp: algebra_simps)
  qed
qed

lemma representable_nonneg: "representable r \<Longrightarrow> 0 \<le> r"
  by (auto simp: representable_def)

end
