(* ===== verification/Text.thy ===== *)
theory Text
  imports Double
begin

text \<open>
  The number formatting and parsing of the C++ standard library that the gateway
  uses: \<open>std::to_string\<close>, stream output of integers and of doubles (\<open>std::fixed\<close> with
  three digits, and the default format with seventeen), and \<open>std::from_chars\<close>.
\<close>

section \<open>C strings\<close>

text \<open>What a library reading \<open>c_str()\<close> sees.\<close>

definition c_str :: "string \<Rightarrow> string" where
  "c_str s = takeWhile (\<lambda>c. c \<noteq> CHR 0x00) s"

section \<open>Decimal integers\<close>

definition digit_char :: "int \<Rightarrow> char" where
  "digit_char d = char_of (48 + d)"

definition digit_val :: "char \<Rightarrow> int" where
  "digit_val c = of_char c - 48"

definition is_digit :: "char \<Rightarrow> bool" where
  "is_digit c \<longleftrightarrow> (48 :: int) \<le> of_char c \<and> of_char c \<le> (57 :: int)"

function dec_digits :: "int \<Rightarrow> string" where
  "dec_digits n =
     (if n < 10 then [digit_char n] else dec_digits (n div 10) @ [digit_char (n mod 10)])"
  by pat_completeness auto
termination
  by (relation "measure nat") auto

definition dec_nat :: "nat \<Rightarrow> string" where
  "dec_nat n = dec_digits (int n)"

definition dec_int :: "int \<Rightarrow> string" where
  "dec_int i = (if i < 0 then CHR ''-'' # dec_digits (- i) else dec_digits i)"

definition dec_val :: "string \<Rightarrow> int" where
  "dec_val s = foldl (\<lambda>n c. 10 * n + digit_val c) 0 s"

text \<open>\<open>std::to_string\<close> on \<open>std::int64_t\<close> and on unsigned values.\<close>

definition to_string_i64 :: "i64 \<Rightarrow> string" where
  "to_string_i64 w = dec_int (sint w)"

definition to_string_u64 :: "u64 \<Rightarrow> string" where
  "to_string_u64 w = dec_digits (uint w)"

declare dec_digits.simps [simp del]

section \<open>Output of doubles\<close>

definition pow10 :: "int \<Rightarrow> rat" where
  "pow10 e = (if 0 \<le> e then 10 ^ nat e else 1 / 10 ^ nat (- e))"

definition ilog10 :: "rat \<Rightarrow> int" where
  "ilog10 r = (let (p, q) = quotient_of r;
                   k = int (length (dec_digits p)) - int (length (dec_digits q))
               in if pow10 k \<le> r then k else k - 1)"

definition pad_left :: "nat \<Rightarrow> string \<Rightarrow> string" where
  "pad_left k s = replicate (k - length s) (CHR ''0'') @ s"

definition sign_text :: "bool \<Rightarrow> string" where
  "sign_text s = (if s then ''-'' else '''')"

text \<open>\<open>std::fixed << std::setprecision(3)\<close>.\<close>

fun format_fixed3 :: "double \<Rightarrow> string" where
  "format_fixed3 NaN = ''nan''"
| "format_fixed3 (Infinity s) = sign_text s @ ''inf''"
| "format_fixed3 (Finite s r) =
     (let n = round_half_even (r * 1000)
      in sign_text s @ dec_digits (n div 1000) @ ''.'' @ pad_left 3 (dec_digits (n mod 1000)))"

definition strip_zeros :: "string \<Rightarrow> string" where
  "strip_zeros s = rev (dropWhile (\<lambda>c. c = CHR ''0'') (rev s))"

definition with_fraction :: "string \<Rightarrow> string \<Rightarrow> string" where
  "with_fraction ip fp = (let f = strip_zeros fp in if f = [] then ip else ip @ ''.'' @ f)"

text \<open>
  \<open>std::setprecision(17)\<close> in the default format (\<open>%.17g\<close>): seventeen significant
  digits, the exponent form outside \<open>10\<^sup>-\<^sup>4 .. 10\<^sup>1\<^sup>7\<close>, trailing zeros dropped.
\<close>

fun format_general17 :: "double \<Rightarrow> string" where
  "format_general17 NaN = ''nan''"
| "format_general17 (Infinity s) = sign_text s @ ''inf''"
| "format_general17 (Finite s r) =
     (if r = 0 then sign_text s @ ''0''
      else let x0 = ilog10 r;
               n0 = round_half_even (r / pow10 (x0 - 16));
               (n, x) = (if n0 = 10 ^ 17 then (10 ^ 16, x0 + 1) else (n0, x0));
               ds = dec_digits n
           in sign_text s @
              (if x < -4 \<or> 17 \<le> x
               then with_fraction (take 1 ds) (drop 1 ds) @ ''e'' @ (if x < 0 then ''-'' else ''+'') @
                    pad_left 2 (dec_digits \<bar>x\<bar>)
               else if 0 \<le> x then with_fraction (take (nat x + 1) ds) (drop (nat x + 1) ds)
               else with_fraction ''0'' (replicate (nat (- x - 1)) (CHR ''0'') @ ds)))"

section \<open>\<open>std::from_chars\<close> for \<open>double\<close>\<close>

definition to_lower :: "char \<Rightarrow> char" where
  "to_lower c = (if (65 :: int) \<le> of_char c \<and> of_char c \<le> (90 :: int)
                 then char_of (of_char c + 32 :: int) else c)"

definition is_word_char :: "char \<Rightarrow> bool" where
  "is_word_char c \<longleftrightarrow>
     is_digit c \<or> c = CHR ''_'' \<or> (97 \<le> (of_char (to_lower c) :: int) \<and> of_char (to_lower c) \<le> (122 :: int))"

definition has_prefix_ci :: "string \<Rightarrow> string \<Rightarrow> bool" where
  "has_prefix_ci p s \<longleftrightarrow> map to_lower (take (length p) s) = p"

definition split_sign :: "string \<Rightarrow> bool \<times> string" where
  "split_sign s = (case s of c # t \<Rightarrow> if c = CHR ''-'' then (True, t) else (False, s)
                   | [] \<Rightarrow> (False, []))"

text \<open>The optional \<open>(\<dots>)\<close> after \<open>nan\<close>.\<close>

definition drop_nan_tag :: "string \<Rightarrow> string" where
  "drop_nan_tag s = (case s of c # t \<Rightarrow>
       if c = CHR ''('' then
         (case dropWhile is_word_char t of d # u \<Rightarrow> if d = CHR '')'' then u else s | [] \<Rightarrow> s)
       else s
     | [] \<Rightarrow> s)"

text \<open>The exponent: its value and the rest; nothing is consumed without digits.\<close>

definition split_exponent :: "string \<Rightarrow> int \<times> string" where
  "split_exponent s = (case s of c # t \<Rightarrow>
       if c = CHR ''e'' \<or> c = CHR ''E'' then
         (let (neg, u) = (case t of d # v \<Rightarrow> if d = CHR ''-'' then (True, v)
                                            else if d = CHR ''+'' then (False, v) else (False, t)
                          | [] \<Rightarrow> (False, t));
              ds = takeWhile is_digit u
          in if ds = [] then (0, s)
             else (if neg then - dec_val ds else dec_val ds, dropWhile is_digit u))
       else (0, s)
     | [] \<Rightarrow> (0, s))"

definition split_fraction :: "string \<Rightarrow> string \<times> string" where
  "split_fraction s = (case s of c # t \<Rightarrow>
       if c = CHR ''.'' then (takeWhile is_digit t, dropWhile is_digit t) else ([], s)
     | [] \<Rightarrow> ([], s))"

definition decimal_value :: "bool \<Rightarrow> rat \<Rightarrow> double option" where
  "decimal_value neg r =
     (case round_double neg r of
        Finite s v \<Rightarrow> if v = 0 \<and> r \<noteq> 0 then None else Some (Finite s v)
      | _ \<Rightarrow> None)"

text \<open>
  The value and the unread rest; \<^const>\<open>None\<close> is an error code (\<open>invalid_argument\<close> when
  nothing matches, \<open>result_out_of_range\<close> when the value overflows or vanishes).
\<close>

definition from_chars :: "string \<Rightarrow> (double \<times> string) option" where
  "from_chars s =
     (let (neg, t) = split_sign s
      in if has_prefix_ci ''infinity'' t then Some (Infinity neg, drop 8 t)
         else if has_prefix_ci ''inf'' t then Some (Infinity neg, drop 3 t)
         else if has_prefix_ci ''nan'' t then Some (NaN, drop_nan_tag (drop 3 t))
         else let ip = takeWhile is_digit t;
                  (fp, u) = split_fraction (dropWhile is_digit t)
              in if ip = [] \<and> fp = [] then None
                 else let (x, rest) = split_exponent u
                      in map_option (\<lambda>d. (d, rest))
                           (decimal_value neg (of_int (dec_val (ip @ fp)) * pow10 (x - int (length fp)))))"

section \<open>Printing and reading integers\<close>

lemma of_char_digit_char [simp]: "0 \<le> d \<Longrightarrow> d < 10 \<Longrightarrow> of_char (digit_char d) = 48 + d"
  by (simp add: digit_char_def)

lemma digit_val_digit_char [simp]: "0 \<le> d \<Longrightarrow> d < 10 \<Longrightarrow> digit_val (digit_char d) = d"
  by (simp add: digit_val_def)

lemma is_digit_digit_char [simp]: "0 \<le> d \<Longrightarrow> d < 10 \<Longrightarrow> is_digit (digit_char d)"
  by (simp add: is_digit_def)

lemma dec_digits_nonempty [simp]: "dec_digits n \<noteq> []"
  by (subst dec_digits.simps) simp

lemma dec_digits_digits: "0 \<le> n \<Longrightarrow> c \<in> set (dec_digits n) \<Longrightarrow> is_digit c"
proof (induction n rule: dec_digits.induct)
  case (1 n)
  from "1.prems"(2) show ?case
    using "1.IH" "1.prems"(1) by (subst (asm) dec_digits.simps) (auto split: if_splits)
qed

lemma dec_val_dec_digits [simp]: "0 \<le> n \<Longrightarrow> dec_val (dec_digits n) = n"
proof (induction n rule: dec_digits.induct)
  case (1 n)
  then show ?case by (subst dec_digits.simps) (auto simp: dec_val_def)
qed

lemma dec_digits_inject: "0 \<le> m \<Longrightarrow> 0 \<le> n \<Longrightarrow> dec_digits m = dec_digits n \<longleftrightarrow> m = n"
  by (metis dec_val_dec_digits)

lemma hd_dec_digits: "0 \<le> n \<Longrightarrow> is_digit (hd (dec_digits n))"
  using dec_digits_digits [of n "hd (dec_digits n)"] by simp

lemma minus_not_digit [simp]: "\<not> is_digit (CHR ''-'')"
  by (simp add: is_digit_def)

lemma minus_neq_dec_digits: "0 \<le> n \<Longrightarrow> CHR ''-'' # s \<noteq> dec_digits n"
  using hd_dec_digits [of n] by (metis list.sel(1) minus_not_digit)

lemma dec_int_inject [simp]: "dec_int a = dec_int b \<longleftrightarrow> a = b"
proof -
  have "a < 0 \<Longrightarrow> b < 0 \<Longrightarrow> ?thesis"
    using dec_digits_inject [of "- a" "- b"] by (simp add: dec_int_def)
  moreover have "\<not> a < 0 \<Longrightarrow> \<not> b < 0 \<Longrightarrow> ?thesis"
    using dec_digits_inject [of a b] by (simp add: dec_int_def)
  moreover have "(a < 0) \<noteq> (b < 0) \<Longrightarrow> dec_int a \<noteq> dec_int b"
    using minus_neq_dec_digits [of a] minus_neq_dec_digits [of b]
    by (auto simp: dec_int_def) metis
  ultimately show ?thesis by blast
qed

lemma span_dec_digits [simp]:
  "0 \<le> n \<Longrightarrow> takeWhile is_digit (dec_digits n) = dec_digits n"
  "0 \<le> n \<Longrightarrow> dropWhile is_digit (dec_digits n) = []"
  using dec_digits_digits by (auto simp: takeWhile_eq_all_conv dropWhile_eq_Nil_conv)

lemma is_digit_not_letter: "is_digit c \<Longrightarrow> to_lower c = c \<and> c \<noteq> CHR ''i'' \<and> c \<noteq> CHR ''n''"
  by (auto simp: is_digit_def to_lower_def)

lemma dec_digits_not_special [simp]:
  assumes "0 \<le> n"
  shows "\<not> has_prefix_ci ''infinity'' (dec_digits n)"
    and "\<not> has_prefix_ci ''inf'' (dec_digits n)"
    and "\<not> has_prefix_ci ''nan'' (dec_digits n)"
  using hd_dec_digits [OF assms]
  by (cases "dec_digits n"; auto simp: has_prefix_ci_def dest: is_digit_not_letter)+

lemma split_sign_dec_int: "split_sign (dec_int i) = (i < 0, dec_digits \<bar>i\<bar>)"
proof (cases "i < 0")
  case True
  then show ?thesis by (simp add: split_sign_def dec_int_def)
next
  case False
  then have "hd (dec_digits i) \<noteq> CHR ''-''"
    using hd_dec_digits [of i] by auto
  then show ?thesis using False
    by (cases "dec_digits i") (auto simp: split_sign_def dec_int_def)
qed

text \<open>Reading back a printed 64-bit integer gives the double nearest to it.\<close>

lemma from_chars_dec_int:
  assumes "\<bar>i\<bar> \<le> 2 ^ 63"
  shows "from_chars (dec_int i) = Some (double_of_int i, [])"
proof -
  have v: "of_int \<bar>i\<bar> * pow10 0 = (of_int \<bar>i\<bar> :: rat)"
    by (simp add: pow10_def)
  have "(of_int \<bar>i\<bar> :: rat) \<le> 2 ^ 63"
    using assms by (metis of_int_le_iff of_int_numeral of_int_power)
  then obtain w where w: "round_double (i < 0) (of_int \<bar>i\<bar>) = Finite (i < 0) w"
    using round_double_le [of "of_int \<bar>i\<bar>" "2 ^ 63" "i < 0"] representable_2_63 by auto
  have "w = 0 \<Longrightarrow> i = 0"
    using w round_double_nonzero [of "i < 0" "\<bar>i\<bar>"] by auto
  then have "decimal_value (i < 0) (of_int \<bar>i\<bar>) = Some (double_of_int i)"
    using w by (auto simp: decimal_value_def double_of_int_def)
  then show ?thesis
    unfolding from_chars_def split_sign_dec_int
    by (simp add: split_fraction_def split_exponent_def v del: of_int_abs)
qed

end
