(* ===== verification/Data_Model.thy ===== *)
theory Data_Model
  imports Text
begin

text \<open>
  The data model of \<open>include/gateway/model.hpp\<close> and the functions of
  \<open>src/core/model.cpp\<close>: scalars, qualities, the configuration records, raw samples
  and batches, readings and events. Unordered maps are partial functions, sizes are
  natural numbers, durations are integers (milliseconds where the source has
  \<open>std::chrono::milliseconds\<close>).
\<close>

section \<open>Values\<close>

datatype Scalar =
    Int64 i64
  | Dbl double
  | Boolean bool
  | Str string
  | Bytes "u8 list"

datatype ValueType = VT_Integer | VT_Double | VT_Boolean | VT_String | VT_ByteArray

datatype Quality = Good | Timeout | Disconnected | DecodeError | OutOfRange | Bad

section \<open>Configuration records\<close>

record PointConfig =
  pt_name :: string
  pt_type :: ValueType
  pt_unit :: string
  pt_address :: "string \<rightharpoonup> string"
  pt_scale :: double
  pt_offset :: double
  pt_minimum :: "double option"
  pt_maximum :: "double option"

record PluginSpec =
  spec_type :: string
  spec_settings_json :: string
  spec_library :: string

record DeviceConfig =
  dev_id :: string
  dev_driver :: PluginSpec
  dev_connection :: "string \<rightharpoonup> string"
  dev_points :: "PointConfig list"

record CollectionGroup =
  grp_id :: string
  grp_device_id :: string
  grp_interval :: int
  grp_timeout :: int
  grp_points :: "string list"

record GatewayConfig =
  raw_queue_capacity :: nat
  control_queue_capacity :: nat
  gw_devices :: "DeviceConfig list"
  gw_groups :: "CollectionGroup list"

section \<open>Samples, readings, events\<close>

record RawSample =
  smp_point :: string
  smp_value :: Scalar
  smp_status :: Quality
  smp_source_time_ns :: i64

record RawBatch =
  bat_device_id :: string
  bat_source :: string
  bat_samples :: "RawSample list"

record Reading =
  rd_point :: string
  rd_value :: Scalar
  rd_quality :: Quality
  rd_unit :: string
  rd_source_time_ns :: i64
  rd_received_time_ns :: i64
  rd_derived :: bool

record Event =
  ev_id :: string
  ev_device_id :: string
  ev_source :: string
  ev_readings :: "Reading list"
  ev_model_version :: string

section \<open>Functions of \<open>model.cpp\<close>\<close>

fun numeric_value :: "Scalar \<Rightarrow> double option" where
  "numeric_value (Int64 i) = Some (double_of_int (sint i))"
| "numeric_value (Dbl d) = Some d"
| "numeric_value (Boolean b) = Some (if b then Finite False 1 else Finite False 0)"
| "numeric_value (Bytes _) = None"
| "numeric_value (Str s) =
     (case from_chars s of
        Some (d, rest) \<Rightarrow> if rest = [] then Some d else None
      | None \<Rightarrow> None)"

fun scalar_to_string :: "Scalar \<Rightarrow> string" where
  "scalar_to_string (Boolean b) = (if b then ''true'' else ''false'')"
| "scalar_to_string (Dbl d) = format_fixed3 d"
| "scalar_to_string (Int64 i) = to_string_i64 i"
| "scalar_to_string (Bytes bs) = ''<'' @ dec_nat (length bs) @ '' bytes>''"
| "scalar_to_string (Str s) = s"

fun quality_name :: "Quality \<Rightarrow> string" where
  "quality_name Good = ''good''"
| "quality_name Timeout = ''timeout''"
| "quality_name Disconnected = ''disconnected''"
| "quality_name DecodeError = ''decode_error''"
| "quality_name OutOfRange = ''out_of_range''"
| "quality_name Bad = ''bad''"

text \<open>
  \<open>find_reading\<close> returns a pointer into the event; the model returns the reading it
  points to (no caller writes through it).
\<close>

fun find_reading_in :: "Reading list \<Rightarrow> string \<Rightarrow> Reading option" where
  "find_reading_in [] point = None"
| "find_reading_in (r # rs) point = (if rd_point r = point then Some r else find_reading_in rs point)"

definition find_reading :: "Event \<Rightarrow> string \<Rightarrow> Reading option" where
  "find_reading event point = find_reading_in (ev_readings event) point"

fun scalar_type :: "Scalar \<Rightarrow> ValueType" where
  "scalar_type (Int64 _) = VT_Integer"
| "scalar_type (Dbl _) = VT_Double"
| "scalar_type (Boolean _) = VT_Boolean"
| "scalar_type (Str _) = VT_String"
| "scalar_type (Bytes _) = VT_ByteArray"

section \<open>Lemmas\<close>

lemma quality_name_inject: "quality_name p = quality_name q \<longleftrightarrow> p = q"
  by (cases p; cases q) simp_all

lemma find_reading_in_Some:
  "find_reading_in rs p = Some r \<Longrightarrow> r \<in> set rs \<and> rd_point r = p"
  by (induction rs) (auto split: if_splits)

lemma find_reading_in_None:
  "find_reading_in rs p = None \<longleftrightarrow> p \<notin> rd_point ` set rs"
  by (induction rs) auto

lemma find_reading_in_append [simp]:
  "find_reading_in (rs @ qs) p =
     (case find_reading_in rs p of None \<Rightarrow> find_reading_in qs p | Some r \<Rightarrow> Some r)"
  by (induction rs) auto

text \<open>A reading found once is found again after more readings are appended.\<close>

lemma find_reading_stable:
  "find_reading e p = Some r \<Longrightarrow> ev_readings e' = ev_readings e @ extra \<Longrightarrow> find_reading e' p = Some r"
  by (simp add: find_reading_def)

lemma sint_i64_range: "in_int64 (sint (w :: i64))"
proof -
  have "- (2 ^ (LENGTH(64) - 1)) \<le> sint w" "sint w < 2 ^ (LENGTH(64) - 1)"
    by (rule sint_ge, rule sint_lt)
  then show ?thesis by (simp add: in_int64_def)
qed

lemma sint_abs_le: "\<bar>sint (w :: i64)\<bar> \<le> 2 ^ 63"
  using sint_i64_range [of w] by (simp add: in_int64_def abs_le_iff)

section \<open>Properties\<close>

text \<open>Printing a 64-bit integer and reading the text back as a number gives the same double as
  converting the integer directly, so an integer sample and its textual form normalise alike.\<close>

theorem integer_text_roundtrip:
  "numeric_value (Str (scalar_to_string (Int64 w))) = numeric_value (Int64 w)"
  using from_chars_dec_int [OF sint_abs_le [of w]] by (simp add: to_string_i64_def)

end
