(* ===== verification/Queue_Contract.thy ===== *)
theory Queue_Contract
  imports Prelude
begin

text \<open>
  The contract both queues of the gateway implement (\<open>BoundedQueue\<close> for raw batches,
  \<open>ControlQueue\<close> for control requests): bounded, first-in first-out, with a close that
  refuses further pushes but lets the consumer drain what was accepted. Each
  operation runs under the queue's mutex, so an interleaving of producers and the
  consumer is a sequence of operations. A blocked \<open>wait_pop\<close> is \<^const>\<open>None\<close>;
  \<open>Some (Some v, q)\<close> is the return value \<open>true\<close> with the element \<open>v\<close>, \<open>Some (None, q)\<close>
  the return value \<open>false\<close>.
\<close>

datatype 'a queue_op = Push 'a | Pop | Close

text \<open>
  A sequence of operations from a queue: the final queue, the accepted elements and
  the elements handed to the consumer, in order. A blocked pop leaves the state as it is
  (the consumer waits and tries again later).
\<close>

fun run_queue ::
  "('q \<Rightarrow> 'a \<Rightarrow> bool \<times> 'q) \<Rightarrow> ('q \<Rightarrow> ('a option \<times> 'q) option) \<Rightarrow> ('q \<Rightarrow> 'q) \<Rightarrow>
   'a queue_op list \<Rightarrow> 'q \<Rightarrow> 'q \<times> 'a list \<times> 'a list" where
  "run_queue push pop close [] q = (q, [], [])"
| "run_queue push pop close (Push v # ops) q =
     (let (ok, q1) = push q v; (q2, ins, outs) = run_queue push pop close ops q1
      in (q2, (if ok then [v] else []) @ ins, outs))"
| "run_queue push pop close (Pop # ops) q =
     (case pop q of
        None \<Rightarrow> run_queue push pop close ops q
      | Some (v, q1) \<Rightarrow>
          (let (q2, ins, outs) = run_queue push pop close ops q1
           in (q2, ins, (case v of Some x \<Rightarrow> x # outs | None \<Rightarrow> outs))))"
| "run_queue push pop close (Close # ops) q = run_queue push pop close ops (close q)"

text \<open>
  The consumer's loop \<open>while (queue.wait_pop(x)) ...\<close> run to its end: the elements it
  receives, or \<^const>\<open>None\<close> when it would wait or the fuel is spent.
\<close>

fun drain_queue :: "('q \<Rightarrow> ('a option \<times> 'q) option) \<Rightarrow> nat \<Rightarrow> 'q \<Rightarrow> ('a list \<times> 'q) option" where
  "drain_queue pop 0 q = None"
| "drain_queue pop (Suc n) q =
     (case pop q of
        None \<Rightarrow> None
      | Some (None, q1) \<Rightarrow> Some ([], q1)
      | Some (Some v, q1) \<Rightarrow> map_option (\<lambda>(vs, q2). (v # vs, q2)) (drain_queue pop n q1))"

locale bounded_fifo =
  fixes contents :: "'q \<Rightarrow> 'a list"
    and limit :: "'q \<Rightarrow> nat"
    and shut :: "'q \<Rightarrow> bool"
    and tally :: "'q \<Rightarrow> u64"
    and push :: "'q \<Rightarrow> 'a \<Rightarrow> bool \<times> 'q"
    and pop :: "'q \<Rightarrow> ('a option \<times> 'q) option"
    and close :: "'q \<Rightarrow> 'q"
  assumes push_iff: "fst (push q v) \<longleftrightarrow> \<not> shut q \<and> length (contents q) < limit q"
    and push_contents: "contents (snd (push q v)) = contents q @ (if fst (push q v) then [v] else [])"
    and push_frame: "limit (snd (push q v)) = limit q" "shut (snd (push q v)) = shut q"
    and push_tally: "tally (snd (push q v)) = tally q + (if fst (push q v) then 1 else 0)"
    and pop_blocks: "pop q = None \<longleftrightarrow> contents q = [] \<and> \<not> shut q"
    and pop_value: "pop q = Some (Some v, q') \<Longrightarrow> contents q = v # contents q'"
    and pop_end: "pop q = Some (None, q') \<Longrightarrow> contents q = [] \<and> shut q \<and> q' = q"
    and pop_frame: "pop q = Some (x, q') \<Longrightarrow> limit q' = limit q \<and> shut q' = shut q \<and> tally q' = tally q"
    and close_laws: "contents (close q) = contents q" "limit (close q) = limit q"
      "shut (close q)" "tally (close q) = tally q"
begin

abbreviation run :: "'a queue_op list \<Rightarrow> 'q \<Rightarrow> 'q \<times> 'a list \<times> 'a list" where
  "run \<equiv> run_queue push pop close"

lemma pop_cases:
  obtains (blocked) "pop q = None" "contents q = []" "\<not> shut q"
  | (ended) "pop q = Some (None, q)" "contents q = []" "shut q"
  | (popped) v q' where "pop q = Some (Some v, q')" "contents q = v # contents q'"
      "limit q' = limit q" "shut q' = shut q" "tally q' = tally q"
proof (cases "pop q")
  case None
  then show ?thesis using blocked pop_blocks by blast
next
  case (Some r)
  then obtain x q' where r: "pop q = Some (x, q')" by (cases r) auto
  show ?thesis
    using r ended popped pop_end pop_value pop_frame by (cases x) metis+
qed

text \<open>Nothing is lost, duplicated or reordered.\<close>

lemma run_fifo:
  "run ops q = (q', ins, outs) \<Longrightarrow> contents q @ ins = outs @ contents q'"
proof (induction ops arbitrary: q ins outs)
  case Nil
  then show ?case by simp
next
  case (Cons x ops)
  show ?case
  proof (cases x)
    case (Push v)
    then show ?thesis
      using Cons push_contents [of q v] by (fastforce simp: Let_def split: prod.splits if_splits)
  next
    case Pop
    then show ?thesis
      using Cons by (cases q rule: pop_cases) (fastforce simp: Let_def split: prod.splits)+
  next
    case Close
    then show ?thesis using Cons.IH [of "close q"] Cons.prems close_laws(1) [of q] by simp
  qed
qed

lemma run_limit: "limit (fst (run ops q)) = limit q"
proof (induction ops arbitrary: q)
  case (Cons x ops)
  show ?case
  proof (cases x)
    case Pop
    then show ?thesis
      using Cons by (cases q rule: pop_cases) (auto simp: Let_def case_prod_beta)
  qed (use Cons push_frame close_laws in \<open>auto simp: Let_def case_prod_beta\<close>)
qed simp

text \<open>The bound on the number of waiting elements is an invariant.\<close>

lemma run_bounded:
  "length (contents q) \<le> limit q \<Longrightarrow>
     length (contents (fst (run ops q))) \<le> limit (fst (run ops q))"
proof (induction ops arbitrary: q)
  case (Cons x ops)
  show ?case
  proof (cases x)
    case (Push v)
    have "length (contents (snd (push q v))) \<le> limit (snd (push q v))"
      using Cons.prems push_iff [of q v] push_contents [of q v] push_frame [of q v] by auto
    then show ?thesis using Push Cons.IH by (simp add: Let_def case_prod_beta)
  next
    case Pop
    then show ?thesis
      using Cons by (cases q rule: pop_cases) (auto simp: Let_def case_prod_beta)
  next
    case Close
    then show ?thesis using Cons close_laws by simp
  qed
qed simp

text \<open>The counter of accepted elements counts them, modulo its width.\<close>

lemma run_tally:
  "run ops q = (q', ins, outs) \<Longrightarrow> tally q' = tally q + of_nat (length ins)"
proof (induction ops arbitrary: q ins outs)
  case (Cons x ops)
  show ?case
  proof (cases x)
    case (Push v)
    then show ?thesis
      using Cons push_tally [of q v] by (auto simp: Let_def split: prod.splits if_splits)
  next
    case Pop
    then show ?thesis
      using Cons by (cases q rule: pop_cases) (auto simp: Let_def split: prod.splits)
  next
    case Close
    then show ?thesis using Cons close_laws by auto
  qed
qed simp

text \<open>After a close nothing more is accepted.\<close>

lemma run_closed:
  "shut q \<Longrightarrow> run ops q = (q', ins, outs) \<Longrightarrow> ins = [] \<and> shut q'"
proof (induction ops arbitrary: q ins outs)
  case (Cons x ops)
  show ?case
  proof (cases x)
    case (Push v)
    then show ?thesis
      using Cons push_iff [of q v] push_frame [of q v] by (auto simp: Let_def split: prod.splits)
  next
    case Pop
    then show ?thesis
      using Cons by (cases q rule: pop_cases) (fastforce simp: Let_def split: prod.splits)+
  next
    case Close
    then show ?thesis using Cons.IH [OF close_laws(3)] Cons.prems by simp
  qed
qed simp

text \<open>
  On a closed queue the consumer's loop ends, after receiving exactly the waiting
  elements; one turn per element and one for the final \<open>false\<close> is enough.
\<close>

lemma drain_closed:
  "shut q \<Longrightarrow> length (contents q) < n \<Longrightarrow>
     \<exists>q'. drain_queue pop n q = Some (contents q, q') \<and> contents q' = [] \<and> shut q'"
proof (induction n arbitrary: q)
  case (Suc n)
  show ?case
    using Suc.prems by (cases q rule: pop_cases) (use Suc.IH in \<open>fastforce+\<close>)
qed simp

lemma drain_open_blocks:
  "\<not> shut q \<Longrightarrow> drain_queue pop n q = None"
proof (induction n arbitrary: q)
  case (Suc n)
  show ?case
    using Suc.prems by (cases q rule: pop_cases) (auto simp: Suc.IH)
qed simp

end

text \<open>A queue whose waiting elements can be taken out all at once.\<close>

locale cancellable_fifo = bounded_fifo contents limit shut tally push pop close
  for contents :: "'q \<Rightarrow> 'a list" and limit shut tally push pop close +
  fixes cancel :: "'q \<Rightarrow> 'a list \<times> 'q"
  assumes cancel_laws: "fst (cancel q) = contents q" "contents (snd (cancel q)) = []"
    "limit (snd (cancel q)) = limit q" "shut (snd (cancel q)) = shut q"
    "tally (snd (cancel q)) = tally q"
begin

text \<open>Closing and cancelling leaves the consumer nothing to do.\<close>

lemma close_cancel_drained:
  "drain_queue pop (Suc n) (snd (cancel (close q))) = Some ([], snd (cancel (close q)))"
proof -
  have "contents (snd (cancel (close q))) = []" "shut (snd (cancel (close q)))"
    using cancel_laws close_laws by simp_all
  then show ?thesis
    by (cases "snd (cancel (close q))" rule: pop_cases) auto
qed

end

end
