(* ===== verification/Scheduler.thy ===== *)
theory Scheduler
  imports Prelude
begin

text \<open>
  \<open>src/core/scheduler.cpp\<close>: the fixed-interval sequential policy and the engine that
  runs it on one worker thread. Time points are nanoseconds as integers and
  intervals are milliseconds; every clock reading is an argument. The policy is an
  interface (\<open>ISchedulePolicy\<close>): the engine's operations take its methods as
  arguments, and its contract is the locale \<open>schedule_policy\<close>. A task pointer is the
  task's index. A loop that never returns is \<^const>\<open>None\<close>. The code adds an interval to a time point in
  64-bit arithmetic: \<open>on_complete64_task\<close> does the same, and \<open>on_complete64_exact\<close> shows where it agrees
  with \<open>on_complete_task\<close> on unbounded integers, which the gateway's theories use.
\<close>

section \<open>Tasks and helpers\<close>

record ScheduleTask =
  task_group_id :: string
  task_interval :: int
  task_next_due :: int
  task_stable_order :: nat
  task_skipped_cycles :: u64

definition ms :: "int \<Rightarrow> int" where
  "ms n = n * 1000000"

definition time_point_max :: int where
  "time_point_max = 2 ^ 63 - 1"

definition nonnegative_nanoseconds :: "int \<Rightarrow> u64" where
  "nonnegative_nanoseconds value = (if value > 0 then word_of_int value else 0)"

definition saturating_add :: "u64 \<Rightarrow> u64 \<Rightarrow> u64" where
  "saturating_add target value = (if value > u64_max - target then u64_max else target + value)"

section \<open>\<open>FixedIntervalSequentialPolicy\<close>\<close>

definition check_task :: "string set \<Rightarrow> ScheduleTask \<Rightarrow> string set result" where
  "check_task group_ids task =
     (if task_group_id task = [] then Inl (Invalid_argument ''schedule group id must not be empty'')
      else if task_interval task \<le> 0
           then Inl (Invalid_argument (''schedule task interval must be positive: '' @ task_group_id task))
      else if task_group_id task \<in> group_ids
           then Inl (Invalid_argument (''duplicate schedule group id: '' @ task_group_id task))
      else Inr (insert (task_group_id task) group_ids))"

definition policy_new :: "ScheduleTask list \<Rightarrow> ScheduleTask list result" where
  "policy_new tasks = rbind (rfold check_task {} tasks) (\<lambda>_. Inr tasks)"

definition earlier :: "ScheduleTask \<Rightarrow> ScheduleTask \<Rightarrow> bool" where
  "earlier a b \<longleftrightarrow>
     task_next_due a < task_next_due b \<or>
     (task_next_due a = task_next_due b \<and> task_stable_order a < task_stable_order b)"

fun select_loop ::
  "int \<Rightarrow> (nat \<times> ScheduleTask) list \<Rightarrow> (nat \<times> ScheduleTask) option \<Rightarrow> (nat \<times> ScheduleTask) option" where
  "select_loop now [] selected = selected"
| "select_loop now ((i, task) # rest) selected =
     (if task_next_due task > now then select_loop now rest selected
      else case selected of
             None \<Rightarrow> select_loop now rest (Some (i, task))
           | Some (j, s) \<Rightarrow>
               select_loop now rest (if earlier task s then Some (i, task) else selected))"

definition policy_select_due :: "ScheduleTask list \<Rightarrow> int \<Rightarrow> nat option" where
  "policy_select_due tasks now = map_option fst (select_loop now (enumerate 0 tasks) None)"

fun min_element :: "ScheduleTask \<Rightarrow> ScheduleTask list \<Rightarrow> ScheduleTask" where
  "min_element best [] = best"
| "min_element best (t # ts) = min_element (if earlier t best then t else best) ts"

definition policy_next_wakeup :: "ScheduleTask list \<Rightarrow> int" where
  "policy_next_wakeup tasks =
     (case tasks of [] \<Rightarrow> time_point_max | t # ts \<Rightarrow> task_next_due (min_element t ts))"

partial_function (option) catch_up :: "ScheduleTask \<Rightarrow> int \<Rightarrow> ScheduleTask option" where
  "catch_up task finished_at =
     (if task_next_due task \<le> finished_at
      then catch_up (task\<lparr>task_next_due := task_next_due task + ms (task_interval task),
                          task_skipped_cycles :=
                            (if task_skipped_cycles task < u64_max then task_skipped_cycles task + 1
                             else task_skipped_cycles task)\<rparr>) finished_at
      else Some task)"

definition on_complete_task :: "ScheduleTask \<Rightarrow> int \<Rightarrow> ScheduleTask option" where
  "on_complete_task task finished_at =
     catch_up (task\<lparr>task_next_due := task_next_due task + ms (task_interval task)\<rparr>) finished_at"

definition policy_on_complete :: "ScheduleTask list \<Rightarrow> nat \<Rightarrow> int \<Rightarrow> ScheduleTask list option" where
  "policy_on_complete tasks i finished_at =
     map_option (\<lambda>t. tasks[i := t]) (on_complete_task (tasks ! i) finished_at)"

text \<open>
  The same in the machine's arithmetic: the interval in nanoseconds and each sum are 64-bit signed numbers that
  wrap around.
\<close>

definition signed64 :: "int \<Rightarrow> int" where
  "signed64 n = (n + 2 ^ 63) mod 2 ^ 64 - 2 ^ 63"

definition add_interval :: "ScheduleTask \<Rightarrow> int" where
  "add_interval task = signed64 (task_next_due task + signed64 (ms (task_interval task)))"

partial_function (option) catch_up64 :: "ScheduleTask \<Rightarrow> int \<Rightarrow> ScheduleTask option" where
  "catch_up64 task finished_at =
     (if task_next_due task \<le> finished_at
      then catch_up64 (task\<lparr>task_next_due := add_interval task,
                            task_skipped_cycles :=
                              (if task_skipped_cycles task < u64_max then task_skipped_cycles task + 1
                               else task_skipped_cycles task)\<rparr>) finished_at
      else Some task)"

definition on_complete64_task :: "ScheduleTask \<Rightarrow> int \<Rightarrow> ScheduleTask option" where
  "on_complete64_task task finished_at = catch_up64 (task\<lparr>task_next_due := add_interval task\<rparr>) finished_at"

definition policy_on_complete64 :: "ScheduleTask list \<Rightarrow> nat \<Rightarrow> int \<Rightarrow> ScheduleTask list option" where
  "policy_on_complete64 tasks i finished_at =
     map_option (\<lambda>t. tasks[i := t]) (on_complete64_task (tasks ! i) finished_at)"

definition policy_tasks :: "ScheduleTask list \<Rightarrow> ScheduleTask list" where
  "policy_tasks tasks = tasks"

section \<open>\<open>SchedulerEngine\<close>\<close>

record SchedulerStats =
  ss_executed :: u64
  ss_errors :: u64
  ss_lateness_ns :: u64
  ss_duration_ns :: u64
  ss_skipped_cycles :: u64

text \<open>
  \<open>se_running\<close> says that the worker thread is inside \<open>run()\<close>, \<open>se_joinable\<close> that it has
  not been joined.
\<close>

record 'p SchedulerEngine =
  se_policy :: 'p
  se_started :: bool
  se_stopping :: bool
  se_running :: bool
  se_joinable :: bool
  se_stats :: SchedulerStats

definition zero_stats :: SchedulerStats where
  "zero_stats = \<lparr>ss_executed = 0, ss_errors = 0, ss_lateness_ns = 0, ss_duration_ns = 0,
     ss_skipped_cycles = 0\<rparr>"

definition SchedulerEngine_new :: "'p option \<Rightarrow> bool \<Rightarrow> 'p SchedulerEngine result" where
  "SchedulerEngine_new policy has_poll =
     (case policy of
        None \<Rightarrow> Inl (Invalid_argument ''schedule policy must not be null'')
      | Some p \<Rightarrow>
          if \<not> has_poll then Inl (Invalid_argument ''poll callback must not be empty'')
          else Inr \<lparr>se_policy = p, se_started = False, se_stopping = False, se_running = False,
                    se_joinable = False, se_stats = zero_stats\<rparr>)"

definition SchedulerEngine_start :: "'p SchedulerEngine \<Rightarrow> 'p SchedulerEngine result" where
  "SchedulerEngine_start e =
     (if se_started e then Inl (Logic_error ''scheduler has already been started'')
      else Inr (e\<lparr>se_stopping := False, se_running := True, se_joinable := True, se_started := True\<rparr>))"

definition SchedulerEngine_request_stop :: "'p SchedulerEngine \<Rightarrow> 'p SchedulerEngine" where
  "SchedulerEngine_request_stop e = e\<lparr>se_stopping := True\<rparr>"

text \<open>\<open>join()\<close> waits (\<^const>\<open>None\<close>) while the worker is still running.\<close>

definition SchedulerEngine_join :: "'p SchedulerEngine \<Rightarrow> 'p SchedulerEngine option" where
  "SchedulerEngine_join e =
     (if se_joinable e then (if se_running e then None else Some (e\<lparr>se_joinable := False\<rparr>))
      else Some e)"

definition SchedulerEngine_stats :: "'p SchedulerEngine \<Rightarrow> SchedulerStats" where
  "SchedulerEngine_stats e = se_stats e"

text \<open>
  What the environment contributes to one turn of \<open>run()\<close>: the clock when the turn
  starts, when the poll starts and when it finishes, and whether the poll threw.
\<close>

record round =
  rnd_now :: int
  rnd_started_at :: int
  rnd_failed :: bool
  rnd_finished_at :: int

definition update_stats :: "SchedulerStats \<Rightarrow> ScheduleTask \<Rightarrow> round \<Rightarrow> u64 \<Rightarrow> SchedulerStats" where
  "update_stats st task r skipped =
     st\<lparr>ss_executed := ss_executed st + 1,
        ss_errors := (if rnd_failed r then ss_errors st + 1 else ss_errors st),
        ss_lateness_ns := saturating_add (ss_lateness_ns st)
          (nonnegative_nanoseconds (rnd_started_at r - task_next_due task)),
        ss_duration_ns := saturating_add (ss_duration_ns st)
          (nonnegative_nanoseconds (rnd_finished_at r - rnd_started_at r)),
        ss_skipped_cycles := saturating_add (ss_skipped_cycles st) skipped\<rparr>"

text \<open>
  One turn of the loop of \<open>run()\<close>: leave when stopping, wait when nothing is due
  (the state does not change), else poll the selected task and account for it. The
  result also names the task that was polled.
\<close>

definition engine_round ::
  "('p \<Rightarrow> ScheduleTask list) \<Rightarrow> ('p \<Rightarrow> int \<Rightarrow> nat option) \<Rightarrow> ('p \<Rightarrow> nat \<Rightarrow> int \<Rightarrow> 'p option) \<Rightarrow>
   round \<Rightarrow> 'p SchedulerEngine \<Rightarrow> ('p SchedulerEngine \<times> nat option) option" where
  "engine_round tasks select_due on_complete r e =
     (if \<not> se_running e then Some (e, None)
      else if se_stopping e then Some (e\<lparr>se_running := False\<rparr>, None)
      else case select_due (se_policy e) (rnd_now r) of
             None \<Rightarrow> Some (e, None)
           | Some i \<Rightarrow>
               (let task = tasks (se_policy e) ! i
                in map_option (\<lambda>p.
                     (e\<lparr>se_policy := p,
                        se_stats := update_stats (se_stats e) task r
                          (task_skipped_cycles (tasks p ! i) - task_skipped_cycles task)\<rparr>, Some i))
                   (on_complete (se_policy e) i (rnd_finished_at r))))"

fun engine_run ::
  "('p \<Rightarrow> ScheduleTask list) \<Rightarrow> ('p \<Rightarrow> int \<Rightarrow> nat option) \<Rightarrow> ('p \<Rightarrow> nat \<Rightarrow> int \<Rightarrow> 'p option) \<Rightarrow>
   round list \<Rightarrow> 'p SchedulerEngine \<Rightarrow> ('p SchedulerEngine \<times> nat option list) option" where
  "engine_run tasks select_due on_complete [] e = Some (e, [])"
| "engine_run tasks select_due on_complete (r # rs) e =
     Option.bind (engine_round tasks select_due on_complete r e) (\<lambda>(e1, i).
       map_option (\<lambda>(e2, is). (e2, i # is)) (engine_run tasks select_due on_complete rs e1))"

text \<open>
  How long the engine sleeps when nothing is due: until stop is requested (\<^const>\<open>None\<close>)
  or until the returned time.
\<close>

definition engine_sleep :: "('p \<Rightarrow> int) \<Rightarrow> 'p SchedulerEngine \<Rightarrow> int option" where
  "engine_sleep next_wakeup e =
     (let wakeup = next_wakeup (se_policy e) in if wakeup = time_point_max then None else Some wakeup)"

section \<open>The policy's contract\<close>

text \<open>
  What makes the engine fair: the selected task is due and no due task is earlier; a completed task is due
  again only after the time it finished, and other tasks are untouched.
\<close>

locale schedule_order =
  fixes tasks :: "'p \<Rightarrow> ScheduleTask list"
    and select_due :: "'p \<Rightarrow> int \<Rightarrow> nat option"
    and on_complete :: "'p \<Rightarrow> nat \<Rightarrow> int \<Rightarrow> 'p option"
  assumes select_Some: "select_due p now = Some i \<Longrightarrow>
      i < length (tasks p) \<and> task_next_due (tasks p ! i) \<le> now \<and>
      (\<forall>t \<in> set (tasks p). task_next_due t \<le> now \<longrightarrow> \<not> earlier t (tasks p ! i))"
    and complete_length: "on_complete p i f = Some p' \<Longrightarrow> length (tasks p') = length (tasks p)"
    and complete_other: "on_complete p i f = Some p' \<Longrightarrow> j \<noteq> i \<Longrightarrow> tasks p' ! j = tasks p ! j"
    and complete_later: "on_complete p i f = Some p' \<Longrightarrow> i < length (tasks p) \<Longrightarrow>
      f < task_next_due (tasks p' ! i)"
begin

abbreviation engine_step :: "round \<Rightarrow> 'p SchedulerEngine \<Rightarrow> ('p SchedulerEngine \<times> nat option) option" where
  "engine_step \<equiv> engine_round tasks select_due on_complete"

abbreviation engine :: "round list \<Rightarrow> 'p SchedulerEngine \<Rightarrow> ('p SchedulerEngine \<times> nat option list) option" where
  "engine \<equiv> engine_run tasks select_due on_complete"

text \<open>
  A polled task is postponed past the time its poll finished, so while a due task
  waits no other task is polled twice: it waits for at most one poll of each other
  task.
\<close>

lemma round_poll:
  assumes "engine_step r e = Some (e', Some i)"
  shows "select_due (se_policy e) (rnd_now r) = Some i"
    and "on_complete (se_policy e) i (rnd_finished_at r) = Some (se_policy e')"
    and "se_running e'" and "\<not> se_stopping e'"
  using assms by (auto simp: engine_round_def Let_def split: if_splits option.splits)

lemma no_second_poll:
  assumes "engine rs e = Some (e', map Some is)"
    and "k < length (tasks (se_policy e))" and "k \<notin> set is"
    and "task_next_due (tasks (se_policy e) ! k) \<le> t"
    and "\<forall>r \<in> set rs. t \<le> rnd_now r \<and> t \<le> rnd_finished_at r"
    and "J \<subseteq> {..< length (tasks (se_policy e))}"
    and "\<forall>j \<in> J. t < task_next_due (tasks (se_policy e) ! j)"
  shows "distinct is \<and> set is \<inter> J = {} \<and> set is \<subseteq> {..< length (tasks (se_policy e))}"
  using assms
proof (induction rs arbitrary: e "is" J)
  case Nil
  then show ?case by simp
next
  case (Cons r rs)
  obtain i ns where is_def: "is = i # ns" and st: "\<exists>e1. engine_step r e = Some (e1, Some i) \<and>
      engine rs e1 = Some (e', map Some ns)"
    using Cons.prems(1) by (cases "is") (auto simp: bind_eq_Some_conv)
  then obtain e1 where e1: "engine_step r e = Some (e1, Some i)" "engine rs e1 = Some (e', map Some ns)"
    by blast
  note poll = round_poll [OF e1(1)]
  have i: "i < length (tasks (se_policy e))" using select_Some [OF poll(1)] by blast
  have ik: "i \<noteq> k" using Cons.prems(3) is_def by auto
  have len: "length (tasks (se_policy e1)) = length (tasks (se_policy e))"
    using complete_length [OF poll(2)] .
  have other: "j \<noteq> i \<Longrightarrow> tasks (se_policy e1) ! j = tasks (se_policy e) ! j" for j
    using complete_other [OF poll(2)] .
  have "t < task_next_due (tasks (se_policy e1) ! i)"
    using complete_later [OF poll(2) i] Cons.prems(5) by fastforce
  then have J1: "\<forall>j \<in> insert i J. t < task_next_due (tasks (se_policy e1) ! j)"
    using Cons.prems(7) other by (metis insert_iff)
  have IH: "distinct ns \<and> set ns \<inter> insert i J = {} \<and> set ns \<subseteq> {..< length (tasks (se_policy e1))}"
  proof (rule Cons.IH [OF e1(2)])
    show "k < length (tasks (se_policy e1))" using Cons.prems(2) len by simp
    show "k \<notin> set ns" using Cons.prems(3) is_def by simp
    show "task_next_due (tasks (se_policy e1) ! k) \<le> t" using Cons.prems(4) other [of k] ik by simp
    show "\<forall>r \<in> set rs. t \<le> rnd_now r \<and> t \<le> rnd_finished_at r" using Cons.prems(5) by simp
    show "insert i J \<subseteq> {..< length (tasks (se_policy e1))}" using Cons.prems(6) i len by simp
    show "\<forall>j \<in> insert i J. t < task_next_due (tasks (se_policy e1) ! j)" by (rule J1)
  qed
  have "i \<notin> J"
  proof
    assume "i \<in> J"
    then have "t < task_next_due (tasks (se_policy e) ! i)" using Cons.prems(7) by blast
    then have "earlier (tasks (se_policy e) ! k) (tasks (se_policy e) ! i)"
      using Cons.prems(4) by (simp add: earlier_def)
    moreover have "task_next_due (tasks (se_policy e) ! k) \<le> rnd_now r"
      using Cons.prems(4,5) by fastforce
    ultimately show False using select_Some [OF poll(1)] Cons.prems(2) nth_mem by blast
  qed
  then show ?case using IH i len is_def by auto
qed

lemma bounded_waiting:
  assumes "engine rs e = Some (e', map Some is)"
    and "k < length (tasks (se_policy e))"
    and "task_next_due (tasks (se_policy e) ! k) \<le> t"
    and "\<forall>r \<in> set rs. t \<le> rnd_now r \<and> t \<le> rnd_finished_at r"
    and "length (tasks (se_policy e)) \<le> length is"
  shows "k \<in> set is"
proof (rule ccontr)
  assume k: "k \<notin> set is"
  have d: "distinct is" "set is \<subseteq> {..< length (tasks (se_policy e))}"
    using no_second_poll [OF assms(1,2) k assms(3,4), of "{}"] by auto
  have "set is \<subseteq> {..< length (tasks (se_policy e))} - {k}" using d(2) k by blast
  then have "card (set is) \<le> card ({..< length (tasks (se_policy e))} - {k})"
    by (rule card_mono [rotated]) simp
  then have "length is < length (tasks (se_policy e))"
    using d(1) assms(2) by (simp add: distinct_card)
  then show False using assms(5) by simp
qed

end

text \<open>
  What the engine relies on besides: selection finds a task whenever one is due, the wake-up time is the earliest
  due time, and completion returns and keeps the policy valid.
\<close>

locale schedule_policy = schedule_order tasks select_due on_complete
  for tasks :: "'p \<Rightarrow> ScheduleTask list"
    and select_due :: "'p \<Rightarrow> int \<Rightarrow> nat option"
    and on_complete :: "'p \<Rightarrow> nat \<Rightarrow> int \<Rightarrow> 'p option" +
  fixes next_wakeup :: "'p \<Rightarrow> int"
    and valid :: "'p \<Rightarrow> bool"
  assumes select_None: "select_due p now = None \<longleftrightarrow> (\<forall>t \<in> set (tasks p). now < task_next_due t)"
    and wakeup_future: "select_due p now = None \<Longrightarrow> tasks p \<noteq> [] \<Longrightarrow> now < next_wakeup p"
    and wakeup_due: "tasks p \<noteq> [] \<Longrightarrow> \<exists>t \<in> set (tasks p). next_wakeup p = task_next_due t"
    and complete_returns: "valid p \<Longrightarrow> i < length (tasks p) \<Longrightarrow> \<exists>p'. on_complete p i f = Some p'"
    and complete_valid: "valid p \<Longrightarrow> i < length (tasks p) \<Longrightarrow> on_complete p i f = Some p' \<Longrightarrow> valid p'"
begin

lemma round_returns:
  assumes "valid (se_policy e)"
  shows "\<exists>e' i. engine_step r e = Some (e', i) \<and> valid (se_policy e') \<and>
           length (tasks (se_policy e')) = length (tasks (se_policy e)) \<and>
           se_stopping e' = se_stopping e"
proof (cases "se_running e \<and> \<not> se_stopping e")
  case False
  then show ?thesis using assms by (auto simp: engine_round_def)
next
  case True
  show ?thesis
  proof (cases "select_due (se_policy e) (rnd_now r)")
    case None
    then show ?thesis using True assms by (auto simp: engine_round_def)
  next
    case (Some i)
    then have i: "i < length (tasks (se_policy e))" using select_Some by blast
    then obtain p' where p': "on_complete (se_policy e) i (rnd_finished_at r) = Some p'"
      using complete_returns [OF assms] by blast
    then show ?thesis
      using True Some complete_valid [OF assms i p'] complete_length [OF p']
      by (simp add: engine_round_def Let_def)
  qed
qed

lemma run_returns:
  "valid (se_policy e) \<Longrightarrow> \<exists>e' is. engine rs e = Some (e', is) \<and> valid (se_policy e')"
proof (induction rs arbitrary: e)
  case (Cons r rs)
  obtain e1 i where "engine_step r e = Some (e1, i)" "valid (se_policy e1)"
    using round_returns [OF Cons.prems] by blast
  then show ?case using Cons.IH [of e1] by auto
qed simp

end

section \<open>Lemmas: counters\<close>

lemma unat_u64_max: "unat u64_max = 2 ^ 64 - 1"
  by (simp add: unsigned_minus_1_eq_mask mask_eq_exp_minus_1)

lemma unat_u64_le: "unat (w :: u64) \<le> 2 ^ 64 - 1"
proof -
  have "unat w < 2 ^ LENGTH(64)" by (rule unsigned_less)
  then show ?thesis by simp
qed

lemma unat_saturating_add: "unat (saturating_add a b) = min (2 ^ 64 - 1) (unat a + unat b)"
proof -
  have "unat (u64_max - a) = 2 ^ 64 - 1 - unat a"
    using unat_sub [of a u64_max] by (simp add: unat_u64_max del: word_n1_ge)
  then have lt: "u64_max - a < b \<longleftrightarrow> 2 ^ 64 - 1 - unat a < unat b"
    by (simp add: word_less_nat_alt)
  show ?thesis
  proof (cases "u64_max - a < b")
    case True
    then show ?thesis
      using lt unat_u64_le [of a] by (simp add: saturating_add_def unat_u64_max min_def)
  next
    case False
    then have "unat a + unat b < 2 ^ 64"
      using lt unat_u64_le [of a] by auto
    then show ?thesis
      using False by (simp add: saturating_add_def unat_word_ariths min_def)
  qed
qed

definition bump_skipped :: "u64 \<Rightarrow> u64" where
  "bump_skipped s = (if s < u64_max then s + 1 else s)"

lemma unat_bump_skipped: "unat (bump_skipped s) = min (2 ^ 64 - 1) (unat s + 1)"
proof (cases "s = u64_max")
  case True
  then show ?thesis by (simp add: bump_skipped_def unat_u64_max)
next
  case False
  then have lt: "s < u64_max" by (simp add: less_le)
  then have "unat s < 2 ^ 64 - 1" unfolding word_less_nat_alt unat_u64_max .
  then show ?thesis using lt by (simp add: bump_skipped_def unat_word_ariths)
qed

section \<open>Lemmas: catching up\<close>

lemma ms_pos: "0 < n \<Longrightarrow> 0 < ms n"
  by (simp add: ms_def)

lemma catch_up_terminates:
  assumes "0 < task_interval t"
  shows "\<exists>n t'. catch_up t f = Some t' \<and>
           t' = t\<lparr>task_next_due := task_next_due t + int n * ms (task_interval t),
                  task_skipped_cycles := task_skipped_cycles t'\<rparr> \<and>
           unat (task_skipped_cycles t') = min (2 ^ 64 - 1) (unat (task_skipped_cycles t) + n) \<and>
           f < task_next_due t' \<and> (n = 0 \<or> task_next_due t' - ms (task_interval t) \<le> f)"
  using assms
proof (induction "nat (f + 1 - task_next_due t)" arbitrary: t rule: less_induct)
  case less
  have iv: "0 < ms (task_interval t)" using less.prems by (rule ms_pos)
  show ?case
  proof (cases "task_next_due t \<le> f")
    case False
    then have "catch_up t f = Some t" by (simp add: catch_up.simps)
    then show ?thesis using False unat_u64_le [of "task_skipped_cycles t"]
      by (intro exI [of _ 0] exI [of _ t]) simp
  next
    case True
    define u where "u = t\<lparr>task_next_due := task_next_due t + ms (task_interval t),
      task_skipped_cycles := bump_skipped (task_skipped_cycles t)\<rparr>"
    have step: "catch_up t f = catch_up u f"
      using True by (subst catch_up.simps) (simp add: u_def bump_skipped_def)
    have "nat (f + 1 - task_next_due u) < nat (f + 1 - task_next_due t)"
      using True iv by (simp add: u_def)
    moreover have "0 < task_interval u" using less.prems by (simp add: u_def)
    ultimately obtain n t' where IH: "catch_up u f = Some t'"
      "t' = u\<lparr>task_next_due := task_next_due u + int n * ms (task_interval u),
              task_skipped_cycles := task_skipped_cycles t'\<rparr>"
      "unat (task_skipped_cycles t') = min (2 ^ 64 - 1) (unat (task_skipped_cycles u) + n)"
      "f < task_next_due t'" "n = 0 \<or> task_next_due t' - ms (task_interval u) \<le> f"
      using less.hyps by blast
    have due: "task_next_due t' = task_next_due t + int (Suc n) * ms (task_interval t)"
      by (subst IH(2)) (simp add: u_def algebra_simps)
    have "t' = t\<lparr>task_next_due := task_next_due t + int (Suc n) * ms (task_interval t),
        task_skipped_cycles := task_skipped_cycles t'\<rparr>"
      by (subst IH(2)) (simp add: u_def algebra_simps)
    moreover have "unat (task_skipped_cycles t') = min (2 ^ 64 - 1) (unat (task_skipped_cycles t) + Suc n)"
      using IH(3) by (simp add: u_def unat_bump_skipped min_def)
    moreover have "task_next_due t' - ms (task_interval t) \<le> f"
      using IH(5) due True by (auto simp: u_def)
    ultimately show ?thesis using step IH(1,4) by (intro exI [of _ "Suc n"] exI [of _ t']) simp
  qed
qed

lemma on_complete_returns:
  assumes "0 < task_interval t"
  shows "\<exists>n t'. on_complete_task t f = Some t' \<and> 1 \<le> n \<and>
           t' = t\<lparr>task_next_due := task_next_due t + int n * ms (task_interval t),
                  task_skipped_cycles := task_skipped_cycles t'\<rparr> \<and>
           unat (task_skipped_cycles t') = min (2 ^ 64 - 1) (unat (task_skipped_cycles t) + (n - 1)) \<and>
           f < task_next_due t' \<and> (n = 1 \<or> task_next_due t' - ms (task_interval t) \<le> f)"
proof -
  define u where "u = t\<lparr>task_next_due := task_next_due t + ms (task_interval t)\<rparr>"
  have "0 < task_interval u" using assms by (simp add: u_def)
  from catch_up_terminates [OF this, of f] obtain n t' where c:
    "catch_up u f = Some t'"
    "t' = u\<lparr>task_next_due := task_next_due u + int n * ms (task_interval u),
            task_skipped_cycles := task_skipped_cycles t'\<rparr>"
    "unat (task_skipped_cycles t') = min (2 ^ 64 - 1) (unat (task_skipped_cycles u) + n)"
    "f < task_next_due t'" "n = 0 \<or> task_next_due t' - ms (task_interval u) \<le> f"
    by blast
  have "t' = t\<lparr>task_next_due := task_next_due t + int (Suc n) * ms (task_interval t),
      task_skipped_cycles := task_skipped_cycles t'\<rparr>"
    by (subst c(2)) (simp add: u_def algebra_simps)
  then show ?thesis
    using c by (intro exI [of _ "Suc n"] exI [of _ t']) (auto simp: on_complete_task_def u_def)
qed

lemma catch_up_later:
  assumes "catch_up t f = Some t'"
  shows "f < task_next_due t'"
proof (rule catch_up.raw_induct [where P = "\<lambda>t f t'. f < task_next_due t'", OF _ assms])
  fix g t f t'
  assume IH: "\<And>t f t'. g t f = Some t' \<Longrightarrow> f < task_next_due t'"
    and eq: "(if task_next_due t \<le> f
       then g (t\<lparr>task_next_due := task_next_due t + ms (task_interval t),
                 task_skipped_cycles :=
                   (if task_skipped_cycles t < u64_max then task_skipped_cycles t + 1
                    else task_skipped_cycles t)\<rparr>) f
       else Some t) = Some t'"
  show "f < task_next_due t'"
    using eq IH by (cases "task_next_due t \<le> f") (auto simp del: word_n1_ge)
qed

section \<open>Lemmas: the machine's arithmetic\<close>

lemma signed64_id: "- (2 ^ 63) \<le> n \<Longrightarrow> n \<le> time_point_max \<Longrightarrow> signed64 n = n"
  by (simp add: signed64_def time_point_max_def)

text \<open>A task whose due time is a time point, and a time after which its interval still fits.\<close>

definition room :: "ScheduleTask \<Rightarrow> int \<Rightarrow> bool" where
  "room t f \<longleftrightarrow> 0 < task_interval t \<and> - (2 ^ 63) \<le> task_next_due t \<and> 0 \<le> f \<and> f + ms (task_interval t) \<le> time_point_max"

lemma add_interval_exact:
  "room t f \<Longrightarrow> task_next_due t \<le> f \<Longrightarrow> add_interval t = task_next_due t + ms (task_interval t)"
  using ms_pos [of "task_interval t"] by (simp add: room_def add_interval_def signed64_id)

lemma catch_up64_exact:
  "room t f \<Longrightarrow> catch_up64 t f = catch_up t f"
proof (induction "nat (f + 1 - task_next_due t)" arbitrary: t rule: less_induct)
  case less
  note add = add_interval_exact [OF less.prems]
  have iv: "0 < ms (task_interval t)" using less.prems ms_pos by (simp add: room_def)
  define u where "u = t\<lparr>task_next_due := task_next_due t + ms (task_interval t),
    task_skipped_cycles := bump_skipped (task_skipped_cycles t)\<rparr>"
  have u: "room u f" using less.prems iv by (simp add: room_def u_def)
  show ?case
  proof (cases "task_next_due t \<le> f")
    case True
    then have "catch_up64 u f = catch_up u f" using less.hyps [OF _ u] iv by (simp add: u_def)
    then show ?thesis
      using True by (subst catch_up64.simps, subst catch_up.simps) (simp add: add u_def bump_skipped_def)
  qed (simp add: catch_up64.simps catch_up.simps)
qed

lemma on_complete64_exact:
  assumes "room t f" and "task_next_due t \<le> now" and "now + ms (task_interval t) \<le> time_point_max" and "0 \<le> now"
  shows "on_complete64_task t f = on_complete_task t f"
proof -
  have "room t now" using assms by (simp add: room_def)
  from add_interval_exact [OF this assms(2)] have add: "add_interval t = task_next_due t + ms (task_interval t)" .
  have "room (t\<lparr>task_next_due := task_next_due t + ms (task_interval t)\<rparr>) f"
    using assms(1) ms_pos [of "task_interval t"] by (simp add: room_def)
  then show ?thesis by (simp add: on_complete64_task_def on_complete_task_def add catch_up64_exact)
qed

lemma catch_up64_later:
  assumes "catch_up64 t f = Some t'"
  shows "f < task_next_due t'"
proof (rule catch_up64.raw_induct [where P = "\<lambda>t f t'. f < task_next_due t'", OF _ assms])
  fix g t f t'
  assume IH: "\<And>t f t'. g t f = Some t' \<Longrightarrow> f < task_next_due t'"
    and eq: "(if task_next_due t \<le> f
       then g (t\<lparr>task_next_due := add_interval t,
                 task_skipped_cycles :=
                   (if task_skipped_cycles t < u64_max then task_skipped_cycles t + 1
                    else task_skipped_cycles t)\<rparr>) f
       else Some t) = Some t'"
  show "f < task_next_due t'"
    using eq IH by (cases "task_next_due t \<le> f") (auto simp del: word_n1_ge)
qed

section \<open>Lemmas: selection\<close>

lemma earlier_order:
  "\<not> earlier a a"
  "earlier a b \<Longrightarrow> earlier b c \<Longrightarrow> earlier a c"
  "\<not> earlier a b \<Longrightarrow> earlier c b \<Longrightarrow> earlier c a"
  "\<not> earlier b a \<Longrightarrow> \<not> earlier c b \<Longrightarrow> \<not> earlier c a"
  "\<not> earlier a b \<Longrightarrow> task_next_due b \<le> task_next_due a"
  by (auto simp: earlier_def)

definition best_due :: "int \<Rightarrow> (nat \<times> ScheduleTask) list \<Rightarrow> (nat \<times> ScheduleTask) option \<Rightarrow> bool" where
  "best_due now its sel =
     (case sel of
        None \<Rightarrow> \<forall>j t. (j, t) \<in> set its \<longrightarrow> now < task_next_due t
      | Some (i, s) \<Rightarrow> (i, s) \<in> set its \<and> task_next_due s \<le> now \<and>
          (\<forall>j t. (j, t) \<in> set its \<longrightarrow> task_next_due t \<le> now \<longrightarrow> \<not> earlier t s))"

lemma best_due_step:
  assumes "best_due now seen sel"
  shows "best_due now (seen @ [(i, t)])
      (if now < task_next_due t then sel
       else case sel of None \<Rightarrow> Some (i, t) | Some (j, s) \<Rightarrow> if earlier t s then Some (i, t) else sel)"
proof (cases sel)
  case None
  then show ?thesis using assms by (fastforce simp: best_due_def earlier_order(1))
next
  case (Some r)
  obtain j s where r: "r = (j, s)" by fastforce
  show ?thesis
  proof (cases "\<not> now < task_next_due t \<and> earlier t s")
    case True
    have "\<not> earlier u t" if "(l, u) \<in> set seen" "task_next_due u \<le> now" for l u
      using assms that True earlier_order(2) [of u t s] by (auto simp: best_due_def Some r)
    then show ?thesis using True by (auto simp: best_due_def Some r earlier_order(1))
  next
    case False
    then show ?thesis using assms by (auto simp: best_due_def Some r)
  qed
qed

lemma select_loop_best:
  "best_due now seen sel \<Longrightarrow> best_due now (seen @ its) (select_loop now its sel)"
proof (induction its arbitrary: seen sel)
  case (Cons x its)
  obtain i t where x: "x = (i, t)" by fastforce
  show ?case
    using Cons.IH [OF best_due_step [OF Cons.prems, of i t]]
    by (auto simp: x split: option.splits if_splits)
qed simp

lemma select_due_best: "best_due now (enumerate 0 ts) (select_loop now (enumerate 0 ts) None)"
  using select_loop_best [of now "[]" None "enumerate 0 ts"] by (simp add: best_due_def)

lemma enumerate_mem: "(i, t) \<in> set (enumerate 0 ts) \<longleftrightarrow> i < length ts \<and> t = ts ! i"
  by (auto simp: in_set_enumerate_eq)

lemma select_due_None: "policy_select_due ts now = None \<longleftrightarrow> (\<forall>t \<in> set ts. now < task_next_due t)"
proof
  assume "policy_select_due ts now = None"
  then have "select_loop now (enumerate 0 ts) None = None" by (simp add: policy_select_due_def)
  then show "\<forall>t \<in> set ts. now < task_next_due t"
    using select_due_best [of now ts] by (simp add: best_due_def enumerate_mem all_set_conv_all_nth)
next
  assume all: "\<forall>t \<in> set ts. now < task_next_due t"
  show "policy_select_due ts now = None"
  proof (cases "select_loop now (enumerate 0 ts) None")
    case None
    then show ?thesis by (simp add: policy_select_due_def)
  next
    case (Some r)
    then show ?thesis using select_due_best [of now ts] all
      by (fastforce simp: best_due_def enumerate_mem dest: nth_mem)
  qed
qed

lemma select_due_Some:
  assumes "policy_select_due ts now = Some i"
  shows "i < length ts \<and> task_next_due (ts ! i) \<le> now \<and>
         (\<forall>t \<in> set ts. task_next_due t \<le> now \<longrightarrow> \<not> earlier t (ts ! i))"
proof -
  obtain t where "select_loop now (enumerate 0 ts) None = Some (i, t)"
    using assms by (auto simp: policy_select_due_def)
  then have t: "(i, t) \<in> set (enumerate 0 ts)" "task_next_due t \<le> now"
    "\<And>j u. (j, u) \<in> set (enumerate 0 ts) \<Longrightarrow> task_next_due u \<le> now \<Longrightarrow> \<not> earlier u t"
    using select_due_best [of now ts] by (auto simp: best_due_def)
  show ?thesis using t(1,2) t(3) unfolding enumerate_mem by (auto simp: in_set_conv_nth)
qed

lemma min_element_best:
  "min_element b ts \<in> set (b # ts) \<and> (\<forall>t \<in> set (b # ts). \<not> earlier t (min_element b ts))"
proof (induction ts arbitrary: b)
  case Nil
  then show ?case by (simp add: earlier_order(1))
next
  case (Cons t ts)
  show ?case
  proof (cases "earlier t b")
    case True
    then show ?thesis
      using Cons [of t] earlier_order(2) [OF True, of "min_element t ts"] by auto
  next
    case False
    then show ?thesis
      using Cons [of b] earlier_order(4) [OF _ False, of "min_element b ts"] by auto
  qed
qed

lemma next_wakeup_min:
  assumes "ts \<noteq> []"
  shows "(\<exists>t \<in> set ts. policy_next_wakeup ts = task_next_due t) \<and>
         (\<forall>t \<in> set ts. policy_next_wakeup ts \<le> task_next_due t)"
proof -
  obtain b rest where ts: "ts = b # rest" using assms by (cases ts) auto
  then show ?thesis
    using min_element_best [of b rest] earlier_order(5)
    by (auto simp: policy_next_wakeup_def)
qed

section \<open>The policy fulfils its contract\<close>

definition valid_tasks :: "ScheduleTask list \<Rightarrow> bool" where
  "valid_tasks ts \<longleftrightarrow> (\<forall>t \<in> set ts. 0 < task_interval t)"

lemma policy_on_complete_valid:
  assumes "valid_tasks ts" and "i < length ts" and "policy_on_complete ts i f = Some ts'"
  shows "valid_tasks ts'"
proof -
  have iv: "0 < task_interval (ts ! i)" using assms(1,2) by (simp add: valid_tasks_def)
  obtain n t' where t': "on_complete_task (ts ! i) f = Some t'"
    "t' = (ts ! i)\<lparr>task_next_due := task_next_due (ts ! i) + int n * ms (task_interval (ts ! i)),
       task_skipped_cycles := task_skipped_cycles t'\<rparr>"
    using on_complete_returns [OF iv, of f] by blast
  have "task_interval t' = task_interval (ts ! i)" by (subst t'(2)) simp
  then show ?thesis
    using assms t'(1) iv by (auto simp: valid_tasks_def policy_on_complete_def dest!: set_update_subset_insert [THEN subsetD])
qed

interpretation fixed: schedule_policy policy_tasks policy_select_due policy_on_complete policy_next_wakeup valid_tasks
proof unfold_locales
  fix p now i f p' j
  show "policy_select_due p now = None \<longleftrightarrow> (\<forall>t \<in> set (policy_tasks p). now < task_next_due t)"
    by (simp add: policy_tasks_def select_due_None)
  show "policy_select_due p now = Some i \<Longrightarrow>
      i < length (policy_tasks p) \<and> task_next_due (policy_tasks p ! i) \<le> now \<and>
      (\<forall>t \<in> set (policy_tasks p). task_next_due t \<le> now \<longrightarrow> \<not> earlier t (policy_tasks p ! i))"
    unfolding policy_tasks_def by (rule select_due_Some)
  show "policy_select_due p now = None \<Longrightarrow> policy_tasks p \<noteq> [] \<Longrightarrow> now < policy_next_wakeup p"
    using next_wakeup_min [of p] by (auto simp: policy_tasks_def select_due_None)
  show "policy_tasks p \<noteq> [] \<Longrightarrow> \<exists>t \<in> set (policy_tasks p). policy_next_wakeup p = task_next_due t"
    using next_wakeup_min [of p] by (auto simp: policy_tasks_def)
  show "valid_tasks p \<Longrightarrow> i < length (policy_tasks p) \<Longrightarrow> \<exists>p'. policy_on_complete p i f = Some p'"
    using on_complete_returns [of "p ! i" f]
    by (auto simp: policy_tasks_def valid_tasks_def policy_on_complete_def)
  show "valid_tasks p \<Longrightarrow> i < length (policy_tasks p) \<Longrightarrow> policy_on_complete p i f = Some p' \<Longrightarrow>
      valid_tasks p'"
    unfolding policy_tasks_def by (rule policy_on_complete_valid)
  show "policy_on_complete p i f = Some p' \<Longrightarrow> length (policy_tasks p') = length (policy_tasks p)"
    by (auto simp: policy_tasks_def policy_on_complete_def)
  show "policy_on_complete p i f = Some p' \<Longrightarrow> j \<noteq> i \<Longrightarrow> policy_tasks p' ! j = policy_tasks p ! j"
    by (auto simp: policy_tasks_def policy_on_complete_def)
  show "policy_on_complete p i f = Some p' \<Longrightarrow> i < length (policy_tasks p) \<Longrightarrow>
      f < task_next_due (policy_tasks p' ! i)"
    using catch_up_later
    by (auto simp: policy_tasks_def policy_on_complete_def on_complete_task_def)
qed

text \<open>The machine's arithmetic keeps the engine fair as well.\<close>

interpretation machine: schedule_order policy_tasks policy_select_due policy_on_complete64
proof unfold_locales
  fix p now i f p' j
  show "policy_select_due p now = Some i \<Longrightarrow>
      i < length (policy_tasks p) \<and> task_next_due (policy_tasks p ! i) \<le> now \<and>
      (\<forall>t \<in> set (policy_tasks p). task_next_due t \<le> now \<longrightarrow> \<not> earlier t (policy_tasks p ! i))"
    unfolding policy_tasks_def by (rule select_due_Some)
  show "policy_on_complete64 p i f = Some p' \<Longrightarrow> length (policy_tasks p') = length (policy_tasks p)"
    by (auto simp: policy_tasks_def policy_on_complete64_def)
  show "policy_on_complete64 p i f = Some p' \<Longrightarrow> j \<noteq> i \<Longrightarrow> policy_tasks p' ! j = policy_tasks p ! j"
    by (auto simp: policy_tasks_def policy_on_complete64_def)
  show "policy_on_complete64 p i f = Some p' \<Longrightarrow> i < length (policy_tasks p) \<Longrightarrow>
      f < task_next_due (policy_tasks p' ! i)"
    using catch_up64_later by (auto simp: policy_tasks_def policy_on_complete64_def on_complete64_task_def)
qed

text \<open>Clock readings after which every interval still fits into a time point.\<close>

definition clock_fits :: "ScheduleTask list \<Rightarrow> round list \<Rightarrow> bool" where
  "clock_fits ts rs \<longleftrightarrow> (\<forall>t \<in> set ts. \<forall>r \<in> set rs. room t (rnd_now r) \<and> room t (rnd_finished_at r))"

lemma engine_round64_exact:
  assumes "clock_fits (se_policy e) (r # rs)"
  shows "engine_round policy_tasks policy_select_due policy_on_complete64 r e =
    engine_round policy_tasks policy_select_due policy_on_complete r e"
proof -
  have "policy_on_complete64 (se_policy e) i (rnd_finished_at r) = policy_on_complete (se_policy e) i (rnd_finished_at r)"
    if "policy_select_due (se_policy e) (rnd_now r) = Some i" for i
  proof -
    have s: "i < length (se_policy e)" "task_next_due (se_policy e ! i) \<le> rnd_now r" using select_due_Some [OF that] by simp_all
    then have "room (se_policy e ! i) (rnd_now r)" "room (se_policy e ! i) (rnd_finished_at r)"
      using assms by (simp_all add: clock_fits_def)
    then have "on_complete64_task (se_policy e ! i) (rnd_finished_at r) = on_complete_task (se_policy e ! i) (rnd_finished_at r)"
      using s(2) by (intro on_complete64_exact [of _ _ "rnd_now r"]) (simp_all add: room_def)
    then show ?thesis by (simp add: policy_on_complete64_def policy_on_complete_def)
  qed
  then show ?thesis by (auto simp: engine_round_def Let_def split: option.splits)
qed

lemma round_clock_fits:
  assumes "engine_round policy_tasks policy_select_due policy_on_complete r e = Some (e1, i)" and "clock_fits (se_policy e) (r # rs)"
  shows "clock_fits (se_policy e1) rs"
proof (cases i)
  case None
  then show ?thesis using assms by (auto simp: engine_round_def clock_fits_def Let_def split: if_splits option.splits)
next
  case (Some k)
  note poll = fixed.round_poll [OF assms(1) [unfolded Some]]
  have k: "k < length (se_policy e)" using select_due_Some [OF poll(1)] by simp
  then have fits: "room (se_policy e ! k) (rnd_finished_at r)" using assms(2) by (simp add: clock_fits_def)
  then have iv: "0 < task_interval (se_policy e ! k)" by (simp add: room_def)
  obtain n t' where t': "on_complete_task (se_policy e ! k) (rnd_finished_at r) = Some t'"
    "t' = (se_policy e ! k)\<lparr>task_next_due := task_next_due (se_policy e ! k) + int n * ms (task_interval (se_policy e ! k)),
       task_skipped_cycles := task_skipped_cycles t'\<rparr>" "rnd_finished_at r < task_next_due t'"
    using on_complete_returns [OF iv, of "rnd_finished_at r"] by blast
  have same: "task_interval t' = task_interval (se_policy e ! k)" by (subst t'(2)) simp
  have p: "se_policy e1 = (se_policy e)[k := t']" using poll(2) t'(1) by (simp add: policy_on_complete_def)
  have "room t' f" if "room (se_policy e ! k) f" for f
    using that same t'(3) fits by (simp add: room_def)
  then show ?thesis
    unfolding clock_fits_def p using assms(2) k
    by (auto simp: clock_fits_def dest!: set_update_subset_insert [THEN subsetD])
qed

lemma engine_run64_exact:
  "clock_fits (se_policy e) rs \<Longrightarrow>
     engine_run policy_tasks policy_select_due policy_on_complete64 rs e = engine_run policy_tasks policy_select_due policy_on_complete rs e"
proof (induction rs arbitrary: e)
  case (Cons r rs)
  have "engine_run policy_tasks policy_select_due policy_on_complete64 rs e1 =
      engine_run policy_tasks policy_select_due policy_on_complete rs e1"
    if "engine_round policy_tasks policy_select_due policy_on_complete r e = Some (e1, i)" for e1 i
    using Cons.IH [OF round_clock_fits [OF that Cons.prems]] .
  then show ?case
    by (auto simp: engine_round64_exact [OF Cons.prems] split: Option.bind_splits intro!: Option.bind_cong)
qed simp

lemma check_task_iff:
  "check_task ids t = Inr ids' \<longleftrightarrow>
     task_group_id t \<noteq> [] \<and> 0 < task_interval t \<and> task_group_id t \<notin> ids \<and>
     ids' = insert (task_group_id t) ids"
  by (auto simp: check_task_def)

lemma rfold_check_task:
  "rfold check_task ids ts = Inr ids' \<longleftrightarrow>
     distinct (map task_group_id ts) \<and> (\<forall>t \<in> set ts. task_group_id t \<noteq> [] \<and> 0 < task_interval t) \<and>
     task_group_id ` set ts \<inter> ids = {} \<and> ids' = ids \<union> task_group_id ` set ts"
proof (induction ts arbitrary: ids)
  case (Cons t ts)
  show ?case unfolding rfold_Cons_iff check_task_iff Cons.IH by auto
qed auto

text \<open>The counters of the engine over a run: one execution per poll, one error per failed poll.\<close>

definition failed_polls :: "round list \<Rightarrow> nat option list \<Rightarrow> nat" where
  "failed_polls rs is = length (filter (\<lambda>(r, i). i \<noteq> None \<and> rnd_failed r) (zip rs is))"

lemma engine_run_stats:
  "engine_run tk sel oc rs e = Some (e', is) \<Longrightarrow>
     length is = length rs \<and>
     ss_executed (se_stats e') = ss_executed (se_stats e) + of_nat (length (filter (\<lambda>i. i \<noteq> None) is)) \<and>
     ss_errors (se_stats e') = ss_errors (se_stats e) + of_nat (failed_polls rs is)"
proof (induction rs arbitrary: e "is")
  case Nil
  then show ?case by (simp add: failed_polls_def)
next
  case (Cons r rs)
  obtain e1 i ns where st: "engine_round tk sel oc r e = Some (e1, i)"
    "engine_run tk sel oc rs e1 = Some (e', ns)" "is = i # ns"
    using Cons.prems by (auto simp: bind_eq_Some_conv)
  have "ss_executed (se_stats e1) = ss_executed (se_stats e) + (if i \<noteq> None then 1 else 0)"
    "ss_errors (se_stats e1) = ss_errors (se_stats e) + (if i \<noteq> None \<and> rnd_failed r then 1 else 0)"
    using st(1) by (auto simp: engine_round_def update_stats_def Let_def split: if_splits option.splits)
  then show ?case using Cons.IH [OF st(2)] st(3) by (auto simp: failed_polls_def)
qed

section \<open>Properties\<close>

definition example_task :: "string \<Rightarrow> int \<Rightarrow> nat \<Rightarrow> ScheduleTask" where
  "example_task g due ord = \<lparr>task_group_id = g, task_interval = 1, task_next_due = due,
     task_stable_order = ord, task_skipped_cycles = 0\<rparr>"

definition example_tasks :: "ScheduleTask list" where
  "example_tasks = [example_task ''a'' 7 0, example_task ''b'' 5 1]"

definition example_engine :: "ScheduleTask list SchedulerEngine" where
  "example_engine = \<lparr>se_policy = example_tasks, se_started = True, se_stopping = False,
     se_running = True, se_joinable = True, se_stats = zero_stats\<rparr>"

definition example_round :: round where
  "example_round = \<lparr>rnd_now = 10, rnd_started_at = 10, rnd_failed = False, rnd_finished_at = 10\<rparr>"

text \<open>C23: a completed task stays on its grid and the catch-up loop ends, in the machine's arithmetic. With a positive interval,
  a task that is due at a clock reading \<open>now\<close>, and an interval that added to \<open>now\<close> or to the end of the poll is still a
  time point, no sum overflows: \<open>on_complete\<close> with 64-bit additions returns what it returns on unbounded integers; the new due
  time is the old one plus a whole number \<open>n \<ge> 1\<close> of intervals, it is a time point, it is
  the first such time after the poll finished, and exactly the \<open>n - 1\<close> missed cycles are added to the
  skip counter, which saturates at the largest 64-bit value. Nothing else of the task changes.\<close>

theorem on_complete_next_grid_point:
  assumes "0 < task_interval t" and "- (2 ^ 63) \<le> task_next_due t" and "task_next_due t \<le> now"
    and "0 \<le> now" and "now + ms (task_interval t) \<le> time_point_max"
    and "0 \<le> finished_at" and "finished_at + ms (task_interval t) \<le> time_point_max"
  shows "\<exists>n t'. on_complete64_task t finished_at = Some t' \<and> on_complete_task t finished_at = Some t' \<and> 1 \<le> n \<and>
           t' = t\<lparr>task_next_due := task_next_due t + int n * ms (task_interval t),
                  task_skipped_cycles := task_skipped_cycles t'\<rparr> \<and>
           unat (task_skipped_cycles t') = min (2 ^ 64 - 1) (unat (task_skipped_cycles t) + (n - 1)) \<and>
           finished_at < task_next_due t' \<and> task_next_due t' \<le> time_point_max \<and>
           (n = 1 \<or> task_next_due t' - ms (task_interval t) \<le> finished_at)"
proof -
  obtain n t' where c: "on_complete_task t finished_at = Some t'" "1 \<le> n"
    "t' = t\<lparr>task_next_due := task_next_due t + int n * ms (task_interval t), task_skipped_cycles := task_skipped_cycles t'\<rparr>"
    "unat (task_skipped_cycles t') = min (2 ^ 64 - 1) (unat (task_skipped_cycles t) + (n - 1))"
    "finished_at < task_next_due t'" "n = 1 \<or> task_next_due t' - ms (task_interval t) \<le> finished_at"
    using on_complete_returns [OF assms(1), of finished_at] by blast
  have "room t finished_at" using assms by (simp add: room_def)
  then have m: "on_complete64_task t finished_at = Some t'"
    using on_complete64_exact [OF _ assms(3,5,4)] c(1) by simp
  have "n = 1 \<Longrightarrow> task_next_due t' = task_next_due t + ms (task_interval t)" by (subst c(3)) simp
  then have "task_next_due t' \<le> time_point_max" using c(6) assms(3,5,7) by auto
  then show ?thesis using c m by (intro exI [of _ n] exI [of _ t']) simp
qed

theorem on_complete_next_grid_point_witness:
  "\<exists>t'. on_complete64_task (example_task ''a'' 7 0) 2500000 = Some t' \<and> 2500000 < task_next_due t'"
proof -
  have "0 < task_interval (example_task ''a'' 7 0)" "- (2 ^ 63) \<le> task_next_due (example_task ''a'' 7 0)"
    "task_next_due (example_task ''a'' 7 0) \<le> 10" "0 \<le> (10 :: int)" "10 + ms (task_interval (example_task ''a'' 7 0)) \<le> time_point_max"
    "0 \<le> (2500000 :: int)" "2500000 + ms (task_interval (example_task ''a'' 7 0)) \<le> time_point_max"
    by (simp_all add: example_task_def ms_def time_point_max_def)
  from on_complete_next_grid_point [OF this] show ?thesis by blast
qed

text \<open>C24: a due task is not starved, in the machine's arithmetic. As long as every interval added to a clock reading is still
  a time point, the turns of the engine return, the 64-bit sums are exact, and when every turn polls a task and the
  clock does not run backwards, a task that is due at time \<open>t\<close> is polled within as many turns as there are tasks,
  whatever the polls do and however long they take.\<close>

theorem engine_bounded_waiting:
  assumes "clock_fits (se_policy e) rs" and "rs \<noteq> []"
    and "k < length (se_policy e)" and "task_next_due (se_policy e ! k) \<le> t"
    and "\<forall>r \<in> set rs. t \<le> rnd_now r \<and> t \<le> rnd_finished_at r"
  shows "\<exists>e' polled. engine_run policy_tasks policy_select_due policy_on_complete64 rs e = Some (e', polled) \<and>
    engine_run policy_tasks policy_select_due policy_on_complete rs e = Some (e', polled) \<and>
    (None \<notin> set polled \<longrightarrow> length (se_policy e) \<le> length polled \<longrightarrow> Some k \<in> set polled)"
proof -
  have "valid_tasks (se_policy e)" using assms(1,2) by (cases rs) (auto simp: valid_tasks_def clock_fits_def room_def)
  then obtain e' polled where run: "engine_run policy_tasks policy_select_due policy_on_complete rs e = Some (e', polled)"
    using fixed.run_returns by blast
  then have run64: "engine_run policy_tasks policy_select_due policy_on_complete64 rs e = Some (e', polled)"
    by (simp add: engine_run64_exact [OF assms(1)])
  have "Some k \<in> set polled" if p: "None \<notin> set polled" "length (se_policy e) \<le> length polled"
  proof -
    have "polled = map Some (map the polled)" using p(1) by (induction polled) auto
    then obtain ps where ps: "polled = map Some ps" by blast
    have "k \<in> set ps"
      using machine.bounded_waiting [OF run64 [unfolded ps], of k t] assms(3-5) p(2) by (simp add: ps policy_tasks_def)
    then show ?thesis by (simp add: ps)
  qed
  then show ?thesis using run run64 by blast
qed

lemma on_complete_example:
  "on_complete_task (example_task g d n) 10 =
     (if 10 < d + 1000000 then Some (example_task g (d + 1000000) n)
      else on_complete_task (example_task g d n) 10)"
  by (simp add: on_complete_task_def example_task_def ms_def catch_up.simps)

lemma example_run:
  "\<exists>e'. engine_run policy_tasks policy_select_due policy_on_complete
     [example_round, example_round] example_engine = Some (e', map Some [1, 0])"
  using on_complete_example [of "''b''" 5 1] on_complete_example [of "''a''" 7 0]
  by (simp add: engine_round_def example_engine_def example_tasks_def policy_tasks_def example_round_def
      policy_select_due_def earlier_def policy_on_complete_def Let_def)
    (simp add: example_task_def)

theorem engine_bounded_waiting_witness:
  "\<exists>e'. engine_run policy_tasks policy_select_due policy_on_complete64
     [example_round, example_round] example_engine = Some (e', [Some 1, Some 0])"
proof -
  obtain e' where e': "engine_run policy_tasks policy_select_due policy_on_complete
     [example_round, example_round] example_engine = Some (e', map Some [1, 0])"
    using example_run by blast
  have "clock_fits (se_policy example_engine) [example_round, example_round]"
    by (simp add: clock_fits_def room_def example_engine_def example_tasks_def example_task_def example_round_def ms_def time_point_max_def)
  from engine_bounded_waiting [OF this, of 0 10] e' show ?thesis
    by (auto simp: example_engine_def example_tasks_def example_task_def example_round_def)
qed

text \<open>C36: selection picks the earliest due task. Nothing is selected exactly when no task is due, and a
  selected task is due and no due task comes before it by due time, then by configuration order.\<close>

theorem select_due_earliest:
  "(policy_select_due ts now = None \<longleftrightarrow> (\<forall>t \<in> set ts. now < task_next_due t)) \<and>
   (\<forall>i. policy_select_due ts now = Some i \<longrightarrow>
      i < length ts \<and> task_next_due (ts ! i) \<le> now \<and>
      (\<forall>t \<in> set ts. task_next_due t \<le> now \<longrightarrow> \<not> earlier t (ts ! i)))"
  using select_due_None [of ts now] select_due_Some [of ts now] by blast

theorem select_due_earliest_witness:
  "policy_select_due example_tasks 10 = Some 1 \<and> task_next_due (example_tasks ! 1) \<le> 10"
proof -
  have "policy_select_due example_tasks 10 = Some 1"
    by (simp add: example_tasks_def example_task_def policy_select_due_def earlier_def)
  then show ?thesis using select_due_earliest [of example_tasks 10] by simp
qed

text \<open>The engine sleeps exactly until the next due time. When nothing is due and the engine sleeps
  with a timeout, the wake-up time lies in the future, is the due time of some task, and no task is due
  before it.\<close>

theorem engine_sleep_until_next_due:
  assumes "policy_select_due (se_policy e) now = None"
    and "engine_sleep policy_next_wakeup e = Some wakeup"
  shows "now < wakeup \<and> (\<exists>t \<in> set (se_policy e). task_next_due t = wakeup) \<and>
         (\<forall>t \<in> set (se_policy e). wakeup \<le> task_next_due t)"
proof -
  have w: "wakeup = policy_next_wakeup (se_policy e)" "wakeup \<noteq> time_point_max"
    using assms(2) by (auto simp: engine_sleep_def Let_def split: if_splits)
  then have "se_policy e \<noteq> []" by (auto simp: policy_next_wakeup_def)
  then show ?thesis
    using next_wakeup_min [of "se_policy e"] assms(1) w(1) by (fastforce simp: select_due_None)
qed

theorem engine_sleep_until_next_due_witness: "(4 :: int) < 5 \<and>
    engine_sleep policy_next_wakeup example_engine = Some 5"
proof -
  have s: "policy_select_due (se_policy example_engine) 4 = None"
    "engine_sleep policy_next_wakeup example_engine = Some 5"
    by (simp_all add: example_engine_def example_tasks_def example_task_def policy_select_due_def
        engine_sleep_def policy_next_wakeup_def earlier_def time_point_max_def)
  show ?thesis using engine_sleep_until_next_due [OF s] s(2) by blast
qed

text \<open>The engine always comes back, and its counters count. From a policy with positive intervals
  every run of turns returns; the executed counter grows by one for every poll, and the error counter by
  one for every poll that threw, so a failing poll never stops the scheduler.\<close>

theorem engine_run_total_and_counts:
  assumes "valid_tasks (se_policy e)"
  shows "\<exists>e' polled. engine_run policy_tasks policy_select_due policy_on_complete rs e = Some (e', polled) \<and>
           valid_tasks (se_policy e') \<and> length polled = length rs \<and>
           ss_executed (se_stats e') =
             ss_executed (se_stats e) + of_nat (length (filter (\<lambda>i. i \<noteq> None) polled)) \<and>
           ss_errors (se_stats e') = ss_errors (se_stats e) + of_nat (failed_polls rs polled)"
  using fixed.run_returns [OF assms, of rs] engine_run_stats by blast

theorem engine_run_total_and_counts_witness:
  "\<exists>e' polled. engine_run policy_tasks policy_select_due policy_on_complete [example_round] example_engine =
     Some (e', polled) \<and> length polled = 1"
proof -
  have "valid_tasks (se_policy example_engine)"
    by (simp add: valid_tasks_def example_engine_def example_tasks_def example_task_def)
  from engine_run_total_and_counts [OF this, of "[example_round]"] show ?thesis by auto
qed

text \<open>Stopping the scheduler works. After \<open>request_stop\<close> the next turn of the worker polls nothing
  and ends the worker, its counters unchanged, and \<open>join\<close> then returns.\<close>

theorem engine_stops:
  "\<exists>e' e''. engine_round policy_tasks policy_select_due policy_on_complete r (SchedulerEngine_request_stop e) =
       Some (e', None) \<and> \<not> se_running e' \<and> se_stats e' = se_stats e \<and>
     SchedulerEngine_join e' = Some e'' \<and> \<not> se_joinable e''"
  by (auto simp: engine_round_def SchedulerEngine_request_stop_def SchedulerEngine_join_def)

text \<open>The policy constructor accepts exactly the task lists with distinct non-empty group ids and
  positive intervals, and keeps them as they are.\<close>

theorem policy_new_iff:
  "policy_new ts = Inr ts' \<longleftrightarrow>
     ts' = ts \<and> valid_tasks ts \<and> distinct (map task_group_id ts) \<and> [] \<notin> set (map task_group_id ts)"
  by (auto simp: policy_new_def rbind_Inr_iff rfold_check_task valid_tasks_def image_iff)

end
