(* ===== verification/Control.thy ===== *)
theory Control
  imports Data_Model Queue_Contract Scheduler "HOL-Library.Sublist"
begin

text \<open>
  Device control: the types of \<open>include/gateway/control.hpp\<close>, and \<open>ControlQueue\<close> and
  \<open>DeviceControlDispatcher\<close> of \<open>src/core/control.cpp\<close> / \<open>control_internal.hpp\<close>. A
  completion callback is an opaque value of type \<open>'c\<close>; the calls the dispatcher makes
  to \<open>complete\<close> are logged. What plugins, locks and clocks answer during one execution
  is the record \<open>exec_env\<close>. The concurrent life of the dispatcher (any number of
  submitting threads, one worker, stopping and joining threads) is the labelled
  relation \<open>disp_step\<close>, one step per critical section.
\<close>

section \<open>Requests and results\<close>

record DeviceControlRequest =
  rq_request_id :: string
  rq_device_id :: string
  rq_command :: string
  rq_arguments :: "string \<rightharpoonup> Scalar"
  rq_deadline :: int

datatype DeviceControlStatus =
  Ctl_Succeeded | Ctl_Unsupported | Ctl_InvalidArgument | Ctl_Timeout | Ctl_Cancelled | Ctl_Failed

record DeviceControlResult =
  rs_request_id :: string
  rs_status :: DeviceControlStatus
  rs_outputs :: "string \<rightharpoonup> Scalar"
  rs_message :: string

datatype ControlSubmitResult =
  Sub_Accepted | Sub_QueueFull | Sub_UnknownDevice | Sub_InvalidRequest | Sub_Stopping

record ControlQueueStats =
  cqs_size :: nat
  cqs_capacity :: nat
  cqs_max_size :: nat
  cqs_accepted :: u64
  cqs_rejected_full :: u64
  cqs_cancelled :: u64

record ControlStats =
  cs_submitted :: u64
  cs_accepted :: u64
  cs_queue_full :: u64
  cs_unknown_device :: u64
  cs_invalid_requests :: u64
  cs_stopping :: u64
  cs_executed :: u64
  cs_succeeded :: u64
  cs_unsupported :: u64
  cs_invalid_argument :: u64
  cs_timeouts :: u64
  cs_cancelled :: u64
  cs_failed :: u64
  cs_queue_wait_ns :: u64
  cs_execution_ns :: u64

record 'c ControlOperation =
  op_request :: DeviceControlRequest
  op_completion :: "'c option"
  op_enqueued_at :: int

definition control_saturating_add :: "u64 \<Rightarrow> u64 \<Rightarrow> u64" where
  "control_saturating_add target value =
     (if value > u64_max - target then u64_max else target + value)"

definition control_nonnegative_nanoseconds :: "int \<Rightarrow> u64" where
  "control_nonnegative_nanoseconds duration = (if duration \<le> 0 then 0 else word_of_int duration)"

section \<open>\<open>ControlQueue\<close>\<close>

record 'c ControlQueue =
  cq_capacity :: nat
  cq_queue :: "'c ControlOperation list"
  cq_closed :: bool
  cq_max_size :: nat
  cq_accepted :: u64
  cq_rejected_full :: u64
  cq_cancelled :: u64

definition ControlQueue_new :: "nat \<Rightarrow> 'c ControlQueue result" where
  "ControlQueue_new capacity =
     (if capacity = 0 then Inl (Invalid_argument ''control queue capacity must be positive'')
      else Inr \<lparr>cq_capacity = capacity, cq_queue = [], cq_closed = False, cq_max_size = 0,
                cq_accepted = 0, cq_rejected_full = 0, cq_cancelled = 0\<rparr>)"

definition ControlQueue_try_push ::
  "int \<Rightarrow> 'c ControlQueue \<Rightarrow> DeviceControlRequest \<Rightarrow> 'c option \<Rightarrow> ControlSubmitResult \<times> 'c ControlQueue" where
  "ControlQueue_try_push now q request completion =
     (if cq_closed q then (Sub_Stopping, q)
      else if cq_capacity q \<le> length (cq_queue q)
           then (Sub_QueueFull, q\<lparr>cq_rejected_full := cq_rejected_full q + 1\<rparr>)
      else let queue' = cq_queue q @
                 [\<lparr>op_request = request, op_completion = completion, op_enqueued_at = now\<rparr>]
           in (Sub_Accepted,
               q\<lparr>cq_queue := queue', cq_max_size := max (cq_max_size q) (length queue'),
                 cq_accepted := cq_accepted q + 1\<rparr>))"

definition ControlQueue_wait_pop ::
  "'c ControlQueue \<Rightarrow> ('c ControlOperation option \<times> 'c ControlQueue) option" where
  "ControlQueue_wait_pop q =
     (case cq_queue q of
        [] \<Rightarrow> if cq_closed q then Some (None, q) else None
      | v # rest \<Rightarrow> Some (Some v, q\<lparr>cq_queue := rest\<rparr>))"

definition ControlQueue_close :: "'c ControlQueue \<Rightarrow> 'c ControlQueue" where
  "ControlQueue_close q = q\<lparr>cq_closed := True\<rparr>"

fun cancel_loop :: "'c ControlOperation list \<Rightarrow> 'c ControlQueue \<Rightarrow> 'c ControlOperation list \<Rightarrow>
    'c ControlOperation list \<times> 'c ControlQueue" where
  "cancel_loop [] q cancelled = (cancelled, q\<lparr>cq_queue := []\<rparr>)"
| "cancel_loop (v # rest) q cancelled =
     cancel_loop rest (q\<lparr>cq_queue := rest, cq_cancelled := cq_cancelled q + 1\<rparr>) (cancelled @ [v])"

definition ControlQueue_cancel_pending :: "'c ControlQueue \<Rightarrow> 'c ControlOperation list \<times> 'c ControlQueue" where
  "ControlQueue_cancel_pending q = cancel_loop (cq_queue q) q []"

definition ControlQueue_closed :: "'c ControlQueue \<Rightarrow> bool" where
  "ControlQueue_closed q = cq_closed q"

definition ControlQueue_stats :: "'c ControlQueue \<Rightarrow> ControlQueueStats" where
  "ControlQueue_stats q =
     \<lparr>cqs_size = length (cq_queue q), cqs_capacity = cq_capacity q, cqs_max_size = cq_max_size q,
      cqs_accepted = cq_accepted q, cqs_rejected_full = cq_rejected_full q, cqs_cancelled = cq_cancelled q\<rparr>"

text \<open>The push as the queue contract sees it: the element is the operation that is stored.\<close>

definition cq_push :: "'c ControlQueue \<Rightarrow> 'c ControlOperation \<Rightarrow> bool \<times> 'c ControlQueue" where
  "cq_push q v =
     (let (r, q') = ControlQueue_try_push (op_enqueued_at v) q (op_request v) (op_completion v)
      in (r = Sub_Accepted, q'))"

section \<open>\<open>DeviceControlDispatcher\<close>: sequential parts\<close>

datatype 'c worker = No_worker | Waiting | Executing "'c ControlOperation" | Exited

text \<open>
  The dispatcher with its threads: what the worker is doing, the cancelled operations a
  stopping thread still has to complete, and three logs (operations accepted by the
  queue, operations taken by the worker, calls of \<open>complete\<close> with their results).
  \<open>dd_swept\<close> records what \<open>cancel_pending\<close> took out.
\<close>

record 'c Dispatcher =
  dd_queue :: "'c ControlQueue"
  dd_has_gate :: bool
  dd_started :: bool
  dd_stopping :: bool
  dd_stop_request_complete :: bool
  dd_join_in_progress :: bool
  dd_joined :: bool
  dd_stats :: ControlStats
  dd_worker :: "'c worker"
  dd_cancelling :: "'c ControlOperation list option"
  dd_entered :: nat
  dd_swept :: "'c ControlOperation list"
  dd_accepted :: "'c ControlOperation list"
  dd_taken :: "'c ControlOperation list"
  dd_completed :: "('c ControlOperation \<times> DeviceControlResult) list"

definition zero_control_stats :: ControlStats where
  "zero_control_stats = \<lparr>cs_submitted = 0, cs_accepted = 0, cs_queue_full = 0, cs_unknown_device = 0,
     cs_invalid_requests = 0, cs_stopping = 0, cs_executed = 0, cs_succeeded = 0, cs_unsupported = 0,
     cs_invalid_argument = 0, cs_timeouts = 0, cs_cancelled = 0, cs_failed = 0, cs_queue_wait_ns = 0,
     cs_execution_ns = 0\<rparr>"

definition Dispatcher_new :: "nat \<Rightarrow> bool \<Rightarrow> bool \<Rightarrow> 'c Dispatcher result" where
  "Dispatcher_new queue_capacity has_driver_resolver has_gate_resolver =
     rbind (ControlQueue_new queue_capacity) (\<lambda>q.
       if \<not> has_driver_resolver
       then Inl (Invalid_argument ''control dispatcher requires a driver resolver'')
       else Inr \<lparr>dd_queue = q, dd_has_gate = has_gate_resolver, dd_started = False, dd_stopping = False,
                 dd_stop_request_complete = False, dd_join_in_progress = False, dd_joined = False,
                 dd_stats = zero_control_stats, dd_worker = No_worker, dd_cancelling = None,
                 dd_entered = 0, dd_swept = [], dd_accepted = [], dd_taken = [], dd_completed = []\<rparr>)"

definition Dispatcher_start :: "'c Dispatcher \<Rightarrow> 'c Dispatcher result" where
  "Dispatcher_start d =
     (if dd_started d then Inl (Logic_error ''control dispatcher has already been started'')
      else if dd_stopping d then Inl (Logic_error ''control dispatcher has already been stopped'')
      else Inr (d\<lparr>dd_worker := Waiting, dd_started := True\<rparr>))"

definition valid_request :: "DeviceControlRequest \<Rightarrow> bool" where
  "valid_request request \<longleftrightarrow> rq_device_id request \<noteq> [] \<and> rq_command request \<noteq> []"

definition cancelled_result :: "DeviceControlRequest \<Rightarrow> DeviceControlResult" where
  "cancelled_result request =
     \<lparr>rs_request_id = rq_request_id request, rs_status = Ctl_Cancelled, rs_outputs = Map.empty,
      rs_message = ''control request cancelled during shutdown''\<rparr>"

definition count_submit :: "ControlSubmitResult \<Rightarrow> ControlStats \<Rightarrow> ControlStats" where
  "count_submit result s =
     (case result of
        Sub_Accepted \<Rightarrow> s\<lparr>cs_accepted := cs_accepted s + 1\<rparr>
      | Sub_QueueFull \<Rightarrow> s\<lparr>cs_queue_full := cs_queue_full s + 1\<rparr>
      | Sub_UnknownDevice \<Rightarrow> s\<lparr>cs_unknown_device := cs_unknown_device s + 1\<rparr>
      | Sub_InvalidRequest \<Rightarrow> s\<lparr>cs_invalid_requests := cs_invalid_requests s + 1\<rparr>
      | Sub_Stopping \<Rightarrow> s\<lparr>cs_stopping := cs_stopping s + 1\<rparr>)"

definition count_status :: "DeviceControlStatus \<Rightarrow> ControlStats \<Rightarrow> ControlStats" where
  "count_status status s =
     (case status of
        Ctl_Succeeded \<Rightarrow> s\<lparr>cs_succeeded := cs_succeeded s + 1\<rparr>
      | Ctl_Unsupported \<Rightarrow> s\<lparr>cs_unsupported := cs_unsupported s + 1\<rparr>
      | Ctl_InvalidArgument \<Rightarrow> s\<lparr>cs_invalid_argument := cs_invalid_argument s + 1\<rparr>
      | Ctl_Timeout \<Rightarrow> s\<lparr>cs_timeouts := cs_timeouts s + 1\<rparr>
      | Ctl_Cancelled \<Rightarrow> s\<lparr>cs_cancelled := cs_cancelled s + 1\<rparr>
      | Ctl_Failed \<Rightarrow> s\<lparr>cs_failed := cs_failed s + 1\<rparr>)"

text \<open>
  \<open>complete\<close>: count the status and call the completion, if there is one. Whatever the
  callback throws is swallowed, so the call is all that is observable; it is logged
  together with the operation.
\<close>

definition Dispatcher_complete ::
  "'c ControlOperation \<Rightarrow> DeviceControlResult \<Rightarrow> 'c Dispatcher \<Rightarrow> 'c Dispatcher" where
  "Dispatcher_complete operation result d =
     d\<lparr>dd_stats := count_status (rs_status result) (dd_stats d),
       dd_completed := dd_completed d @ [(operation, result)]\<rparr>"

fun callbacks :: "('c ControlOperation \<times> DeviceControlResult) list \<Rightarrow> ('c \<times> DeviceControlResult) list" where
  "callbacks [] = []"
| "callbacks ((operation, result) # calls) =
     (case op_completion operation of
        None \<Rightarrow> callbacks calls
      | Some c \<Rightarrow> (c, result) # callbacks calls)"

text \<open>
  \<open>submit\<close>: the driver resolver is a parameter and may throw, which counts as an unknown
  device. Counting the submission and deciding on it are two critical sections; a thread
  between them is counted in \<open>dd_entered\<close> by the step relation below.
\<close>

definition resolved :: "'a option result \<Rightarrow> 'a option" where
  "resolved r = (case r of Inl _ \<Rightarrow> None | Inr x \<Rightarrow> x)"

definition Dispatcher_submit_enter :: "'c Dispatcher \<Rightarrow> 'c Dispatcher" where
  "Dispatcher_submit_enter d =
     d\<lparr>dd_stats := (dd_stats d)\<lparr>cs_submitted := cs_submitted (dd_stats d) + 1\<rparr>\<rparr>"

definition Dispatcher_submit_decide ::
  "(string \<Rightarrow> 'drv option result) \<Rightarrow> int \<Rightarrow> DeviceControlRequest \<Rightarrow> 'c option \<Rightarrow> 'c Dispatcher \<Rightarrow>
   ControlSubmitResult \<times> 'c Dispatcher" where
  "Dispatcher_submit_decide driver_resolver now request completion d =
     (let reject = (\<lambda>r. (r, d\<lparr>dd_stats := count_submit r (dd_stats d)\<rparr>))
      in if \<not> valid_request request then reject Sub_InvalidRequest
         else if \<not> dd_started d \<or> dd_stopping d then reject Sub_Stopping
         else if resolved (driver_resolver (rq_device_id request)) = None then reject Sub_UnknownDevice
         else let (r, q) = ControlQueue_try_push now (dd_queue d) request completion
              in (r, d\<lparr>dd_queue := q, dd_stats := count_submit r (dd_stats d),
                       dd_accepted := (if r = Sub_Accepted
                          then dd_accepted d @ [\<lparr>op_request = request, op_completion = completion,
                                                 op_enqueued_at = now\<rparr>]
                          else dd_accepted d)\<rparr>))"

definition Dispatcher_submit ::
  "(string \<Rightarrow> 'drv option result) \<Rightarrow> int \<Rightarrow> DeviceControlRequest \<Rightarrow> 'c option \<Rightarrow> 'c Dispatcher \<Rightarrow>
   ControlSubmitResult \<times> 'c Dispatcher" where
  "Dispatcher_submit driver_resolver now request completion d =
     Dispatcher_submit_decide driver_resolver now request completion (Dispatcher_submit_enter d)"

text \<open>
  One call of \<open>execute\<close>: the clock readings in program order, the answers of the two
  resolvers (whether a driver, a gate was found), of the lock attempt, and of the
  driver's \<open>control\<close>.
\<close>

record exec_env =
  en_started :: int
  en_driver :: "bool result"
  en_now :: int
  en_gate :: "bool result"
  en_lock :: "bool result"
  en_locked_at :: int
  en_control :: "DeviceControlResult result"
  en_controlled_at :: int
  en_finished :: int

definition found :: "bool result \<Rightarrow> bool" where
  "found r = (case r of Inl _ \<Rightarrow> False | Inr b \<Rightarrow> b)"

definition lock_acquired :: "exec_env \<Rightarrow> int \<Rightarrow> bool" where
  "lock_acquired env deadline =
     (case en_lock env of Inl _ \<Rightarrow> False | Inr b \<Rightarrow> if deadline = time_point_max then True else b)"

definition failure :: "DeviceControlRequest \<Rightarrow> DeviceControlStatus \<Rightarrow> string \<Rightarrow> DeviceControlResult" where
  "failure request status message =
     \<lparr>rs_request_id = rq_request_id request, rs_status = status, rs_outputs = Map.empty,
      rs_message = message\<rparr>"

definition driver_result :: "exec_env \<Rightarrow> DeviceControlRequest \<Rightarrow> DeviceControlResult" where
  "driver_result env request =
     (case en_control env of
        Inr result \<Rightarrow>
          (let result' = result\<lparr>rs_request_id := rq_request_id request\<rparr>
           in if en_controlled_at env > rq_deadline request
              then result'\<lparr>rs_status := Ctl_Timeout,
                           rs_message := (if rs_message result' = []
                              then ''control request completed after its deadline''
                              else rs_message result')\<rparr>
              else result')
      | Inl e \<Rightarrow>
          (case what e of
             Some m \<Rightarrow> failure request Ctl_Failed m
           | None \<Rightarrow> failure request Ctl_Failed ''driver control failed with an unknown exception''))"

text \<open>The result of an execution and whether the driver was called.\<close>

definition execute_outcome ::
  "bool \<Rightarrow> exec_env \<Rightarrow> DeviceControlRequest \<Rightarrow> DeviceControlResult \<times> bool" where
  "execute_outcome has_gate env request =
     (if \<not> found (en_driver env)
      then (failure request Ctl_Failed ''device is no longer available'', False)
      else if rq_deadline request \<le> en_now env
      then (failure request Ctl_Timeout ''control request deadline expired before execution'', False)
      else if has_gate \<and> \<not> found (en_gate env)
      then (failure request Ctl_Failed ''device I/O gate is unavailable'', False)
      else if has_gate \<and> \<not> lock_acquired env (rq_deadline request)
      then (failure request Ctl_Timeout ''timed out waiting for device I/O'', False)
      else if rq_deadline request \<noteq> time_point_max \<and> rq_deadline request \<le> en_locked_at env
      then (failure request Ctl_Timeout ''control request deadline expired before driver call'', False)
      else (driver_result env request, True))"

definition Dispatcher_execute :: "exec_env \<Rightarrow> 'c ControlOperation \<Rightarrow> 'c Dispatcher \<Rightarrow> 'c Dispatcher" where
  "Dispatcher_execute env operation d =
     (let s1 = (dd_stats d)\<lparr>cs_queue_wait_ns :=
                 control_saturating_add (cs_queue_wait_ns (dd_stats d))
                   (control_nonnegative_nanoseconds (en_started env - op_enqueued_at operation))\<rparr>;
          (result, called) = execute_outcome (dd_has_gate d) env (op_request operation);
          s2 = (if called then s1\<lparr>cs_executed := cs_executed s1 + 1\<rparr> else s1);
          s3 = s2\<lparr>cs_execution_ns :=
                 control_saturating_add (cs_execution_ns s2)
                   (control_nonnegative_nanoseconds (en_finished env - en_started env))\<rparr>
      in Dispatcher_complete operation result (d\<lparr>dd_stats := s3\<rparr>))"

definition Dispatcher_stats :: "'c Dispatcher \<Rightarrow> ControlStats" where
  "Dispatcher_stats d = dd_stats d"

definition Dispatcher_queue_stats :: "'c Dispatcher \<Rightarrow> ControlQueueStats" where
  "Dispatcher_queue_stats d = ControlQueue_stats (dd_queue d)"

text \<open>
  \<open>request_stop\<close> up to the end of its first critical section; \<open>alloc_ok\<close> is false when
  collecting the cancelled operations fails for lack of memory (then nothing is taken
  out and the worker drains the queue itself).
\<close>

definition Dispatcher_request_stop_begin :: "bool \<Rightarrow> 'c Dispatcher \<Rightarrow> 'c Dispatcher" where
  "Dispatcher_request_stop_begin alloc_ok d =
     (if dd_stopping d then d
      else let q1 = ControlQueue_close (dd_queue d);
               (cancelled, q2) = (if alloc_ok then ControlQueue_cancel_pending q1 else ([], q1))
           in d\<lparr>dd_stopping := True, dd_queue := q2, dd_cancelling := Some cancelled,
                dd_swept := cancelled\<rparr>)"

text \<open>The whole of \<open>request_stop\<close>, for one thread that is not interrupted.\<close>

definition Dispatcher_request_stop :: "bool \<Rightarrow> 'c Dispatcher \<Rightarrow> 'c Dispatcher" where
  "Dispatcher_request_stop alloc_ok d =
     (if dd_stopping d then d
      else let d1 = Dispatcher_request_stop_begin alloc_ok d;
               d2 = fold (\<lambda>operation. Dispatcher_complete operation (cancelled_result (op_request operation)))
                      (dd_swept d1) d1
           in d2\<lparr>dd_cancelling := None, dd_stop_request_complete := True\<rparr>)"

section \<open>\<open>DeviceControlDispatcher\<close>: the threads\<close>

datatype label = L_start | L_submit | L_worker | L_stop | L_join | L_join_failed

inductive disp_step ::
  "(string \<Rightarrow> 'drv option result) \<Rightarrow> label \<Rightarrow> 'c Dispatcher \<Rightarrow> 'c Dispatcher \<Rightarrow> bool"
  for driver_resolver :: "string \<Rightarrow> 'drv option result" where
  start: "Dispatcher_start d = Inr d' \<Longrightarrow> disp_step driver_resolver L_start d d'"
| submit_enter: "disp_step driver_resolver L_submit d
      ((Dispatcher_submit_enter d)\<lparr>dd_entered := dd_entered d + 1\<rparr>)"
| submit_decide: "0 < dd_entered d \<Longrightarrow>
    Dispatcher_submit_decide driver_resolver now request completion d = (r, d') \<Longrightarrow>
    disp_step driver_resolver L_submit d (d'\<lparr>dd_entered := dd_entered d - 1\<rparr>)"
| worker_pop: "dd_worker d = Waiting \<Longrightarrow> ControlQueue_wait_pop (dd_queue d) = Some (Some operation, q) \<Longrightarrow>
    disp_step driver_resolver L_worker d
      (d\<lparr>dd_queue := q, dd_worker := Executing operation, dd_taken := dd_taken d @ [operation]\<rparr>)"
| worker_exit: "dd_worker d = Waiting \<Longrightarrow> ControlQueue_wait_pop (dd_queue d) = Some (None, q) \<Longrightarrow>
    disp_step driver_resolver L_worker d (d\<lparr>dd_queue := q, dd_worker := Exited\<rparr>)"
| worker_execute: "dd_worker d = Executing operation \<Longrightarrow>
    disp_step driver_resolver L_worker d
      ((Dispatcher_execute env operation d)\<lparr>dd_worker := Waiting\<rparr>)"
| stop_begin: "\<not> dd_stopping d \<Longrightarrow>
    disp_step driver_resolver L_stop d (Dispatcher_request_stop_begin alloc_ok d)"
| stop_complete_one: "dd_cancelling d = Some (operation # rest) \<Longrightarrow>
    disp_step driver_resolver L_stop d
      ((Dispatcher_complete operation (cancelled_result (op_request operation)) d)
         \<lparr>dd_cancelling := Some rest\<rparr>)"
| stop_end: "dd_cancelling d = Some [] \<Longrightarrow>
    disp_step driver_resolver L_stop d
      (d\<lparr>dd_cancelling := None, dd_stop_request_complete := True\<rparr>)"
| join_begin: "dd_started d \<Longrightarrow> dd_stop_request_complete d \<Longrightarrow> \<not> dd_join_in_progress d \<Longrightarrow> \<not> dd_joined d \<Longrightarrow>
    disp_step driver_resolver L_join d (d\<lparr>dd_join_in_progress := True\<rparr>)"
| join_end: "dd_join_in_progress d \<Longrightarrow> dd_worker d = Exited \<Longrightarrow>
    disp_step driver_resolver L_join d (d\<lparr>dd_join_in_progress := False, dd_joined := True\<rparr>)"
| join_failed: "dd_join_in_progress d \<Longrightarrow>
    disp_step driver_resolver L_join_failed d (d\<lparr>dd_join_in_progress := False\<rparr>)"

definition disp_init :: "'c Dispatcher \<Rightarrow> bool" where
  "disp_init d \<longleftrightarrow> (\<exists>capacity has_gate. Dispatcher_new capacity True has_gate = Inr d)"

abbreviation disp_steps ::
  "(string \<Rightarrow> 'drv option result) \<Rightarrow> 'c Dispatcher \<Rightarrow> 'c Dispatcher \<Rightarrow> bool" where
  "disp_steps driver_resolver d d' \<equiv> \<exists>l. disp_step driver_resolver l d d'"

section \<open>The control queue under the queue contract\<close>

lemmas [op_defs] = ControlQueue_try_push_def ControlQueue_wait_pop_def ControlQueue_close_def
  ControlQueue_cancel_pending_def cq_push_def

lemma cancel_loop_spec:
  "cancel_loop ops q acc =
     (acc @ ops, q\<lparr>cq_queue := [], cq_cancelled := cq_cancelled q + of_nat (length ops)\<rparr>)"
  by (induction ops q acc rule: cancel_loop.induct) (auto simp: algebra_simps)

interpretation cq: cancellable_fifo cq_queue cq_capacity cq_closed cq_accepted cq_push
  ControlQueue_wait_pop ControlQueue_close ControlQueue_cancel_pending
  by unfold_locales (auto simp: op_defs Let_def cancel_loop_spec split: list.splits if_splits)

lemma try_push_cases:
  obtains (stopping) "ControlQueue_try_push now q rq c = (Sub_Stopping, q)" "cq_closed q"
  | (full) "ControlQueue_try_push now q rq c = (Sub_QueueFull, q\<lparr>cq_rejected_full := cq_rejected_full q + 1\<rparr>)"
      "\<not> cq_closed q" "cq_capacity q \<le> length (cq_queue q)"
  | (accepted) q' where "ControlQueue_try_push now q rq c = (Sub_Accepted, q')"
      "cq_queue q' = cq_queue q @ [\<lparr>op_request = rq, op_completion = c, op_enqueued_at = now\<rparr>]"
      "cq_closed q' = cq_closed q" "\<not> cq_closed q" "cq_capacity q' = cq_capacity q"
      "length (cq_queue q) < cq_capacity q" "cq_accepted q' = cq_accepted q + 1"
      "cq_cancelled q' = cq_cancelled q"
  by (cases "cq_closed q"; cases "cq_capacity q \<le> length (cq_queue q)")
     (auto simp: ControlQueue_try_push_def Let_def)

section \<open>Invariant of the dispatcher\<close>

text \<open>Where the accepted operations are, in order: taken by the worker, swept by the
  stopping thread, still waiting.\<close>

definition order_inv :: "'c Dispatcher \<Rightarrow> bool" where
  "order_inv d \<longleftrightarrow>
     dd_accepted d = dd_taken d @ dd_swept d @ cq_queue (dd_queue d) \<and>
     (dd_swept d \<noteq> [] \<longrightarrow> cq_queue (dd_queue d) = []) \<and>
     length (cq_queue (dd_queue d)) \<le> cq_capacity (dd_queue d)"

text \<open>The flags of the lifecycle.\<close>

definition life_inv :: "'c Dispatcher \<Rightarrow> bool" where
  "life_inv d \<longleftrightarrow>
     cq_closed (dd_queue d) = dd_stopping d \<and>
     (dd_stopping d \<longleftrightarrow> dd_cancelling d \<noteq> None \<or> dd_stop_request_complete d) \<and>
     (dd_stop_request_complete d \<longrightarrow> dd_cancelling d = None) \<and>
     (\<not> dd_stopping d \<longrightarrow> dd_swept d = []) \<and>
     (dd_started d \<longleftrightarrow> dd_worker d \<noteq> No_worker) \<and>
     (\<not> dd_started d \<longrightarrow> cq_queue (dd_queue d) = []) \<and>
     (dd_worker d = Exited \<longrightarrow> dd_stopping d \<and> cq_queue (dd_queue d) = []) \<and>
     (dd_join_in_progress d \<longrightarrow> dd_started d \<and> dd_stop_request_complete d \<and> \<not> dd_joined d) \<and>
     (dd_joined d \<longrightarrow> dd_worker d = Exited \<and> dd_stop_request_complete d)"

definition in_hand :: "'c Dispatcher \<Rightarrow> 'c ControlOperation list" where
  "in_hand d = (case dd_worker d of Executing operation \<Rightarrow> [operation] | _ \<Rightarrow> []) @
     (case dd_cancelling d of Some ops \<Rightarrow> ops | None \<Rightarrow> [])"

text \<open>Every operation that left the queue is in hand or was completed, once, with its own request id.\<close>

definition completion_inv :: "'c Dispatcher \<Rightarrow> bool" where
  "completion_inv d \<longleftrightarrow>
     mset (map fst (dd_completed d)) + mset (in_hand d) = mset (dd_taken d) + mset (dd_swept d) \<and>
     (\<forall>(operation, result) \<in> set (dd_completed d).
        rs_request_id result = rq_request_id (op_request operation))"

definition submit_total :: "ControlStats \<Rightarrow> u64" where
  "submit_total s = cs_accepted s + cs_queue_full s + cs_unknown_device s + cs_invalid_requests s + cs_stopping s"

definition completion_total :: "ControlStats \<Rightarrow> u64" where
  "completion_total s = cs_succeeded s + cs_unsupported s + cs_invalid_argument s + cs_timeouts s +
     cs_cancelled s + cs_failed s"

definition stats_inv :: "'c Dispatcher \<Rightarrow> bool" where
  "stats_inv d \<longleftrightarrow>
     cs_submitted (dd_stats d) = submit_total (dd_stats d) + of_nat (dd_entered d) \<and>
     cs_accepted (dd_stats d) = of_nat (length (dd_accepted d)) \<and>
     cq_accepted (dd_queue d) = cs_accepted (dd_stats d) \<and>
     completion_total (dd_stats d) = of_nat (length (dd_completed d)) \<and>
     cq_cancelled (dd_queue d) = of_nat (length (dd_swept d))"

definition disp_inv :: "'c Dispatcher \<Rightarrow> bool" where
  "disp_inv d \<longleftrightarrow> order_inv d \<and> life_inv d \<and> completion_inv d \<and> stats_inv d"

lemmas disp_inv_defs = order_inv_def life_inv_def completion_inv_def stats_inv_def in_hand_def

lemma count_status_frame [simp]:
  "completion_total (count_status st s) = completion_total s + 1"
  "submit_total (count_status st s) = submit_total s"
  "cs_submitted (count_status st s) = cs_submitted s"
  "cs_accepted (count_status st s) = cs_accepted s"
  by (simp_all add: count_status_def completion_total_def submit_total_def split: DeviceControlStatus.splits)

lemma count_submit_frame [simp]:
  "submit_total (count_submit r s) = submit_total s + 1"
  "completion_total (count_submit r s) = completion_total s"
  "cs_submitted (count_submit r s) = cs_submitted s"
  "cs_accepted (count_submit r s) = cs_accepted s + (if r = Sub_Accepted then 1 else 0)"
  by (simp_all add: count_submit_def completion_total_def submit_total_def split: ControlSubmitResult.splits)

lemma submit_total_upd [simp]:
  "submit_total (s\<lparr>cs_submitted := x\<rparr>) = submit_total s"
  "submit_total (s\<lparr>cs_executed := x\<rparr>) = submit_total s"
  "submit_total (s\<lparr>cs_queue_wait_ns := x\<rparr>) = submit_total s"
  "submit_total (s\<lparr>cs_execution_ns := x\<rparr>) = submit_total s"
  "completion_total (s\<lparr>cs_submitted := x\<rparr>) = completion_total s"
  "completion_total (s\<lparr>cs_executed := x\<rparr>) = completion_total s"
  "completion_total (s\<lparr>cs_queue_wait_ns := x\<rparr>) = completion_total s"
  "completion_total (s\<lparr>cs_execution_ns := x\<rparr>) = completion_total s"
  by (simp_all add: submit_total_def completion_total_def)

text \<open>What an execution leaves behind: one more completion, for its own operation.\<close>

lemma execute_outcome_id: "rs_request_id (fst (execute_outcome has_gate env rq)) = rq_request_id rq"
  by (auto simp: execute_outcome_def failure_def driver_result_def Let_def split: sum.splits option.splits)

lemma execute_effect:
  "\<exists>s. Dispatcher_execute env v d =
     d\<lparr>dd_stats := s, dd_completed := dd_completed d @ [(v, fst (execute_outcome (dd_has_gate d) env (op_request v)))]\<rparr> \<and>
     completion_total s = completion_total (dd_stats d) + 1 \<and> submit_total s = submit_total (dd_stats d) \<and>
     cs_submitted s = cs_submitted (dd_stats d) \<and> cs_accepted s = cs_accepted (dd_stats d)"
  by (rule exI [of _ "dd_stats (Dispatcher_execute env v d)"])
     (simp add: Dispatcher_execute_def Dispatcher_complete_def Let_def case_prod_beta)

lemma disp_inv_init: "disp_init d \<Longrightarrow> disp_inv d"
  by (auto simp: disp_init_def Dispatcher_new_def ControlQueue_new_def disp_inv_def disp_inv_defs
      zero_control_stats_def submit_total_def completion_total_def split: if_splits)

lemma disp_inv_submit_enter:
  "disp_inv d \<Longrightarrow> disp_inv ((Dispatcher_submit_enter d)\<lparr>dd_entered := dd_entered d + 1\<rparr>)"
  by (auto simp: disp_inv_def disp_inv_defs Dispatcher_submit_enter_def)

lemma disp_inv_count_submit:
  assumes "disp_inv d" "0 < dd_entered d" "r \<noteq> Sub_Accepted"
  shows "disp_inv (d\<lparr>dd_stats := count_submit r (dd_stats d), dd_entered := dd_entered d - 1\<rparr>)"
  using assms by (auto simp: disp_inv_def disp_inv_defs of_nat_diff)

lemma disp_inv_submit_decide:
  assumes "disp_inv d" "0 < dd_entered d"
    and "Dispatcher_submit_decide driver_resolver now request completion d = (r, d')"
  shows "disp_inv (d'\<lparr>dd_entered := dd_entered d - 1\<rparr>)"
proof (cases "valid_request request \<and> dd_started d \<and> \<not> dd_stopping d \<and>
    resolved (driver_resolver (rq_device_id request)) \<noteq> None")
  case False
  then have "d' = d\<lparr>dd_stats := count_submit r (dd_stats d)\<rparr> \<and> r \<noteq> Sub_Accepted"
    using assms(3) by (auto simp: Dispatcher_submit_decide_def Let_def split: if_splits)
  then show ?thesis using disp_inv_count_submit [OF assms(1,2)] by simp
next
  case True
  note d' = assms(3) [unfolded Dispatcher_submit_decide_def]
  show ?thesis
  proof (cases rule: try_push_cases [where now = now and q = "dd_queue d" and rq = request and c = completion])
    case stopping
    then show ?thesis using True assms(1) by (auto simp: disp_inv_def life_inv_def)
  next
    case full
    then have "d' = (d\<lparr>dd_queue := (dd_queue d)\<lparr>cq_rejected_full := cq_rejected_full (dd_queue d) + 1\<rparr>,
        dd_stats := count_submit Sub_QueueFull (dd_stats d)\<rparr>)"
      using True d' by auto
    then show ?thesis
      using assms(1,2) by (auto simp: disp_inv_def disp_inv_defs of_nat_diff)
  next
    case (accepted q')
    then have "d' = (d\<lparr>dd_queue := q', dd_stats := count_submit Sub_Accepted (dd_stats d),
        dd_accepted := dd_accepted d @ [\<lparr>op_request = request, op_completion = completion, op_enqueued_at = now\<rparr>]\<rparr>)"
      using True d' by auto
    then show ?thesis
      using assms(1,2) accepted True by (auto simp: disp_inv_def disp_inv_defs of_nat_diff)
  qed
qed

lemma disp_inv_worker_pop:
  assumes "disp_inv d" "dd_worker d = Waiting"
    and "ControlQueue_wait_pop (dd_queue d) = Some (Some operation, q)"
  shows "disp_inv (d\<lparr>dd_queue := q, dd_worker := Executing operation, dd_taken := dd_taken d @ [operation]\<rparr>)"
  using assms
  by (auto simp: disp_inv_def disp_inv_defs ControlQueue_wait_pop_def split: list.splits if_splits)

lemma disp_inv_worker_exit:
  assumes "disp_inv d" "dd_worker d = Waiting"
    and "ControlQueue_wait_pop (dd_queue d) = Some (None, q)"
  shows "disp_inv (d\<lparr>dd_queue := q, dd_worker := Exited\<rparr>)"
  using assms cq.pop_end [OF assms(3)]
  by (auto simp: disp_inv_def disp_inv_defs)

lemma disp_inv_worker_execute:
  assumes "disp_inv d" "dd_worker d = Executing operation"
  shows "disp_inv ((Dispatcher_execute env operation d)\<lparr>dd_worker := Waiting\<rparr>)"
proof -
  from execute_effect [of env operation d] obtain s where
    s: "Dispatcher_execute env operation d = d\<lparr>dd_stats := s, dd_completed := dd_completed d @
          [(operation, fst (execute_outcome (dd_has_gate d) env (op_request operation)))]\<rparr>"
      "completion_total s = completion_total (dd_stats d) + 1" "submit_total s = submit_total (dd_stats d)"
      "cs_submitted s = cs_submitted (dd_stats d)" "cs_accepted s = cs_accepted (dd_stats d)" by blast
  show ?thesis
    using assms s(2-) unfolding s(1) by (auto simp: disp_inv_def disp_inv_defs execute_outcome_id)
qed

lemma disp_inv_stop_begin:
  assumes "disp_inv d" "\<not> dd_stopping d"
  shows "disp_inv (Dispatcher_request_stop_begin alloc_ok d)"
  using assms
  by (cases alloc_ok)
     (auto simp: disp_inv_def disp_inv_defs Dispatcher_request_stop_begin_def ControlQueue_close_def
        ControlQueue_cancel_pending_def cancel_loop_spec Let_def)

lemma disp_inv_stop_complete:
  assumes "disp_inv d" "dd_cancelling d = Some (operation # rest)"
  shows "disp_inv ((Dispatcher_complete operation (cancelled_result (op_request operation)) d)
           \<lparr>dd_cancelling := Some rest\<rparr>)"
  using assms by (auto simp: disp_inv_def disp_inv_defs Dispatcher_complete_def cancelled_result_def)

lemma disp_inv_step: "disp_step dr l d d' \<Longrightarrow> disp_inv d \<Longrightarrow> disp_inv d'"
proof (induction rule: disp_step.induct)
  case (start d d')
  then show ?case
    by (auto simp: Dispatcher_start_def disp_inv_def disp_inv_defs split: if_splits)
next
  case (submit_decide d now request completion r d')
  then show ?case by (blast intro: disp_inv_submit_decide)
next
  case (stop_end d)
  then show ?case by (auto simp: disp_inv_def disp_inv_defs)
next
  case (join_begin d)
  then show ?case by (auto simp: disp_inv_def disp_inv_defs)
next
  case (join_end d)
  then show ?case by (auto simp: disp_inv_def disp_inv_defs)
next
  case (join_failed d)
  then show ?case by (auto simp: disp_inv_def disp_inv_defs)
qed (rule disp_inv_submit_enter disp_inv_worker_pop disp_inv_worker_exit
  disp_inv_worker_execute disp_inv_stop_begin disp_inv_stop_complete; assumption)+

interpretation dispatcher: state_machine disp_init "disp_steps driver_resolver" disp_inv
  by unfold_locales (auto intro: disp_inv_init disp_inv_step)

section \<open>Shutdown\<close>

text \<open>The work left until \<open>join\<close> returns; every step of the worker, of the stopping thread
  and of a joining thread decreases it, and after a stop request nothing increases it.\<close>

definition shutdown_work :: "'c Dispatcher \<Rightarrow> nat" where
  "shutdown_work d =
     2 * length (cq_queue (dd_queue d)) +
     (case dd_worker d of No_worker \<Rightarrow> 0 | Waiting \<Rightarrow> 1 | Executing _ \<Rightarrow> 2 | Exited \<Rightarrow> 0) +
     (case dd_cancelling d of None \<Rightarrow> 0 | Some ops \<Rightarrow> Suc (length ops)) +
     (if dd_joined d then 0 else if dd_join_in_progress d then 1 else 2)"

definition internal :: "label \<Rightarrow> bool" where
  "internal l \<longleftrightarrow> l = L_worker \<or> l = L_stop \<or> l = L_join"

lemma execute_frame [simp]:
  "dd_queue (Dispatcher_execute env v d) = dd_queue d"
  "dd_cancelling (Dispatcher_execute env v d) = dd_cancelling d"
  "dd_joined (Dispatcher_execute env v d) = dd_joined d"
  "dd_join_in_progress (Dispatcher_execute env v d) = dd_join_in_progress d"
  "dd_stopping (Dispatcher_execute env v d) = dd_stopping d"
  "dd_started (Dispatcher_execute env v d) = dd_started d"
  "dd_accepted (Dispatcher_execute env v d) = dd_accepted d"
  using execute_effect [of env v d] by auto

lemma submit_decide_stopping:
  "dd_stopping d \<Longrightarrow> Dispatcher_submit_decide dr now request completion d = (r, d') \<Longrightarrow>
     d' = d\<lparr>dd_stats := count_submit r (dd_stats d)\<rparr> \<and> (r = Sub_Stopping \<or> r = Sub_InvalidRequest)"
  by (auto simp: Dispatcher_submit_decide_def Let_def split: if_splits)

lemma internal_step_decreases:
  assumes "disp_step dr l d d'" "internal l" "dd_stopping d" "disp_inv d"
  shows "shutdown_work d' < shutdown_work d \<and> dd_stopping d' \<and> (dd_started d \<longrightarrow> dd_started d')"
  using assms
proof (cases rule: disp_step.cases)
  case (worker_pop operation q)
  then show ?thesis
    using assms(3) cq.pop_value [OF worker_pop(4)] by (simp add: shutdown_work_def)
next
  case (worker_exit q)
  then show ?thesis
    using assms(3) cq.pop_end [OF worker_exit(4)] by (simp add: shutdown_work_def)
next
  case (worker_execute operation env)
  then show ?thesis using assms(3) by (simp add: shutdown_work_def)
next
  case (join_end)
  then show ?thesis
    using assms(3,4) by (auto simp: shutdown_work_def disp_inv_def life_inv_def)
qed (use assms in \<open>auto simp: internal_def shutdown_work_def Dispatcher_complete_def\<close>)

lemma other_step_neutral:
  assumes "disp_step dr l d d'" "\<not> internal l" "l \<noteq> L_join_failed" "dd_stopping d"
  shows "shutdown_work d' = shutdown_work d \<and> dd_stopping d' \<and> (dd_started d \<longrightarrow> dd_started d')"
  using assms
proof (cases rule: disp_step.cases)
  case start
  then show ?thesis using assms(4) by (simp add: Dispatcher_start_def split: if_splits)
next
  case submit_enter
  then show ?thesis using assms(4) by (simp add: shutdown_work_def Dispatcher_submit_enter_def)
next
  case (submit_decide now request completion r d'')
  then show ?thesis
    using submit_decide_stopping [OF assms(4) submit_decide(4)] assms(4) by (simp add: shutdown_work_def)
qed (auto simp: internal_def)

text \<open>A stopping dispatcher that is not joined yet always has a thread that can move.\<close>

lemma shutdown_not_stuck:
  assumes "disp_inv d" "dd_started d" "dd_stopping d" "\<not> dd_joined d"
  shows "\<exists>l d'. internal l \<and> disp_step dr l d d'"
proof (cases "dd_worker d")
  case Waiting
  obtain x q where "ControlQueue_wait_pop (dd_queue d) = Some (x, q)"
    using assms cq.pop_blocks [of "dd_queue d"] by (fastforce simp: disp_inv_def life_inv_def)
  then show ?thesis
    using Waiting by (cases x) (force intro: disp_step.worker_pop disp_step.worker_exit simp: internal_def)+
next
  case (Executing operation)
  then show ?thesis by (force intro: disp_step.worker_execute simp: internal_def)
next
  case Exited
  show ?thesis
  proof (cases "dd_cancelling d")
    case None
    then have "dd_stop_request_complete d" using assms by (auto simp: disp_inv_def life_inv_def)
    then show ?thesis
      using assms Exited
      by (cases "dd_join_in_progress d")
         (force intro: disp_step.join_end disp_step.join_begin simp: internal_def)+
  next
    case (Some ops)
    then show ?thesis
      by (cases ops) (force intro: disp_step.stop_end disp_step.stop_complete_one simp: internal_def)+
  qed
qed (use assms in \<open>auto simp: disp_inv_def life_inv_def\<close>)

lemma shutdown_reaches_joined:
  assumes "disp_inv d" "dd_started d" "dd_stopping d"
  shows "\<exists>d'. (\<lambda>d d'. \<exists>l. internal l \<and> disp_step dr l d d')\<^sup>*\<^sup>* d d' \<and> dd_joined d'"
  using assms
proof (induction "shutdown_work d" arbitrary: d rule: less_induct)
  case less
  show ?case
  proof (cases "dd_joined d")
    case True
    then show ?thesis by blast
  next
    case False
    then obtain l d1 where s: "internal l" "disp_step dr l d d1"
      using shutdown_not_stuck less.prems by blast
    have "shutdown_work d1 < shutdown_work d" "dd_stopping d1" "dd_started d1"
      using internal_step_decreases [OF s(2,1)] less.prems by auto
    then obtain d' where "(\<lambda>d d'. \<exists>l. internal l \<and> disp_step dr l d d')\<^sup>*\<^sup>* d1 d'" "dd_joined d'"
      using less.hyps disp_inv_step [OF s(2)] less.prems by blast
    then show ?thesis using s by (blast intro: converse_rtranclp_into_rtranclp)
  qed
qed

text \<open>At the end of a shutdown every accepted operation has been completed.\<close>

lemma joined_all_completed:
  assumes "disp_inv d" "dd_joined d"
  shows "mset (map fst (dd_completed d)) = mset (dd_accepted d)"
  using assms by (auto simp: disp_inv_def disp_inv_defs)

lemma completed_subset:
  assumes "disp_inv d"
  shows "mset (map fst (dd_completed d)) \<subseteq># mset (dd_accepted d)"
proof -
  have "mset (map fst (dd_completed d)) \<subseteq># mset (dd_taken d) + mset (dd_swept d)"
    using assms by (metis completion_inv_def disp_inv_def mset_subset_eq_add_left)
  also have "\<dots> \<subseteq># mset (dd_accepted d)"
    using assms by (simp add: disp_inv_def order_inv_def)
  finally show ?thesis .
qed

lemma unat_control_saturating_add:
  "unat (control_saturating_add a b) = min (2 ^ 64 - 1) (unat a + unat b)"
proof -
  have "control_saturating_add a b = saturating_add a b"
    by (simp add: control_saturating_add_def saturating_add_def)
  then show ?thesis by (simp add: unat_saturating_add)
qed

text \<open>An uninterrupted \<open>request_stop\<close> is a run of the stopping thread.\<close>

abbreviation cancel_one :: "'c ControlOperation \<Rightarrow> 'c Dispatcher \<Rightarrow> 'c Dispatcher" where
  "cancel_one v \<equiv> Dispatcher_complete v (cancelled_result (op_request v))"

lemma complete_cancelling:
  "Dispatcher_complete v r (d\<lparr>dd_cancelling := x\<rparr>) = (Dispatcher_complete v r d)\<lparr>dd_cancelling := x\<rparr>"
  by (cases d) (simp add: Dispatcher_complete_def)

lemma fold_complete_cancelling:
  "fold cancel_one ops (d\<lparr>dd_cancelling := x\<rparr>) = (fold cancel_one ops d)\<lparr>dd_cancelling := x\<rparr>"
  by (induction ops arbitrary: d) (simp_all add: complete_cancelling)

lemma fold_complete_effect:
  "dd_queue (fold cancel_one ops d) = dd_queue d"
  "dd_completed (fold cancel_one ops d) =
     dd_completed d @ map (\<lambda>v. (v, cancelled_result (op_request v))) ops"
  by (induction ops arbitrary: d) (simp_all add: Dispatcher_complete_def)

lemma cancel_steps:
  "dd_cancelling d = Some ops \<Longrightarrow> (disp_step dr L_stop)\<^sup>*\<^sup>* d
     ((fold cancel_one ops d)\<lparr>dd_cancelling := None, dd_stop_request_complete := True\<rparr>)"
proof (induction ops arbitrary: d)
  case Nil
  then show ?case using disp_step.stop_end [of d dr] by simp
next
  case (Cons v ops)
  have "disp_step dr L_stop d ((cancel_one v d)\<lparr>dd_cancelling := Some ops\<rparr>)"
    by (rule disp_step.stop_complete_one [OF Cons.prems])
  moreover have "(disp_step dr L_stop)\<^sup>*\<^sup>* ((cancel_one v d)\<lparr>dd_cancelling := Some ops\<rparr>)
     ((fold cancel_one (v # ops) d)\<lparr>dd_cancelling := None, dd_stop_request_complete := True\<rparr>)"
    using Cons.IH [of "(cancel_one v d)\<lparr>dd_cancelling := Some ops\<rparr>"] by (simp add: fold_complete_cancelling)
  ultimately show ?case by (rule converse_rtranclp_into_rtranclp)
qed

section \<open>An executable scheduler of the threads\<close>

text \<open>Chooses the next step, for evaluating concrete interleavings.\<close>

datatype 'c action =
    A_start | A_enter | A_decide int DeviceControlRequest "'c option" | A_worker exec_env
  | A_stop_begin bool | A_stop | A_join

fun act :: "(string \<Rightarrow> 'drv option result) \<Rightarrow> 'c action \<Rightarrow> 'c Dispatcher \<Rightarrow> 'c Dispatcher option" where
  "act dr A_start d = (case Dispatcher_start d of Inl _ \<Rightarrow> None | Inr d' \<Rightarrow> Some d')"
| "act dr A_enter d = Some ((Dispatcher_submit_enter d)\<lparr>dd_entered := dd_entered d + 1\<rparr>)"
| "act dr (A_decide now request completion) d =
     (if 0 < dd_entered d
      then Some ((snd (Dispatcher_submit_decide dr now request completion d))\<lparr>dd_entered := dd_entered d - 1\<rparr>)
      else None)"
| "act dr (A_worker env) d =
     (case dd_worker d of
        Waiting \<Rightarrow>
          (case ControlQueue_wait_pop (dd_queue d) of
             None \<Rightarrow> None
           | Some (None, q) \<Rightarrow> Some (d\<lparr>dd_queue := q, dd_worker := Exited\<rparr>)
           | Some (Some operation, q) \<Rightarrow>
               Some (d\<lparr>dd_queue := q, dd_worker := Executing operation,
                       dd_taken := dd_taken d @ [operation]\<rparr>))
      | Executing operation \<Rightarrow> Some ((Dispatcher_execute env operation d)\<lparr>dd_worker := Waiting\<rparr>)
      | _ \<Rightarrow> None)"
| "act dr (A_stop_begin alloc_ok) d =
     (if dd_stopping d then None else Some (Dispatcher_request_stop_begin alloc_ok d))"
| "act dr A_stop d =
     (case dd_cancelling d of
        None \<Rightarrow> None
      | Some [] \<Rightarrow> Some (d\<lparr>dd_cancelling := None, dd_stop_request_complete := True\<rparr>)
      | Some (operation # rest) \<Rightarrow>
          Some ((Dispatcher_complete operation (cancelled_result (op_request operation)) d)
                  \<lparr>dd_cancelling := Some rest\<rparr>))"
| "act dr A_join d =
     (if dd_join_in_progress d
      then (case dd_worker d of
              Exited \<Rightarrow> Some (d\<lparr>dd_join_in_progress := False, dd_joined := True\<rparr>)
            | _ \<Rightarrow> None)
      else if dd_started d \<and> dd_stop_request_complete d \<and> \<not> dd_joined d
           then Some (d\<lparr>dd_join_in_progress := True\<rparr>) else None)"

fun acts :: "(string \<Rightarrow> 'drv option result) \<Rightarrow> 'c action list \<Rightarrow> 'c Dispatcher \<Rightarrow> 'c Dispatcher option" where
  "acts dr [] d = Some d"
| "acts dr (a # as) d = (case act dr a d of None \<Rightarrow> None | Some d' \<Rightarrow> acts dr as d')"

text \<open>The thread that takes an action.\<close>

fun act_label :: "'c action \<Rightarrow> label" where
  "act_label A_start = L_start"
| "act_label A_enter = L_submit"
| "act_label (A_decide _ _ _) = L_submit"
| "act_label (A_worker _) = L_worker"
| "act_label (A_stop_begin _) = L_stop"
| "act_label A_stop = L_stop"
| "act_label A_join = L_join"

lemma act_label_step:
  assumes "act dr a d = Some d'"
  shows "disp_step dr (act_label a) d d'"
proof (cases a)
  case A_enter
  then show ?thesis using assms disp_step.submit_enter by fastforce
next
  case (A_decide now request completion)
  then show ?thesis
    using assms disp_step.submit_decide [of d dr now request completion, OF _ prod.collapse [symmetric]]
    by (auto split: if_splits)
qed (use assms in \<open>auto intro: disp_step.intros
       split: if_splits option.splits sum.splits worker.splits prod.splits list.splits\<close>)

lemma act_step: "act dr a d = Some d' \<Longrightarrow> \<exists>l. disp_step dr l d d'"
  using act_label_step by blast

lemma acts_reachable:
  "reachable disp_init (disp_steps dr) d \<Longrightarrow> acts dr as d = Some d' \<Longrightarrow>
     reachable disp_init (disp_steps dr) d'"
proof (induction as arbitrary: d)
  case (Cons a as)
  from Cons.prems(2) obtain d1 where d1: "act dr a d = Some d1" "acts dr as d1 = Some d'"
    by (auto split: option.splits)
  from act_step [OF d1(1)] have "reachable disp_init (disp_steps dr) d1"
    using Cons.prems(1) by (blast intro: reachable.step)
  then show ?case using Cons.IH d1(2) by blast
qed simp

definition example_resolver :: "string \<Rightarrow> unit option result" where
  "example_resolver device = (if device = ''plc'' then Inr (Some ()) else Inl (Runtime_error ''no such device''))"

definition example_request :: "string \<Rightarrow> DeviceControlRequest" where
  "example_request i = \<lparr>rq_request_id = i, rq_device_id = ''plc'', rq_command = ''set'',
     rq_arguments = Map.empty, rq_deadline = 100\<rparr>"

definition example_env :: exec_env where
  "example_env = \<lparr>en_started = 10, en_driver = Inr True, en_now = 11, en_gate = Inr True, en_lock = Inr True,
     en_locked_at = 12,
     en_control = Inr \<lparr>rs_request_id = ''plc-7'', rs_status = Ctl_Succeeded, rs_outputs = Map.empty, rs_message = []\<rparr>,
     en_controlled_at = 20, en_finished = 21\<rparr>"

definition example_dispatcher :: "nat Dispatcher" where
  "example_dispatcher = (case Dispatcher_new 2 True True of Inr d \<Rightarrow> d)"

definition example_actions :: "nat action list" where
  "example_actions = [A_start, A_enter, A_decide 1 (example_request ''a'') (Some 1), A_worker example_env,
     A_enter, A_enter, A_decide 2 (example_request ''b'') (Some 2), A_stop_begin True,
     A_decide 3 (example_request ''c'') None]"

definition example_shutdown :: "nat action list" where
  "example_shutdown = [A_stop, A_worker example_env, A_stop, A_worker example_env, A_join, A_join]"

definition example_stopping :: "nat Dispatcher" where
  "example_stopping = (case acts example_resolver example_actions example_dispatcher of Some d \<Rightarrow> d)"

definition example_joined :: "nat Dispatcher" where
  "example_joined = (case acts example_resolver example_shutdown example_stopping of Some d \<Rightarrow> d)"

lemma example_start: "reachable disp_init (disp_steps example_resolver) example_dispatcher"
proof (rule reachable.start)
  have "Dispatcher_new 2 True True = Inr example_dispatcher"
    by (simp add: example_dispatcher_def Dispatcher_new_def ControlQueue_new_def)
  then show "disp_init example_dispatcher" unfolding disp_init_def by blast
qed

lemma example_stopping_run: "acts example_resolver example_actions example_dispatcher = Some example_stopping"
proof -
  have "acts example_resolver example_actions example_dispatcher \<noteq> None" by code_simp
  then show ?thesis unfolding example_stopping_def by auto
qed

lemma example_joined_run: "acts example_resolver example_shutdown example_stopping = Some example_joined"
proof -
  have "acts example_resolver example_shutdown example_stopping \<noteq> None" by code_simp
  then show ?thesis unfolding example_joined_def by auto
qed

lemma example_reachable:
  "reachable disp_init (disp_steps example_resolver) example_stopping"
  "reachable disp_init (disp_steps example_resolver) example_joined"
proof -
  show "reachable disp_init (disp_steps example_resolver) example_stopping"
    by (rule acts_reachable [OF example_start example_stopping_run])
  then show "reachable disp_init (disp_steps example_resolver) example_joined"
    by (rule acts_reachable [OF _ example_joined_run])
qed

section \<open>Properties\<close>

text \<open>C2: control requests are completed exactly once. When \<open>join\<close> has returned, the calls of
  \<open>complete\<close> are, as a multiset, exactly the accepted operations: none is lost, none is completed
  twice, whatever the interleaving of submitters, worker, stopping and joining threads; and at every
  earlier moment no operation has been completed that was not accepted.\<close>

theorem dispatcher_exactly_once:
  assumes "reachable disp_init (disp_steps driver_resolver) d"
  shows "mset (map fst (dd_completed d)) \<subseteq># mset (dd_accepted d) \<and>
         (dd_joined d \<longrightarrow> mset (map fst (dd_completed d)) = mset (dd_accepted d))"
  using dispatcher.reachable_inv [OF assms] completed_subset joined_all_completed by blast

theorem dispatcher_exactly_once_witness:
  "dd_joined example_joined \<and> length (dd_accepted example_joined) = 2 \<and>
   mset (map fst (dd_completed example_joined)) = mset (dd_accepted example_joined)"
proof -
  have "dd_joined example_joined" "length (dd_accepted example_joined) = 2" by code_simp+
  then show ?thesis using dispatcher_exactly_once [OF example_reachable(2)] by simp
qed

text \<open>A result goes back under the id of its request. Every completion carries the
  \<open>request_id\<close> of the operation it completes, even if the driver answered with another id.\<close>

theorem dispatcher_request_ids:
  assumes "reachable disp_init (disp_steps driver_resolver) d"
    and "(operation, result) \<in> set (dd_completed d)"
  shows "rs_request_id result = rq_request_id (op_request operation)"
  using dispatcher.reachable_inv [OF assms(1)] assms(2) by (auto simp: disp_inv_def completion_inv_def)

theorem dispatcher_request_ids_witness:
  "\<exists>operation result. dd_completed example_joined ! 1 = (operation, result) \<and>
     rs_status result = Ctl_Succeeded \<and> rs_request_id result = ''a''"
proof -
  define oper where "oper = fst (dd_completed example_joined ! 1)"
  define result where "result = snd (dd_completed example_joined ! 1)"
  have n: "1 < length (dd_completed example_joined)" by code_simp
  have v: "rs_status (snd (dd_completed example_joined ! 1)) = Ctl_Succeeded"
    "rq_request_id (op_request (fst (dd_completed example_joined ! 1))) = ''a''" by code_simp+
  have "(oper, result) \<in> set (dd_completed example_joined)"
    using nth_mem [OF n] by (simp add: oper_def result_def)
  from dispatcher_request_ids [OF example_reachable(2) this] v show ?thesis
    by (intro exI [of _ oper]) (simp add: oper_def result_def prod_eq_iff)
qed

text \<open>The worker takes control requests in the order they were accepted. What it has taken is
  always a prefix of what was accepted, the queue never exceeds its capacity, and requests swept by a
  stop are those right after the taken ones.\<close>

theorem dispatcher_in_order:
  assumes "reachable disp_init (disp_steps driver_resolver) d"
  shows "prefix (dd_taken d) (dd_accepted d) \<and> prefix (dd_taken d @ dd_swept d) (dd_accepted d) \<and>
         length (cq_queue (dd_queue d)) \<le> cq_capacity (dd_queue d)"
  using dispatcher.reachable_inv [OF assms] by (simp add: disp_inv_def order_inv_def)

theorem dispatcher_in_order_witness:
  "length (dd_taken example_stopping) = 1 \<and> length (dd_swept example_stopping) = 1 \<and>
   prefix (dd_taken example_stopping @ dd_swept example_stopping) (dd_accepted example_stopping)"
proof -
  have "length (dd_taken example_stopping) = 1" "length (dd_swept example_stopping) = 1" by code_simp+
  then show ?thesis using dispatcher_in_order [OF example_reachable(1)] by simp
qed

text \<open>A requested stop always completes. From any reachable state of a started dispatcher whose stop
  was requested, the worker, the stopping thread and a joining thread alone lead to the joined state; each of
  their steps decreases the remaining work, and no other step, failed joins apart, increases it.\<close>

theorem dispatcher_shutdown_completes:
  assumes "reachable disp_init (disp_steps driver_resolver) d" and "dd_started d" and "dd_stopping d"
  shows "(\<exists>d'. (\<lambda>d d'. \<exists>l. internal l \<and> disp_step driver_resolver l d d')\<^sup>*\<^sup>* d d' \<and> dd_joined d') \<and>
         (\<forall>l d'. disp_step driver_resolver l d d' \<longrightarrow> l \<noteq> L_join_failed \<longrightarrow>
            shutdown_work d' \<le> shutdown_work d \<and> (internal l \<longrightarrow> shutdown_work d' < shutdown_work d))"
proof (intro conjI allI impI)
  note inv = dispatcher.reachable_inv [OF assms(1)]
  show "\<exists>d'. (\<lambda>d d'. \<exists>l. internal l \<and> disp_step driver_resolver l d d')\<^sup>*\<^sup>* d d' \<and> dd_joined d'"
    by (rule shutdown_reaches_joined [OF inv assms(2,3)])
  fix l d'
  assume s: "disp_step driver_resolver l d d'" "l \<noteq> L_join_failed"
  show "shutdown_work d' < shutdown_work d" if "internal l"
    using internal_step_decreases [OF s(1) that assms(3) inv] by blast
  then show "shutdown_work d' \<le> shutdown_work d"
    using other_step_neutral [OF s(1) _ s(2) assms(3)] by (cases "internal l") simp_all
qed

theorem dispatcher_shutdown_completes_witness:
  "dd_started example_stopping \<and> dd_stopping example_stopping \<and> shutdown_work example_stopping = 6 \<and>
   (\<exists>d'. (\<lambda>d d'. \<exists>l. internal l \<and> disp_step example_resolver l d d')\<^sup>*\<^sup>* example_stopping d' \<and> dd_joined d')"
proof -
  have v: "dd_started example_stopping" "dd_stopping example_stopping" "shutdown_work example_stopping = 6"
    by code_simp+
  from dispatcher_shutdown_completes [OF example_reachable(1) v(1,2)] v show ?thesis by blast
qed

text \<open>C30: the driver is called only in time and under the device's gate. An execution calls the driver
  exactly if a driver was found, the deadline had not passed, the gate (where there is one) was found and
  locked and the deadline was still ahead after that. Where it is not called the result is \<open>Failed\<close> if the driver or
  the gate is missing and \<open>Timeout\<close> otherwise, without outputs. Where it is called, an answer after the deadline is
  \<open>Timeout\<close>, an answer in time keeps the driver's status, both with the driver's outputs, and a throw is \<open>Failed\<close> without
  outputs. The result always carries the request's id.\<close>

theorem execute_calls_driver_in_time:
  "let (result, called) = execute_outcome has_gate env request; deadline = rq_deadline request in
   (called \<longleftrightarrow> found (en_driver env) \<and> en_now env < deadline \<and>
      (has_gate \<longrightarrow> found (en_gate env) \<and> lock_acquired env deadline) \<and>
      (deadline = time_point_max \<or> en_locked_at env < deadline)) \<and>
   rs_request_id result = rq_request_id request \<and>
   (\<not> called \<longrightarrow> rs_outputs result = Map.empty \<and>
      rs_status result =
        (if found (en_driver env) \<and> (deadline \<le> en_now env \<or> \<not> has_gate \<or> found (en_gate env))
         then Ctl_Timeout else Ctl_Failed)) \<and>
   (called \<longrightarrow>
      (case en_control env of
         Inl e \<Rightarrow> rs_status result = Ctl_Failed \<and> rs_outputs result = Map.empty
       | Inr answer \<Rightarrow>
           rs_status result = (if deadline < en_controlled_at env then Ctl_Timeout else rs_status answer) \<and>
           rs_outputs result = rs_outputs answer))"
  by (auto simp: execute_outcome_def failure_def driver_result_def Let_def split: sum.splits option.splits)

theorem execute_calls_driver_in_time_witness:
  "snd (execute_outcome True (example_env\<lparr>en_controlled_at := 101\<rparr>) (example_request ''a'')) \<and>
   \<not> snd (execute_outcome True (example_env\<lparr>en_locked_at := 100\<rparr>) (example_request ''a'')) \<and>
   rs_status (fst (execute_outcome True (example_env\<lparr>en_controlled_at := 101\<rparr>) (example_request ''a''))) = Ctl_Timeout \<and>
   rs_status (fst (execute_outcome True (example_env\<lparr>en_locked_at := 100\<rparr>) (example_request ''a''))) = Ctl_Timeout"
proof -
  let ?late = "example_env\<lparr>en_controlled_at := 101\<rparr>" and ?locked = "example_env\<lparr>en_locked_at := 100\<rparr>"
  have "snd (execute_outcome True ?late (example_request ''a''))"
    "\<not> snd (execute_outcome True ?locked (example_request ''a''))"
    "rq_deadline (example_request ''a'') < en_controlled_at ?late" "found (en_driver ?locked)" "found (en_gate ?locked)"
    by code_simp+
  moreover have "\<exists>answer. en_control ?late = Inr answer" by (simp add: example_env_def)
  ultimately show ?thesis
    using execute_calls_driver_in_time [of True ?late "example_request ''a''"]
      execute_calls_driver_in_time [of True ?locked "example_request ''a''"]
    by (auto simp: Let_def case_prod_beta)
qed

text \<open>After a stop request nothing is accepted. Once the dispatcher is stopping, \<open>submit\<close> answers
  \<open>Stopping\<close> (or \<open>InvalidRequest\<close>) and leaves the queue and the accepted operations as they are; before
  that, a valid request for a resolvable device is accepted exactly if the queue has room.\<close>

theorem submit_outcome:
  assumes "cq_closed (dd_queue d) = dd_stopping d"
  shows "(dd_stopping d \<longrightarrow>
     fst (Dispatcher_submit dr now request completion d) \<in> {Sub_Stopping, Sub_InvalidRequest} \<and>
     dd_queue (snd (Dispatcher_submit dr now request completion d)) = dd_queue d \<and>
     dd_accepted (snd (Dispatcher_submit dr now request completion d)) = dd_accepted d) \<and>
   (fst (Dispatcher_submit dr now request completion d) = Sub_Accepted \<longleftrightarrow>
     valid_request request \<and> dd_started d \<and> \<not> dd_stopping d \<and>
     resolved (dr (rq_device_id request)) \<noteq> None \<and> length (cq_queue (dd_queue d)) < cq_capacity (dd_queue d))"
  using assms
  by (auto simp: Dispatcher_submit_def Dispatcher_submit_decide_def Dispatcher_submit_enter_def Let_def
      ControlQueue_try_push_def split: if_splits)

theorem submit_outcome_witness:
  "fst (Dispatcher_submit example_resolver 5 (example_request ''d'') None example_stopping)
     \<in> {Sub_Stopping, Sub_InvalidRequest}"
proof -
  have "cq_closed (dd_queue example_stopping) = dd_stopping example_stopping" "dd_stopping example_stopping"
    by code_simp+
  from submit_outcome [OF this(1)] this(2) show ?thesis by blast
qed

text \<open>The nanosecond counters saturate. \<open>saturating_add\<close> is addition capped at \<open>2 ^ 64 - 1\<close>, so the
  accumulated waiting and execution times never wrap around, and executing an operation never decreases them.\<close>

theorem execute_times_saturate:
  "unat (control_saturating_add a b) = min (2 ^ 64 - 1) (unat a + unat b) \<and>
   cs_queue_wait_ns (dd_stats d) \<le> cs_queue_wait_ns (dd_stats (Dispatcher_execute env operation d)) \<and>
   cs_execution_ns (dd_stats d) \<le> cs_execution_ns (dd_stats (Dispatcher_execute env operation d))"
proof -
  have le: "x \<le> control_saturating_add x y" for x y
    using unat_control_saturating_add [of x y] unat_u64_le [of x]
    by (simp add: word_le_nat_alt)
  have st: "cs_queue_wait_ns (count_status r s) = cs_queue_wait_ns s"
    "cs_execution_ns (count_status r s) = cs_execution_ns s" for r s
    by (simp_all add: count_status_def split: DeviceControlStatus.splits)
  show ?thesis
    using le by (simp add: unat_control_saturating_add Dispatcher_execute_def Dispatcher_complete_def
        Let_def case_prod_beta st)
qed

text \<open>\<open>request_stop\<close> answers every pending request with \<open>Cancelled\<close>, in queue order. Run without
  interruption on a running dispatcher it is a sequence of steps of the stopping thread, leaves a closed
  empty queue, and appends exactly the cancellations of the waiting operations to the completions.\<close>

theorem request_stop_cancels_pending:
  assumes "\<not> dd_stopping d"
  shows "(disp_step dr L_stop)\<^sup>*\<^sup>* d (Dispatcher_request_stop True d) \<and>
     cq_queue (dd_queue (Dispatcher_request_stop True d)) = [] \<and>
     cq_closed (dd_queue (Dispatcher_request_stop True d)) \<and>
     dd_completed (Dispatcher_request_stop True d) =
       dd_completed d @ map (\<lambda>v. (v, cancelled_result (op_request v))) (cq_queue (dd_queue d))"
proof -
  let ?d1 = "Dispatcher_request_stop_begin True d"
  have d1: "dd_cancelling ?d1 = Some (dd_swept ?d1)" "dd_swept ?d1 = cq_queue (dd_queue d)"
    "cq_queue (dd_queue ?d1) = []" "cq_closed (dd_queue ?d1)" "dd_completed ?d1 = dd_completed d"
    using assms cq.cancel_laws [of "ControlQueue_close (dd_queue d)"] cq.close_laws [of "dd_queue d"]
    by (simp_all add: Dispatcher_request_stop_begin_def Let_def case_prod_beta)
  have "disp_step dr L_stop d ?d1" by (rule disp_step.stop_begin [OF assms])
  with cancel_steps [OF d1(1), of dr] show ?thesis
    using assms d1 fold_complete_effect [of "dd_swept ?d1" ?d1]
    by (auto simp: Dispatcher_request_stop_def Let_def intro: converse_rtranclp_into_rtranclp)
qed

theorem request_stop_cancels_pending_witness:
  "let d = (case acts example_resolver (take 3 example_actions) example_dispatcher of Some d \<Rightarrow> d) in
   \<not> dd_stopping d \<and> length (cq_queue (dd_queue d)) = 1 \<and>
   cq_queue (dd_queue (Dispatcher_request_stop True d)) = []"
proof -
  define d where "d = (case acts example_resolver (take 3 example_actions) example_dispatcher of Some d \<Rightarrow> d)"
  have "\<not> dd_stopping d" "length (cq_queue (dd_queue d)) = 1" unfolding d_def by code_simp+
  then show ?thesis
    using request_stop_cancels_pending [of d example_resolver] by (simp add: Let_def flip: d_def)
qed

end
