(* ===== verification/Processing.thy ===== *)
theory Processing
  imports Control
begin

text \<open>
  \<open>include/gateway/processing.hpp\<close> and \<open>src/core/processing.cpp\<close>: the context handed to
  processors and the pipeline that runs them. Processors are plugins: the pipeline is
  parameterised by what one call of \<open>IDataProcessor::process\<close> does to the processor, the
  event and the world \<open>'w\<close> behind the control sink, and whether it throws (a processor
  that throws may have changed the event before).
\<close>

section \<open>Context\<close>

type_synonym 'w control_sink = "DeviceControlRequest \<Rightarrow> 'w \<Rightarrow> ControlSubmitResult \<times> 'w"

record 'w ProcessingContext =
  ctx_now_ns :: i64
  ctx_control :: "'w control_sink option"

definition ProcessingContext_submit_control ::
  "'w ProcessingContext \<Rightarrow> DeviceControlRequest \<Rightarrow> 'w \<Rightarrow> ControlSubmitResult \<times> 'w" where
  "ProcessingContext_submit_control context request w =
     (case ctx_control context of
        None \<Rightarrow> (Sub_Stopping, w)
      | Some control \<Rightarrow> control request w)"

record ('p, 'w) processed =
  po_error :: "exn option"
  po_processor :: 'p
  po_event :: Event
  po_world :: 'w

type_synonym ('p, 'w) process_fn = "'w ProcessingContext \<Rightarrow> 'p \<Rightarrow> Event \<Rightarrow> 'w \<Rightarrow> ('p, 'w) processed"

section \<open>Pipeline\<close>

record ProcessingStats =
  ps_events :: u64
  ps_processor_errors :: u64

record ('p, 'w) ProcessingPipeline =
  pl_processors :: "'p list"
  pl_control :: "'w control_sink option"
  pl_events :: u64
  pl_processor_errors :: u64

text \<open>A null \<open>unique_ptr\<close> in the argument is \<^const>\<open>None\<close>.\<close>

definition ProcessingPipeline_new ::
  "'p option list \<Rightarrow> 'w control_sink option \<Rightarrow> ('p, 'w) ProcessingPipeline result" where
  "ProcessingPipeline_new processors control =
     (if None \<in> set processors
      then Inl (Invalid_argument ''processing pipeline contains a null processor'')
      else Inr \<lparr>pl_processors = map the processors, pl_control = control, pl_events = 0,
                pl_processor_errors = 0\<rparr>)"

definition set_control_sink ::
  "('p, 'w) ProcessingPipeline \<Rightarrow> 'w control_sink option \<Rightarrow> ('p, 'w) ProcessingPipeline" where
  "set_control_sink pipeline control = pipeline\<lparr>pl_control := control\<rparr>"

text \<open>The loop over the processors: the processors afterwards, the event, the errors, the world.\<close>

fun process_loop :: "('p, 'w) process_fn \<Rightarrow> 'w ProcessingContext \<Rightarrow> 'p list \<Rightarrow> Event \<Rightarrow> u64 \<Rightarrow> 'w \<Rightarrow>
    'p list \<times> Event \<times> u64 \<times> 'w" where
  "process_loop proc context [] event errors w = ([], event, errors, w)"
| "process_loop proc context (p # ps) event errors w =
     (let out = proc context p event w;
          errors' = (if po_error out = None then errors else errors + 1);
          (ps', event', errors'', w') = process_loop proc context ps (po_event out) errors' (po_world out)
      in (po_processor out # ps', event', errors'', w'))"

definition ProcessingPipeline_process ::
  "('p, 'w) process_fn \<Rightarrow> i64 \<Rightarrow> ('p, 'w) ProcessingPipeline \<Rightarrow> Event \<Rightarrow> 'w \<Rightarrow>
   Event \<times> ('p, 'w) ProcessingPipeline \<times> 'w" where
  "ProcessingPipeline_process proc now pipeline event w =
     (let context = \<lparr>ctx_now_ns = now, ctx_control = pl_control pipeline\<rparr>;
          (ps, event', errors, w') =
            process_loop proc context (pl_processors pipeline) event (pl_processor_errors pipeline) w
      in (event', pipeline\<lparr>pl_processors := ps, pl_events := pl_events pipeline + 1,
                           pl_processor_errors := errors\<rparr>, w'))"

definition ProcessingPipeline_stats :: "('p, 'w) ProcessingPipeline \<Rightarrow> ProcessingStats" where
  "ProcessingPipeline_stats pipeline =
     \<lparr>ps_events = pl_events pipeline, ps_processor_errors = pl_processor_errors pipeline\<rparr>"

section \<open>The contract of a processor\<close>

text \<open>
  What the gateway relies on: a processor leaves the identity of the event and the
  readings it found alone, only appends readings, marks them as derived, and keeps its
  own invariant.
\<close>

definition extends_event :: "Event \<Rightarrow> Event \<Rightarrow> bool" where
  "extends_event e e' \<longleftrightarrow>
     ev_id e' = ev_id e \<and> ev_device_id e' = ev_device_id e \<and> ev_source e' = ev_source e \<and>
     (\<exists>extra. ev_readings e' = ev_readings e @ extra \<and> (\<forall>r \<in> set extra. rd_derived r))"

lemma extends_event_refl [simp]: "extends_event e e"
  by (simp add: extends_event_def)

lemma extends_event_trans: "extends_event a b \<Longrightarrow> extends_event b c \<Longrightarrow> extends_event a c"
  by (auto simp: extends_event_def)

locale data_processor =
  fixes proc :: "('p, 'w) process_fn"
    and good :: "'p \<Rightarrow> bool"
  assumes proc_extends: "good p \<Longrightarrow> extends_event e (po_event (proc c p e w))"
    and proc_good: "good p \<Longrightarrow> good (po_processor (proc c p e w))"
begin

lemma loop_extends:
  "\<forall>p \<in> set ps. good p \<Longrightarrow> process_loop proc c ps e n w = (ps', e', n', w') \<Longrightarrow>
     extends_event e e' \<and> length ps' = length ps \<and> (\<forall>p \<in> set ps'. good p)"
proof (induction ps arbitrary: e n w ps')
  case (Cons p ps)
  from Cons.prems Cons.IH show ?case
    using proc_extends [of p e c w] proc_good [of p c e w]
    by (fastforce simp: Let_def split: prod.splits intro: extends_event_trans)
qed simp

lemma pipeline_extends:
  "\<forall>p \<in> set (pl_processors pl). good p \<Longrightarrow> ProcessingPipeline_process proc now pl e w = (e', pl', w') \<Longrightarrow>
     extends_event e e' \<and> (\<forall>p \<in> set (pl_processors pl'). good p)"
  by (auto simp: ProcessingPipeline_process_def Let_def split: prod.splits dest: loop_extends)

text \<open>A point measured by the device keeps its value through the whole pipeline.\<close>

lemma pipeline_keeps_found:
  "\<forall>p \<in> set (pl_processors pl). good p \<Longrightarrow> ProcessingPipeline_process proc now pl e w = (e', pl', w') \<Longrightarrow>
     find_reading e point = Some r \<Longrightarrow> find_reading e' point = Some r"
  using pipeline_extends [of pl now e w e' pl' w'] by (auto simp: extends_event_def intro: find_reading_stable)

end

text \<open>The number of throwing calls in one pass, and that the error counter counts them.\<close>

fun throws :: "('p, 'w) process_fn \<Rightarrow> 'w ProcessingContext \<Rightarrow> 'p list \<Rightarrow> Event \<Rightarrow> 'w \<Rightarrow> exn list" where
  "throws proc c [] e w = []"
| "throws proc c (p # ps) e w =
     (case po_error (proc c p e w) of None \<Rightarrow> [] | Some x \<Rightarrow> [x]) @
     throws proc c ps (po_event (proc c p e w)) (po_world (proc c p e w))"

lemma loop_errors:
  "process_loop proc c ps e n w = (ps', e', n', w') \<Longrightarrow>
     n' = n + of_nat (length (throws proc c ps e w)) \<and> length ps' = length ps"
  by (induction ps arbitrary: e n w ps') (fastforce simp: Let_def split: prod.splits option.splits if_splits)+

text \<open>A throwing pass of one processor is isolated: the others run on the event it left.\<close>

lemma process_loop_append:
  "process_loop proc c (ps @ qs) e n w =
     (let (ps', e', n', w') = process_loop proc c ps e n w;
          (qs', e'', n'', w'') = process_loop proc c qs e' n' w'
      in (ps' @ qs', e'', n'', w''))"
  by (induction ps arbitrary: e n w) (simp_all add: Let_def case_prod_beta)

section \<open>Properties\<close>

text \<open>C33: one failing processor does not stop the pipeline. Every event is counted, every processor is
  called on the event its predecessors left, whether they threw or not, and the error counter grows by
  the number of calls that threw (modulo \<open>2 ^ 64\<close>).\<close>

theorem pipeline_isolates_errors:
  assumes "ProcessingPipeline_process proc now pl e w = (e', pl', w')"
  shows "ps_events (ProcessingPipeline_stats pl') = ps_events (ProcessingPipeline_stats pl) + 1 \<and>
     ps_processor_errors (ProcessingPipeline_stats pl') = ps_processor_errors (ProcessingPipeline_stats pl) +
       of_nat (length (throws proc \<lparr>ctx_now_ns = now, ctx_control = pl_control pl\<rparr> (pl_processors pl) e w)) \<and>
     length (pl_processors pl') = length (pl_processors pl) \<and> pl_control pl' = pl_control pl"
  using assms
  by (auto simp: ProcessingPipeline_process_def ProcessingPipeline_stats_def Let_def
      split: prod.splits dest: loop_errors)

definition example_proc :: "(bool, nat) process_fn" where
  "example_proc c p e w = \<lparr>po_error = (if p then Some Unknown_exception else None), po_processor = p,
     po_event = e, po_world = w + 1\<rparr>"

definition example_event :: Event where
  "example_event = \<lparr>ev_id = ''1-0'', ev_device_id = ''plc'', ev_source = ''fast'', ev_readings = [], ev_model_version = []\<rparr>"

definition example_pipeline :: "(bool, nat) ProcessingPipeline" where
  "example_pipeline = \<lparr>pl_processors = [False, True, False], pl_control = None, pl_events = 4, pl_processor_errors = 1\<rparr>"

theorem pipeline_isolates_errors_witness:
  "\<exists>e' pl' w'. ProcessingPipeline_process example_proc 7 example_pipeline example_event 0 = (e', pl', w') \<and>
     w' = 3 \<and> ps_events (ProcessingPipeline_stats pl') = 5 \<and> ps_processor_errors (ProcessingPipeline_stats pl') = 2"
proof -
  obtain e' pl' w' where r: "ProcessingPipeline_process example_proc 7 example_pipeline example_event 0 = (e', pl', w')"
    by (metis prod_cases3)
  then have "w' = 3"
    by (simp add: ProcessingPipeline_process_def example_pipeline_def example_proc_def Let_def)
  with pipeline_isolates_errors [OF r] r show ?thesis
    by (simp add: ProcessingPipeline_stats_def example_pipeline_def example_proc_def)
qed

end
