(* ===== verification/Normalizer.thy ===== *)
theory Normalizer
  imports Data_Model
begin

text \<open>
  \<open>src/core/normalizer.cpp\<close>: conversion of raw samples into readings by the point
  configuration, and the \<open>Normalizer\<close> object with its atomic counters. The clock
  reading \<open>unix_time_ns()\<close> is an argument; \<open>oob\<close> is the value \<open>std::llround\<close> returns
  where the standard leaves it unspecified.
\<close>

section \<open>Conversion\<close>

fun boolean_value :: "Scalar \<Rightarrow> bool option" where
  "boolean_value (Boolean b) = Some b"
| "boolean_value (Int64 i) = Some (i \<noteq> 0)"
| "boolean_value (Dbl d) = Some (\<not> deq d (Finite False 0))"
| "boolean_value (Bytes _) = None"
| "boolean_value (Str s) =
     (if s = ''true'' \<or> s = ''1'' then Some True
      else if s = ''false'' \<or> s = ''0'' then Some False
      else None)"

definition int64_min_double :: double where
  "int64_min_double = double_of_int (- (2 ^ 63))"

definition int64_max_double :: double where
  "int64_max_double = double_of_int (2 ^ 63 - 1)"

definition scaled_value :: "double \<Rightarrow> PointConfig \<Rightarrow> double" where
  "scaled_value n config = dadd (dmul n (pt_scale config)) (pt_offset config)"

definition outside_limits :: "PointConfig \<Rightarrow> Scalar \<Rightarrow> bool" where
  "outside_limits config value =
     (case numeric_value value of
        None \<Rightarrow> False
      | Some n \<Rightarrow>
          (case pt_minimum config of Some lo \<Rightarrow> dlt n lo | None \<Rightarrow> False) \<or>
          (case pt_maximum config of Some hi \<Rightarrow> dlt hi n | None \<Rightarrow> False))"

text \<open>The part after the \<open>switch\<close>: the range check on the converted value.\<close>

definition check_limits :: "PointConfig \<Rightarrow> Scalar \<Rightarrow> Scalar \<times> Quality" where
  "check_limits config value = (value, if outside_limits config value then OutOfRange else Good)"

definition convert_value ::
  "(double \<Rightarrow> i64) \<Rightarrow> Scalar \<Rightarrow> PointConfig \<Rightarrow> Quality \<Rightarrow> Scalar \<times> Quality" where
  "convert_value oob value config quality =
     (if quality \<noteq> Good then (value, quality)
      else case pt_type config of
        VT_String \<Rightarrow> check_limits config (Str (scalar_to_string value))
      | VT_ByteArray \<Rightarrow>
          (case value of Bytes _ \<Rightarrow> check_limits config value | _ \<Rightarrow> (value, DecodeError))
      | VT_Boolean \<Rightarrow>
          (case boolean_value value of
             None \<Rightarrow> (value, DecodeError)
           | Some b \<Rightarrow> check_limits config (Boolean b))
      | VT_Double \<Rightarrow>
          (case numeric_value value of
             None \<Rightarrow> (value, DecodeError)
           | Some n \<Rightarrow> if \<not> isfinite n then (value, DecodeError)
                       else check_limits config (Dbl (scaled_value n config)))
      | VT_Integer \<Rightarrow>
          (case numeric_value value of
             None \<Rightarrow> (value, DecodeError)
           | Some n \<Rightarrow>
               if \<not> isfinite n then (value, DecodeError)
               else let scaled = scaled_value n config
                    in if dlt scaled int64_min_double \<or> dlt int64_max_double scaled
                       then (value, OutOfRange)
                       else check_limits config
                              (Int64 (case llround scaled of Some i \<Rightarrow> word_of_int i | None \<Rightarrow> oob scaled))))"

section \<open>The normalizer object\<close>

record Normalizer =
  nz_points :: "string \<rightharpoonup> (string \<rightharpoonup> PointConfig)"
  nz_event_sequence :: u64
  nz_batches :: u64
  nz_readings :: u64
  nz_bad_readings :: u64

record NormalizerStats =
  nzs_batches :: u64
  nzs_readings :: u64
  nzs_bad_readings :: u64

text \<open>One turn of the constructor's inner loop: a point into the device's map.\<close>

definition insert_point :: "string \<Rightarrow> (string \<rightharpoonup> PointConfig) \<Rightarrow> PointConfig \<Rightarrow> (string \<rightharpoonup> PointConfig) result" where
  "insert_point device pm point =
     (if pt_name point = [] then Inl (Invalid_argument ''point name cannot be empty'')
      else if (case (pt_minimum point, pt_maximum point) of
                 (Some lo, Some hi) \<Rightarrow> dlt hi lo | _ \<Rightarrow> False)
           then Inl (Invalid_argument (''invalid range for point: '' @ pt_name point))
      else if pm (pt_name point) \<noteq> None
           then Inl (Invalid_argument (''duplicate point '' @ pt_name point @ '' in device '' @ device))
      else Inr (pm(pt_name point \<mapsto> point)))"

definition insert_device ::
  "(string \<rightharpoonup> (string \<rightharpoonup> PointConfig)) \<Rightarrow> DeviceConfig \<Rightarrow> (string \<rightharpoonup> (string \<rightharpoonup> PointConfig)) result" where
  "insert_device ps device =
     (if dev_id device = [] then Inl (Invalid_argument ''device id cannot be empty'')
      else if ps (dev_id device) \<noteq> None
           then Inl (Invalid_argument (''duplicate device id: '' @ dev_id device))
      else rbind (rfold (insert_point (dev_id device)) Map.empty (dev_points device))
             (\<lambda>pm. Inr (ps(dev_id device \<mapsto> pm))))"

definition Normalizer_new :: "GatewayConfig \<Rightarrow> Normalizer result" where
  "Normalizer_new config =
     rbind (rfold insert_device Map.empty (gw_devices config))
       (\<lambda>ps. Inr \<lparr>nz_points = ps, nz_event_sequence = 0, nz_batches = 0, nz_readings = 0,
                   nz_bad_readings = 0\<rparr>)"

text \<open>One turn of the sample loop of \<open>normalize\<close>: the reading it appends.\<close>

definition normalize_sample ::
  "(double \<Rightarrow> i64) \<Rightarrow> (string \<rightharpoonup> PointConfig) option \<Rightarrow> i64 \<Rightarrow> RawSample \<Rightarrow> Reading" where
  "normalize_sample oob device received_at sample =
     (let (value, quality, unit) =
        (case device of
           None \<Rightarrow> (smp_value sample, Bad, '''')
         | Some pm \<Rightarrow>
             (case pm (smp_point sample) of
                None \<Rightarrow> (smp_value sample, Bad, '''')
              | Some point \<Rightarrow>
                  (let (v, q) = convert_value oob (smp_value sample) point (smp_status sample)
                   in (v, q, pt_unit point))))
      in \<lparr>rd_point = smp_point sample, rd_value = value, rd_quality = quality, rd_unit = unit,
          rd_source_time_ns = (if smp_source_time_ns sample = 0 then received_at
                               else smp_source_time_ns sample),
          rd_received_time_ns = received_at, rd_derived = False\<rparr>)"

fun normalize_samples ::
  "(double \<Rightarrow> i64) \<Rightarrow> (string \<rightharpoonup> PointConfig) option \<Rightarrow> i64 \<Rightarrow> RawSample list \<Rightarrow>
   Reading list \<times> Normalizer \<Rightarrow> Reading list \<times> Normalizer" where
  "normalize_samples oob device t [] (rs, nz) = (rs, nz)"
| "normalize_samples oob device t (x # xs) (rs, nz) =
     (let r = normalize_sample oob device t x;
          nz' = (if rd_quality r \<noteq> Good then nz\<lparr>nz_bad_readings := nz_bad_readings nz + 1\<rparr> else nz)
      in normalize_samples oob device t xs
           (rs @ [r], nz'\<lparr>nz_readings := nz_readings nz' + 1\<rparr>))"

definition event_id_text :: "i64 \<Rightarrow> u64 \<Rightarrow> string" where
  "event_id_text received_at sequence =
     ''event-'' @ to_string_i64 received_at @ ''-'' @ to_string_u64 sequence"

definition normalize :: "(double \<Rightarrow> i64) \<Rightarrow> i64 \<Rightarrow> Normalizer \<Rightarrow> RawBatch \<Rightarrow> Event \<times> Normalizer" where
  "normalize oob received_at nz batch =
     (let sequence = nz_event_sequence nz + 1;
          nz1 = nz\<lparr>nz_event_sequence := sequence\<rparr>;
          (readings, nz2) = normalize_samples oob (nz_points nz (bat_device_id batch)) received_at
                              (bat_samples batch) ([], nz1)
      in (\<lparr>ev_id = event_id_text received_at sequence, ev_device_id = bat_device_id batch,
           ev_source = bat_source batch, ev_readings = readings, ev_model_version = ''''\<rparr>,
          nz2\<lparr>nz_batches := nz_batches nz2 + 1\<rparr>))"

definition Normalizer_stats :: "Normalizer \<Rightarrow> NormalizerStats" where
  "Normalizer_stats nz =
     \<lparr>nzs_batches = nz_batches nz, nzs_readings = nz_readings nz, nzs_bad_readings = nz_bad_readings nz\<rparr>"

text \<open>A sequence of \<open>normalize\<close> calls, each with its clock reading.\<close>

fun normalize_all ::
  "(double \<Rightarrow> i64) \<Rightarrow> Normalizer \<Rightarrow> (i64 \<times> RawBatch) list \<Rightarrow> Event list \<times> Normalizer" where
  "normalize_all oob nz [] = ([], nz)"
| "normalize_all oob nz ((t, b) # bs) =
     (let (e, nz') = normalize oob t nz b; (es, nz'') = normalize_all oob nz' bs in (e # es, nz''))"

section \<open>Reference definitions\<close>

text \<open>What the constructor accepts, and the map it builds, read off the configuration.\<close>

definition inverted_range :: "PointConfig \<Rightarrow> bool" where
  "inverted_range p =
     (case (pt_minimum p, pt_maximum p) of (Some lo, Some hi) \<Rightarrow> dlt hi lo | _ \<Rightarrow> False)"

definition valid_device :: "DeviceConfig \<Rightarrow> bool" where
  "valid_device d \<longleftrightarrow>
     dev_id d \<noteq> [] \<and> distinct (map pt_name (dev_points d)) \<and>
     (\<forall>p \<in> set (dev_points d). pt_name p \<noteq> [] \<and> \<not> inverted_range p)"

definition point_map :: "PointConfig list \<Rightarrow> (string \<rightharpoonup> PointConfig)" where
  "point_map ps = map_of (map (\<lambda>p. (pt_name p, p)) ps)"

definition device_map :: "DeviceConfig list \<Rightarrow> (string \<rightharpoonup> (string \<rightharpoonup> PointConfig))" where
  "device_map ds = map_of (map (\<lambda>d. (dev_id d, point_map (dev_points d))) ds)"

section \<open>Lemmas: conversion\<close>

lemma check_limits_simps [simp]:
  "fst (check_limits c v) = v"
  "snd (check_limits c v) = Good \<longleftrightarrow> \<not> outside_limits c v"
  "check_limits c v = (v', Good) \<longleftrightarrow> v' = v \<and> \<not> outside_limits c v"
  by (auto simp: check_limits_def)

lemma convert_value_not_good: "q \<noteq> Good \<Longrightarrow> convert_value oob v c q = (v, q)"
  by (simp add: convert_value_def)

lemma convert_value_Good:
  assumes "convert_value oob v c q = (v', Good)"
  shows "q = Good" and "scalar_type v' = pt_type c" and "\<not> outside_limits c v'"
proof -
  show q: "q = Good" using assms by (auto simp: convert_value_def split: if_splits)
  show "scalar_type v' = pt_type c" "\<not> outside_limits c v'"
    using assms q by (auto simp: convert_value_def Let_def split: if_splits ValueType.splits
        option.splits Scalar.splits)
qed

lemma int64_bounds:
  "int64_min_double = Finite True (2 ^ 63)"
  "int64_max_double = Finite False (2 ^ 63)"
  unfolding int64_min_double_def int64_max_double_def by code_simp+

lemma wf_scaled_value [simp]: "wf_double (scaled_value n c)"
  by (simp add: scaled_value_def)

lemma convert_integer:
  assumes "pt_type c = VT_Integer" and "numeric_value v = Some n" and "isfinite n"
  shows "convert_value oob v c Good =
     (let scaled = scaled_value n c
      in if dlt scaled int64_min_double \<or> dlt int64_max_double scaled then (v, OutOfRange)
         else check_limits c
                (Int64 (case llround scaled of Some i \<Rightarrow> word_of_int i | None \<Rightarrow> oob scaled)))"
  using assms by (simp add: convert_value_def)

lemma sint_word_of_int: "in_int64 i \<Longrightarrow> sint (word_of_int i :: i64) = i"
  by (simp add: sint_sbintrunc' signed_take_bit_int_eq_self in_int64_def)

section \<open>Lemmas: the constructor\<close>

lemma insert_point_iff:
  "insert_point d pm p = Inr pm' \<longleftrightarrow>
     pt_name p \<noteq> [] \<and> \<not> inverted_range p \<and> pm (pt_name p) = None \<and> pm' = pm(pt_name p \<mapsto> p)"
  by (auto simp: insert_point_def inverted_range_def)

interpretation points: unique_insert
  "insert_point d" pt_name "\<lambda>p. p" "\<lambda>p. pt_name p \<noteq> [] \<and> \<not> inverted_range p" for d
  by unfold_locales (auto simp: insert_point_iff)

lemma insert_device_iff:
  "insert_device ps d = Inr ps' \<longleftrightarrow>
     valid_device d \<and> ps (dev_id d) = None \<and> ps' = ps(dev_id d \<mapsto> point_map (dev_points d))"
  by (auto simp: insert_device_def valid_device_def rbind_Inr_iff points.fold_empty_iff point_map_def)

interpretation devices: unique_insert
  insert_device dev_id "\<lambda>d. point_map (dev_points d)" valid_device
  by unfold_locales (auto simp: insert_device_iff)

section \<open>Lemmas: the sample loop\<close>

lemma normalize_samples_eq:
  "normalize_samples oob device t xs (rs, nz) =
     (let new = map (normalize_sample oob device t) xs
      in (rs @ new,
          nz\<lparr>nz_readings := nz_readings nz + of_nat (length xs),
             nz_bad_readings :=
               nz_bad_readings nz + of_nat (length (filter (\<lambda>r. rd_quality r \<noteq> Good) new))\<rparr>))"
  by (induction xs arbitrary: rs nz) (auto simp: Let_def)

lemma normalize_eq:
  "normalize oob t nz b =
     (let rs = map (normalize_sample oob (nz_points nz (bat_device_id b)) t) (bat_samples b)
      in (\<lparr>ev_id = event_id_text t (nz_event_sequence nz + 1), ev_device_id = bat_device_id b,
           ev_source = bat_source b, ev_readings = rs, ev_model_version = ''''\<rparr>,
          nz\<lparr>nz_event_sequence := nz_event_sequence nz + 1,
             nz_batches := nz_batches nz + 1,
             nz_readings := nz_readings nz + of_nat (length (bat_samples b)),
             nz_bad_readings :=
               nz_bad_readings nz + of_nat (length (filter (\<lambda>r. rd_quality r \<noteq> Good) rs))\<rparr>))"
  by (simp add: normalize_def normalize_samples_eq Let_def)

lemma rd_point_normalize_sample [simp]: "rd_point (normalize_sample oob d t x) = smp_point x"
  by (simp add: normalize_sample_def Let_def split: prod.splits)

lemma normalize_sample_Good:
  assumes "rd_quality (normalize_sample oob device t x) = Good"
  shows "\<exists>pm p. device = Some pm \<and> pm (smp_point x) = Some p \<and> smp_status x = Good \<and>
           scalar_type (rd_value (normalize_sample oob device t x)) = pt_type p \<and>
           rd_unit (normalize_sample oob device t x) = pt_unit p \<and>
           \<not> outside_limits p (rd_value (normalize_sample oob device t x))"
proof -
  obtain pm p where dev: "device = Some pm" "pm (smp_point x) = Some p"
    using assms by (auto simp: normalize_sample_def Let_def split: option.splits)
  obtain v q where c: "convert_value oob (smp_value x) p (smp_status x) = (v, q)"
    by (cases "convert_value oob (smp_value x) p (smp_status x)")
  have "q = Good" using assms dev c by (simp add: normalize_sample_def)
  then show ?thesis using dev c convert_value_Good [of oob "smp_value x" p "smp_status x" v]
    by (simp add: normalize_sample_def)
qed

lemma within_limits_iff:
  "\<not> outside_limits p v \<longleftrightarrow>
     (\<forall>n. numeric_value v = Some n \<longrightarrow> pred_option (\<lambda>lo. \<not> dlt n lo) (pt_minimum p) \<and>
                                pred_option (\<lambda>hi. \<not> dlt hi n) (pt_maximum p))"
  by (auto simp: outside_limits_def split: option.splits)

section \<open>Lemmas: event identifiers\<close>

lemma rev_last_field:
  "CHR ''-'' \<notin> set b \<Longrightarrow> takeWhile (\<lambda>x. x \<noteq> CHR ''-'') (rev (a @ CHR ''-'' # b)) = rev b"
  by (induction b rule: rev_induct) auto

lemma event_id_text_sequence:
  assumes "event_id_text t m = event_id_text t' n"
  shows "m = n"
proof -
  have no: "CHR ''-'' \<notin> set (to_string_u64 w)" for w
    using dec_digits_digits [of "uint w" "CHR ''-''"] by (auto simp: to_string_u64_def)
  have "rev (to_string_u64 w) =
      takeWhile (\<lambda>x. x \<noteq> CHR ''-'') (rev (event_id_text t w))" for t w
    using rev_last_field [OF no [of w], of "''event-'' @ to_string_i64 t"]
    by (simp add: event_id_text_def)
  then have "to_string_u64 m = to_string_u64 n" using assms by (metis rev_rev_ident)
  then show ?thesis by (simp add: to_string_u64_def dec_digits_inject word_uint_eq_iff)
qed

lemma normalize_all_nth:
  "i < length bs \<Longrightarrow>
     ev_id (fst (normalize_all oob nz bs) ! i) =
       event_id_text (fst (bs ! i)) (nz_event_sequence nz + 1 + of_nat i)"
proof (induction bs arbitrary: nz i)
  case Nil
  then show ?case by simp
next
  case (Cons tb bs)
  obtain t b where tb: "tb = (t, b)" by fastforce
  obtain e nz' where n: "normalize oob t nz b = (e, nz')" by fastforce
  have e: "ev_id e = event_id_text t (nz_event_sequence nz + 1)"
    and s: "nz_event_sequence nz' = nz_event_sequence nz + 1"
    using n by (auto simp: normalize_eq Let_def)
  show ?case
  proof (cases i)
    case 0
    then show ?thesis using e n tb by (simp add: case_prod_beta)
  next
    case (Suc j)
    then have "j < length bs" using Cons.prems by simp
    from Cons.IH [OF this, of nz'] Suc n tb s show ?thesis
      by (simp add: case_prod_beta add.assoc)
  qed
qed

lemma length_normalize_all [simp]: "length (fst (normalize_all oob nz bs)) = length bs"
  by (induction bs arbitrary: nz) (auto simp: case_prod_beta)

section \<open>Properties\<close>

text \<open>Normalisation keeps the batch. The event has the batch's device and source and one
  reading per sample, in order and under the sample's point name, stamped with the reception time;
  the counters grow by one batch, by the number of samples, and by the number of readings that are
  not good; the point table is untouched.\<close>

theorem normalize_one_reading_per_sample:
  "let (e, nz') = normalize oob t nz b in
     ev_device_id e = bat_device_id b \<and> ev_source e = bat_source b \<and>
     map rd_point (ev_readings e) = map smp_point (bat_samples b) \<and>
     (\<forall>r. r \<in> set (ev_readings e) \<longrightarrow> rd_received_time_ns r = t \<and> \<not> rd_derived r) \<and>
     nz_points nz' = nz_points nz \<and>
     nz_batches nz' = nz_batches nz + 1 \<and>
     nz_readings nz' = nz_readings nz + of_nat (length (bat_samples b)) \<and>
     nz_bad_readings nz' =
       nz_bad_readings nz + of_nat (length (filter (\<lambda>r. rd_quality r \<noteq> Good) (ev_readings e)))"
  by (auto simp: normalize_eq normalize_sample_def Let_def comp_def split: prod.splits)

definition example_point :: PointConfig where
  "example_point = \<lparr>pt_name = ''t'', pt_type = VT_Integer, pt_unit = ''C'', pt_address = Map.empty,
     pt_scale = Finite False 1, pt_offset = Finite False 0,
     pt_minimum = None, pt_maximum = Some (Finite False 100)\<rparr>"

definition example_normalizer :: Normalizer where
  "example_normalizer = \<lparr>nz_points = [''d'' \<mapsto> [''t'' \<mapsto> example_point]], nz_event_sequence = 0,
     nz_batches = 0, nz_readings = 0, nz_bad_readings = 0\<rparr>"

definition example_batch :: RawBatch where
  "example_batch = \<lparr>bat_device_id = ''d'', bat_source = ''s'',
     bat_samples = [\<lparr>smp_point = ''t'', smp_value = Dbl (Finite False (5 / 2)), smp_status = Good,
                     smp_source_time_ns = 7\<rparr>]\<rparr>"

theorem normalize_one_reading_per_sample_witness:
  "map rd_point (ev_readings (fst (normalize (\<lambda>_. 0) 9 example_normalizer example_batch))) = [''t'']"
  using normalize_one_reading_per_sample [of "\<lambda>_. 0" 9 example_normalizer example_batch]
  by (auto simp: Let_def case_prod_beta example_batch_def)

text \<open>C9: a good reading can be trusted. A reading of quality Good comes from a sample the driver
  marked good, for a configured point of a configured device; it carries that point's unit, its
  value has that point's type, and a numeric value is neither below the point's minimum nor above its
  maximum.\<close>

theorem normalize_good_reading_sound:
  assumes "i < length (bat_samples b)"
    and "r = ev_readings (fst (normalize oob t nz b)) ! i"
    and "rd_quality r = Good"
  shows "\<exists>pm p. nz_points nz (bat_device_id b) = Some pm \<and> pm (rd_point r) = Some p \<and>
           smp_status (bat_samples b ! i) = Good \<and> scalar_type (rd_value r) = pt_type p \<and>
           rd_unit r = pt_unit p \<and>
           (\<forall>n. numeric_value (rd_value r) = Some n \<longrightarrow>
              pred_option (\<lambda>lo. \<not> dlt n lo) (pt_minimum p) \<and> pred_option (\<lambda>hi. \<not> dlt hi n) (pt_maximum p))"
proof -
  have r: "r = normalize_sample oob (nz_points nz (bat_device_id b)) t (bat_samples b ! i)"
    using assms(1,2) by (simp add: normalize_eq Let_def)
  then show ?thesis
    using normalize_sample_Good [of oob "nz_points nz (bat_device_id b)" t "bat_samples b ! i"] assms(3)
    unfolding within_limits_iff by simp
qed

lemma example_reading:
  "ev_readings (fst (normalize (\<lambda>_. 0) 9 example_normalizer example_batch)) =
     [\<lparr>rd_point = ''t'', rd_value = Int64 3, rd_quality = Good, rd_unit = ''C'',
       rd_source_time_ns = 7, rd_received_time_ns = 9, rd_derived = False\<rparr>]"
  by code_simp

theorem normalize_good_reading_sound_witness:
  "\<exists>pm p. nz_points example_normalizer ''d'' = Some pm \<and> pm ''t'' = Some p \<and>
     scalar_type (Int64 3) = pt_type p \<and> pt_maximum p = Some (Finite False 100) \<and>
     pred_option (\<lambda>hi. \<not> dlt hi (double_of_int 3)) (pt_maximum p)"
proof -
  have len: "0 < length (bat_samples example_batch)" "bat_device_id example_batch = ''d''"
    by (simp_all add: example_batch_def)
  show ?thesis
    using normalize_good_reading_sound [OF len(1) refl, of "\<lambda>_. 0" 9 example_normalizer] len(2)
    unfolding example_reading by (auto simp: example_normalizer_def example_point_def)
qed

text \<open>C39: integer points are rounded to nearest. For an integer point and a finite numeric sample
  whose scaled value lies in \<open>[-2\<^sup>6\<^sup>3, 2\<^sup>6\<^sup>3)\<close>, the stored 64-bit integer differs from the scaled value by
  at most one half.\<close>

theorem convert_integer_rounds:
  assumes "pt_type c = VT_Integer" and "numeric_value v = Some n" and "isfinite n"
    and "scaled_value n c = Finite s x"
    and "- (2 ^ 63) \<le> signed_rat s x" and "signed_rat s x < 2 ^ 63"
  shows "\<exists>w. fst (convert_value oob v c Good) = Int64 w \<and>
           \<bar>of_int (sint w) - signed_rat s x\<bar> \<le> 1 / 2"
proof -
  have wf: "wf_double (Finite s x)" by (metis assms(4) wf_scaled_value)
  then have x: "0 \<le> x" by (simp add: representable_nonneg)
  obtain i where i: "llround (Finite s x) = Some i" "in_int64 i" "\<bar>of_int i - signed_rat s x\<bar> \<le> 1 / 2"
    using llround_defined [OF wf refl x assms(5,6)] by blast
  have "\<not> dlt (Finite s x) int64_min_double" "\<not> dlt int64_max_double (Finite s x)"
    using assms(5,6) by (simp_all add: int64_bounds signed_rat_def)
  then have "fst (convert_value oob v c Good) = Int64 (word_of_int i)"
    using i(1) by (simp add: convert_integer [OF assms(1-3)] assms(4) Let_def del: llround.simps)
  moreover have "\<bar>of_int (sint (word_of_int i :: i64)) - signed_rat s x\<bar> \<le> 1 / 2"
    unfolding sint_word_of_int [OF i(2)] by (rule i(3))
  ultimately show ?thesis by blast
qed

theorem convert_integer_rounds_witness:
  "\<exists>w. fst (convert_value (\<lambda>_. 0) (Dbl (Finite True (5 / 2))) example_point Good) = Int64 w \<and>
     \<bar>of_int (sint w) - signed_rat True (5 / 2)\<bar> \<le> 1 / 2"
proof (rule convert_integer_rounds)
  show "scaled_value (Finite True (5 / 2)) example_point = Finite True (5 / 2)" by code_simp
qed (simp_all add: example_point_def signed_rat_def)

text \<open>C40: the range test before \<open>std::llround\<close> lets one value through that does not fit. When the
  scaled value is exactly \<open>2\<^sup>6\<^sup>3\<close> the comparison with \<open>INT64_MAX\<close>, itself rounded to \<open>2\<^sup>6\<^sup>3\<close>, does not reject
  it, and the stored integer is whatever \<open>llround\<close> leaves unspecified.\<close>

theorem convert_integer_overflow_accepted:
  assumes "pt_type c = VT_Integer" and "numeric_value v = Some n" and "isfinite n"
    and "scaled_value n c = Finite False (2 ^ 63)"
  shows "convert_value oob v c Good = check_limits c (Int64 (oob (Finite False (2 ^ 63))))"
proof -
  have "llround (Finite False (2 ^ 63)) = None" by code_simp
  moreover have "\<not> dlt (Finite False (2 ^ 63)) int64_min_double"
    "\<not> dlt int64_max_double (Finite False (2 ^ 63))"
    by (simp_all add: int64_bounds signed_rat_def)
  ultimately show ?thesis by (simp only: convert_integer [OF assms(1-3)] assms(4) Let_def) simp
qed

theorem convert_integer_overflow_accepted_witness:
  "convert_value (\<lambda>_. 5) (Dbl (Finite False (2 ^ 63))) (example_point\<lparr>pt_maximum := None\<rparr>) Good =
     (Int64 5, Good)"
proof -
  have s: "scaled_value (Finite False (2 ^ 63)) (example_point\<lparr>pt_maximum := None\<rparr>) = Finite False (2 ^ 63)"
    by code_simp
  show ?thesis
    using convert_integer_overflow_accepted [OF _ _ _ s, of "Dbl (Finite False (2 ^ 63))" "\<lambda>_. 5"]
    by (simp add: example_point_def check_limits_def outside_limits_def)
qed

text \<open>The constructor accepts exactly the well-formed device lists (non-empty distinct device
  ids, and per device non-empty distinct point names with no inverted limits), and the table it
  builds is the map of the configuration.\<close>

theorem Normalizer_new_iff:
  "Normalizer_new config = Inr nz \<longleftrightarrow>
     distinct (map dev_id (gw_devices config)) \<and> list_all valid_device (gw_devices config) \<and>
     nz = \<lparr>nz_points = device_map (gw_devices config), nz_event_sequence = 0, nz_batches = 0,
           nz_readings = 0, nz_bad_readings = 0\<rparr>"
  by (auto simp: Normalizer_new_def rbind_Inr_iff devices.fold_empty_iff device_map_def list_all_iff)

text \<open>C38: event identifiers are unique. However the clock behaves, the events of up to \<open>2\<^sup>6\<^sup>4\<close>
  successive batches have pairwise different identifiers.\<close>

theorem normalize_all_distinct_ids:
  assumes "length bs \<le> 2 ^ 64"
  shows "distinct (map ev_id (fst (normalize_all oob nz bs)))"
proof (rule distinct_conv_nth [THEN iffD2], intro allI impI)
  fix i j
  assume ij: "i < length (map ev_id (fst (normalize_all oob nz bs)))"
    "j < length (map ev_id (fst (normalize_all oob nz bs)))" "i \<noteq> j"
  then have lt: "i < 2 ^ 64" "j < 2 ^ 64" using assms by auto
  have "(of_nat i :: u64) \<noteq> of_nat j"
    using lt ij(3) by (simp add: word_of_nat_eq_iff take_bit_nat_eq_self)
  then show "map ev_id (fst (normalize_all oob nz bs)) ! i \<noteq> map ev_id (fst (normalize_all oob nz bs)) ! j"
    using ij by (auto simp: normalize_all_nth dest: event_id_text_sequence)
qed

theorem normalize_all_distinct_ids_witness:
  "distinct (map ev_id (fst (normalize_all (\<lambda>_. 0) example_normalizer
     [(9, example_batch), (9, example_batch)])))"
  by (rule normalize_all_distinct_ids) simp

end
