(* ===== verification/Bounded_Queue.thy ===== *)
theory Bounded_Queue
  imports Queue_Contract
begin

text \<open>
  \<open>include/gateway/bounded_queue.hpp\<close>: the acquisition queue, and its place under the
  queue contract.
\<close>

datatype EnqueueResult = Enq_Accepted | Enq_Full | Enq_Stopping

record QueueStats =
  qs_size :: nat
  qs_capacity :: nat
  qs_accepted :: u64
  qs_rejected_full :: u64

record 'a BoundedQueue =
  bq_capacity :: nat
  bq_queue :: "'a list"
  bq_closed :: bool
  bq_accepted :: u64
  bq_rejected_full :: u64

definition BoundedQueue_new :: "nat \<Rightarrow> 'a BoundedQueue result" where
  "BoundedQueue_new capacity =
     (if capacity = 0 then Inl (Invalid_argument ''queue capacity must be positive'')
      else Inr \<lparr>bq_capacity = capacity, bq_queue = [], bq_closed = False, bq_accepted = 0,
                bq_rejected_full = 0\<rparr>)"

definition BoundedQueue_try_push :: "'a BoundedQueue \<Rightarrow> 'a \<Rightarrow> EnqueueResult \<times> 'a BoundedQueue" where
  "BoundedQueue_try_push q value =
     (if bq_closed q then (Enq_Stopping, q)
      else if bq_capacity q \<le> length (bq_queue q)
           then (Enq_Full, q\<lparr>bq_rejected_full := bq_rejected_full q + 1\<rparr>)
      else (Enq_Accepted, q\<lparr>bq_queue := bq_queue q @ [value], bq_accepted := bq_accepted q + 1\<rparr>))"

definition BoundedQueue_wait_pop :: "'a BoundedQueue \<Rightarrow> ('a option \<times> 'a BoundedQueue) option" where
  "BoundedQueue_wait_pop q =
     (case bq_queue q of
        [] \<Rightarrow> if bq_closed q then Some (None, q) else None
      | v # rest \<Rightarrow> Some (Some v, q\<lparr>bq_queue := rest\<rparr>))"

definition BoundedQueue_close :: "'a BoundedQueue \<Rightarrow> 'a BoundedQueue" where
  "BoundedQueue_close q = q\<lparr>bq_closed := True\<rparr>"

definition BoundedQueue_closed :: "'a BoundedQueue \<Rightarrow> bool" where
  "BoundedQueue_closed q = bq_closed q"

definition BoundedQueue_stats :: "'a BoundedQueue \<Rightarrow> QueueStats" where
  "BoundedQueue_stats q =
     \<lparr>qs_size = length (bq_queue q), qs_capacity = bq_capacity q, qs_accepted = bq_accepted q,
      qs_rejected_full = bq_rejected_full q\<rparr>"

text \<open>The push as the contract sees it.\<close>

definition bq_push :: "'a BoundedQueue \<Rightarrow> 'a \<Rightarrow> bool \<times> 'a BoundedQueue" where
  "bq_push q v = (let (r, q') = BoundedQueue_try_push q v in (r = Enq_Accepted, q'))"

lemmas [op_defs] = BoundedQueue_try_push_def BoundedQueue_wait_pop_def BoundedQueue_close_def
  bq_push_def

interpretation bq: bounded_fifo bq_queue bq_capacity bq_closed bq_accepted bq_push
  BoundedQueue_wait_pop BoundedQueue_close
  by unfold_locales (auto simp: op_defs split: list.splits if_splits)

section \<open>Properties\<close>

text \<open>C18: the acquisition queue is first-in first-out and loses nothing. For every interleaving of
  pushes, pops and close, the batches waiting at the start followed by the accepted batches are
  exactly the delivered batches followed by those still waiting, the accepted counter grows by the
  number of accepted batches, and the capacity bound is kept.\<close>

theorem BoundedQueue_fifo:
  assumes "run_queue bq_push BoundedQueue_wait_pop BoundedQueue_close ops q = (q', ins, outs)"
    and "length (bq_queue q) \<le> bq_capacity q"
  shows "bq_queue q @ ins = outs @ bq_queue q' \<and> bq_accepted q' = bq_accepted q + of_nat (length ins) \<and>
         length (bq_queue q') \<le> bq_capacity q' \<and> bq_capacity q' = bq_capacity q"
  using bq.run_fifo [OF assms(1)] bq.run_tally [OF assms(1)] bq.run_bounded [OF assms(2), of ops]
    bq.run_limit [of ops q] assms(1) by simp

definition example_queue :: "nat BoundedQueue" where
  "example_queue = \<lparr>bq_capacity = 2, bq_queue = [], bq_closed = False, bq_accepted = 0, bq_rejected_full = 0\<rparr>"

theorem BoundedQueue_fifo_witness:
  "\<exists>q' ins outs. run_queue bq_push BoundedQueue_wait_pop BoundedQueue_close
       [Push 1, Push 2, Push 3, Pop, Push 4, Close, Push 5, Pop] example_queue = (q', ins, outs) \<and>
     ins = [1, 2, 4] \<and> outs = [1, 2] \<and> bq_queue example_queue @ ins = outs @ bq_queue q'"
proof -
  obtain q' ins outs where r: "run_queue bq_push BoundedQueue_wait_pop BoundedQueue_close
       [Push 1, Push 2, Push 3, Pop, Push 4, Close, Push 5, Pop] example_queue = (q', ins, outs)"
    by (metis prod_cases3)
  have v: "ins = [1, 2, 4]" "outs = [1, 2]"
    using r by (simp_all add: example_queue_def op_defs)
  have "length (bq_queue example_queue) \<le> bq_capacity example_queue" by (simp add: example_queue_def)
  from BoundedQueue_fifo [OF r this] r v show ?thesis by blast
qed

text \<open>Shutting the acquisition queue down is clean. After \<open>close\<close> no push is accepted any more,
  and the processing worker's pop loop ends by itself, having received every batch that was waiting.\<close>

theorem BoundedQueue_close_drains:
  "fst (bq_push (BoundedQueue_close q) v) = False \<and>
   (\<exists>q'. drain_queue BoundedQueue_wait_pop (Suc (length (bq_queue q))) (BoundedQueue_close q) =
           Some (bq_queue q, q') \<and> bq_queue q' = [] \<and> bq_closed q')"
  using bq.drain_closed [of "BoundedQueue_close q" "Suc (length (bq_queue q))"]
    bq.push_iff [of "BoundedQueue_close q" v] bq.close_laws [of q] by simp

end
