(* ===== verification/Runtime.thy ===== *)
theory Runtime
  imports Processing Normalizer Bounded_Queue
begin

text \<open>
  \<open>src/core/runtime.cpp\<close> with the interfaces of \<open>acquisition.hpp\<close>, \<open>event_publisher.hpp\<close> and
  \<open>device_control_source.hpp\<close>: the object that wires queue, normalizer, pipeline, scheduler
  and dispatcher together, validates the configuration, starts everything with rollback
  and stops everything in order. Drivers, publishers and control sources are plugins: they
  are opaque values, their answers come from the record \<open>plugins\<close>, and the
  calls the runtime makes to them are logged in \<open>rt_calls\<close>.
\<close>

section \<open>Interfaces\<close>

datatype AcquisitionMode = Mode_Poll | Mode_Push

datatype EventPublishResult = Pub_Accepted | Pub_Unavailable | Pub_Rejected

record 'd DriverInstance =
  di_device_id :: string
  di_driver :: "'d option"

record 'b EventPublisherInstance =
  pi_id :: string
  pi_publisher :: "'b option"

record AcquisitionStats =
  as_polls :: u64
  as_errors :: u64
  as_deadline_misses :: u64
  as_queue_full :: u64

record EventPublisherStats =
  eps_attempts :: u64
  eps_accepted :: u64
  eps_unavailable :: u64
  eps_rejected :: u64
  eps_errors :: u64

text \<open>
  The answers of plugins and of thread creation; \<^const>\<open>None\<close> is a normal return of a
  call that may throw.
\<close>

record ('d, 'b, 's) plugins =
  pg_driver_configure :: "'d \<Rightarrow> DeviceConfig \<Rightarrow> exn option"
  pg_driver_capabilities :: "'d \<Rightarrow> AcquisitionMode result"
  pg_driver_start :: "'d \<Rightarrow> exn option"
  pg_publisher_configure :: "'b \<Rightarrow> GatewayConfig \<Rightarrow> exn option"
  pg_publisher_start :: "'b \<Rightarrow> exn option"
  pg_publish :: "'b \<Rightarrow> Event \<Rightarrow> EventPublishResult result"
  pg_source_configure :: "'s \<Rightarrow> exn option"
  pg_source_start :: "'s \<Rightarrow> exn option"
  pg_dispatcher_thread :: "exn option"
  pg_worker_thread :: "exn option"
  pg_scheduler_thread :: "exn option"

text \<open>Calls of the runtime; plugins are named by their position.\<close>

datatype call =
    C_publisher_start nat | C_driver_start nat | C_dispatcher_start | C_worker_start
  | C_source_start nat | C_scheduler_start
  | C_source_request_stop nat | C_scheduler_stop | C_dispatcher_stop | C_source_stop nat
  | C_driver_stop nat | C_queue_close | C_worker_join | C_publisher_stop nat
  | C_publish nat Event

section \<open>State\<close>

text \<open>
  What the control sink touches: the flag \<open>accepting_controls_\<close>, the dispatcher, and the
  clock reading a submission takes.
\<close>

record 'c ControlWorld =
  cw_accepting :: bool
  cw_dispatcher :: "'c Dispatcher"
  cw_now :: int

record ('d, 'b, 's, 'p, 'c) GatewayRuntime =
  rt_config :: GatewayConfig
  rt_drivers :: "'d DriverInstance list"
  rt_event_publishers :: "'b EventPublisherInstance list"
  rt_sources :: "'s option list"
  rt_raw_queue :: "RawBatch BoundedQueue"
  rt_normalizer :: Normalizer
  rt_pipeline :: "('p, 'c ControlWorld) ProcessingPipeline"
  rt_driver_modes :: "string \<rightharpoonup> AcquisitionMode"
  rt_io_gates :: "string list"
  rt_control :: "'c ControlWorld"
  rt_scheduler :: "ScheduleTask list SchedulerEngine option"
  rt_worker :: bool
  rt_started :: bool
  rt_stopping :: bool
  rt_stopped :: bool
  rt_polls :: u64
  rt_poll_errors :: u64
  rt_deadline_misses :: u64
  rt_poll_queue_full :: u64
  rt_delivered_events :: u64
  rt_publish_attempts :: u64
  rt_publish_accepted :: u64
  rt_publish_unavailable :: u64
  rt_publish_rejected :: u64
  rt_publish_errors :: u64
  rt_calls :: "call list"

record RuntimeStats =
  rst_raw_queue :: QueueStats
  rst_control_queue :: ControlQueueStats
  rst_control :: ControlStats
  rst_normalizer :: NormalizerStats
  rst_processing :: ProcessingStats
  rst_acquisition :: AcquisitionStats
  rst_scheduler :: SchedulerStats
  rst_event_publishers :: EventPublisherStats
  rst_delivered_events :: u64

section \<open>Lookups\<close>

definition find_device :: "GatewayConfig \<Rightarrow> string \<Rightarrow> DeviceConfig result" where
  "find_device config device_id =
     (case find (\<lambda>item. dev_id item = device_id) (gw_devices config) of
        None \<Rightarrow> Inl (Invalid_argument (''driver references unknown device: '' @ device_id))
      | Some device \<Rightarrow> Inr device)"

definition find_group :: "GatewayConfig \<Rightarrow> string \<Rightarrow> CollectionGroup result" where
  "find_group config group_id =
     (case find (\<lambda>item. grp_id item = group_id) (gw_groups config) of
        None \<Rightarrow> Inl (Out_of_range (''scheduled collection group was not found: '' @ group_id))
      | Some item \<Rightarrow> Inr item)"

definition find_driver :: "'d DriverInstance list \<Rightarrow> string \<Rightarrow> 'd DriverInstance result" where
  "find_driver drivers device_id =
     (case find (\<lambda>item. di_device_id item = device_id) drivers of
        None \<Rightarrow> Inl (Invalid_argument (''group references device without driver: '' @ device_id))
      | Some instance' \<Rightarrow> Inr instance')"

fun find_driver_ptr :: "'d DriverInstance list \<Rightarrow> string \<Rightarrow> 'd option" where
  "find_driver_ptr [] device_id = None"
| "find_driver_ptr (i # is) device_id =
     (if di_device_id i = device_id then di_driver i else find_driver_ptr is device_id)"

text \<open>A gate is named by its device.\<close>

fun find_io_gate :: "string list \<Rightarrow> string \<Rightarrow> string option" where
  "find_io_gate [] device_id = None"
| "find_io_gate (g # gs) device_id = (if g = device_id then Some g else find_io_gate gs device_id)"

section \<open>Control submissions\<close>

definition submit_control ::
  "'d DriverInstance list \<Rightarrow> DeviceControlRequest \<Rightarrow> 'c option \<Rightarrow> 'c ControlWorld \<Rightarrow>
   ControlSubmitResult \<times> 'c ControlWorld" where
  "submit_control drivers request completion w =
     (if \<not> cw_accepting w then (Sub_Stopping, w)
      else let (r, d) = Dispatcher_submit (\<lambda>device. Inr (find_driver_ptr drivers device)) (cw_now w)
                          request completion (cw_dispatcher w)
           in (r, w\<lparr>cw_dispatcher := d\<rparr>))"

section \<open>Construction\<close>

definition validate_driver ::
  "('d, 'b, 's) plugins \<Rightarrow> GatewayConfig \<Rightarrow> string list \<times> (string \<rightharpoonup> AcquisitionMode) \<Rightarrow> 'd DriverInstance \<Rightarrow>
   (string list \<times> (string \<rightharpoonup> AcquisitionMode)) result" where
  "validate_driver pg config = (\<lambda>(driver_devices, driver_modes) i.
     case di_driver i of
       None \<Rightarrow> Inl (Invalid_argument ''every driver instance needs a device id and driver'')
     | Some driver \<Rightarrow>
         if di_device_id i = []
         then Inl (Invalid_argument ''every driver instance needs a device id and driver'')
         else if di_device_id i \<in> set driver_devices
         then Inl (Invalid_argument (''duplicate driver for device: '' @ di_device_id i))
         else rbind (find_device config (di_device_id i)) (\<lambda>device.
                case pg_driver_configure pg driver device of
                  Some e \<Rightarrow> Inl e
                | None \<Rightarrow>
                    rbind (pg_driver_capabilities pg driver) (\<lambda>mode.
                      Inr (di_device_id i # driver_devices, driver_modes(di_device_id i \<mapsto> mode)))))"

definition validate_group ::
  "(string \<rightharpoonup> AcquisitionMode) \<Rightarrow> string list \<Rightarrow> CollectionGroup \<Rightarrow> string list result" where
  "validate_group driver_modes group_ids grp =
     (if grp_id grp = [] \<or> grp_id grp \<in> set group_ids
      then Inl (Invalid_argument ''collection group ids must be non-empty and unique'')
      else if grp_interval grp \<le> 0 \<or> grp_timeout grp \<le> 0
      then Inl (Invalid_argument ''collection group interval and timeout must be positive'')
      else if driver_modes (grp_device_id grp) \<noteq> Some Mode_Poll
      then Inl (Invalid_argument (''push device cannot own a collection group: '' @ grp_id grp))
      else Inr (grp_id grp # group_ids))"

definition validate_publisher ::
  "('d, 'b, 's) plugins \<Rightarrow> GatewayConfig \<Rightarrow> string list \<Rightarrow> 'b EventPublisherInstance \<Rightarrow> string list result" where
  "validate_publisher pg config publisher_ids i =
     (case pi_publisher i of
        None \<Rightarrow> Inl (Invalid_argument ''every event publisher instance needs an id and publisher'')
      | Some publisher \<Rightarrow>
          if pi_id i = []
          then Inl (Invalid_argument ''every event publisher instance needs an id and publisher'')
          else if pi_id i \<in> set publisher_ids
          then Inl (Invalid_argument (''duplicate event publisher: '' @ pi_id i))
          else case pg_publisher_configure pg publisher config of
                 Some e \<Rightarrow> Inl e
               | None \<Rightarrow> Inr (pi_id i # publisher_ids))"

text \<open>\<open>validate_and_configure\<close> returns the acquisition modes it caches.\<close>

definition validate_and_configure ::
  "('d, 'b, 's) plugins \<Rightarrow> GatewayConfig \<Rightarrow> 'd DriverInstance list \<Rightarrow> 'b EventPublisherInstance list \<Rightarrow>
   (string \<rightharpoonup> AcquisitionMode) result" where
  "validate_and_configure pg config drivers publishers =
     rbind (rfold (validate_driver pg config) ([], Map.empty) drivers) (\<lambda>(driver_devices, driver_modes).
       if length driver_devices \<noteq> length (gw_devices config)
       then Inl (Invalid_argument ''each configured device must have one driver instance'')
       else rbind (rfold (validate_group driver_modes) [] (gw_groups config)) (\<lambda>_.
              rbind (rfold (validate_publisher pg config) [] publishers) (\<lambda>_. Inr driver_modes)))"

definition configure_source :: "('d, 'b, 's) plugins \<Rightarrow> unit \<Rightarrow> 's option \<Rightarrow> unit result" where
  "configure_source pg u source =
     (case source of
        None \<Rightarrow> Inl (Invalid_argument ''device control source list contains a null source'')
      | Some s \<Rightarrow> (case pg_source_configure pg s of Some e \<Rightarrow> Inl e | None \<Rightarrow> Inr u))"

definition GatewayRuntime_new ::
  "('d, 'b, 's) plugins \<Rightarrow> GatewayConfig \<Rightarrow> 'd DriverInstance list \<Rightarrow> 'p option list \<Rightarrow>
   'b EventPublisherInstance list \<Rightarrow> 's option list \<Rightarrow> ('d, 'b, 's, 'p, 'c) GatewayRuntime result" where
  "GatewayRuntime_new pg config drivers processors publishers sources =
     rbind (BoundedQueue_new (raw_queue_capacity config)) (\<lambda>raw_queue.
     rbind (Normalizer_new config) (\<lambda>normalizer.
     rbind (ProcessingPipeline_new processors None) (\<lambda>pipeline.
     rbind (validate_and_configure pg config drivers publishers) (\<lambda>modes.
     rbind (Dispatcher_new (control_queue_capacity config) True True) (\<lambda>dispatcher.
     rbind (rfold (configure_source pg) () sources) (\<lambda>_.
     Inr \<lparr>rt_config = config, rt_drivers = drivers, rt_event_publishers = publishers, rt_sources = sources,
          rt_raw_queue = raw_queue, rt_normalizer = normalizer,
          rt_pipeline = set_control_sink pipeline (Some (\<lambda>request. submit_control drivers request None)),
          rt_driver_modes = modes, rt_io_gates = map di_device_id drivers,
          rt_control = \<lparr>cw_accepting = False, cw_dispatcher = dispatcher, cw_now = 0\<rparr>,
          rt_scheduler = None, rt_worker = False, rt_started = False, rt_stopping = False, rt_stopped = False,
          rt_polls = 0, rt_poll_errors = 0, rt_deadline_misses = 0, rt_poll_queue_full = 0,
          rt_delivered_events = 0, rt_publish_attempts = 0, rt_publish_accepted = 0,
          rt_publish_unavailable = 0, rt_publish_rejected = 0, rt_publish_errors = 0, rt_calls = []\<rparr>))))))"

section \<open>Polling\<close>

text \<open>
  What happens around one poll: the clock at its start, the lock attempt on the device's
  gate, what the driver returns, and the clock afterwards.
\<close>

record poll_env =
  pe_now :: int
  pe_lock :: "bool result"
  pe_batch :: "RawBatch result"
  pe_finished :: int

definition poll_attempt ::
  "poll_env \<Rightarrow> ScheduleTask \<Rightarrow> ('d, 'b, 's, 'p, 'c) GatewayRuntime \<Rightarrow> ('d, 'b, 's, 'p, 'c) GatewayRuntime result" where
  "poll_attempt env task rt =
     rbind (find_group (rt_config rt) (task_group_id task)) (\<lambda>grp.
     rbind (find_driver (rt_drivers rt) (grp_device_id grp)) (\<lambda>driver.
       let deadline = pe_now env + ms (grp_timeout grp)
       in case find_io_gate (rt_io_gates rt) (grp_device_id grp) of
            None \<Rightarrow> Inl (Logic_error (''device does not have an I/O gate: '' @ grp_device_id grp))
          | Some gate \<Rightarrow>
              rbind (pe_lock env) (\<lambda>locked.
                if \<not> locked then Inr (rt\<lparr>rt_deadline_misses := rt_deadline_misses rt + 1\<rparr>)
                else rbind (pe_batch env) (\<lambda>batch.
                  let rt1 = (if pe_finished env > deadline
                             then rt\<lparr>rt_deadline_misses := rt_deadline_misses rt + 1\<rparr> else rt);
                      (result, q) = BoundedQueue_try_push (rt_raw_queue rt1) batch;
                      rt2 = rt1\<lparr>rt_raw_queue := q,
                               rt_poll_queue_full := (if result = Enq_Full then rt_poll_queue_full rt1 + 1
                                                      else rt_poll_queue_full rt1)\<rparr>
                  in Inr (rt2\<lparr>rt_polls := rt_polls rt2 + 1\<rparr>)))))"

text \<open>The result is the exception \<open>poll_group\<close> rethrows, if any.\<close>

definition poll_group ::
  "poll_env \<Rightarrow> ScheduleTask \<Rightarrow> ('d, 'b, 's, 'p, 'c) GatewayRuntime \<Rightarrow>
   exn option \<times> ('d, 'b, 's, 'p, 'c) GatewayRuntime" where
  "poll_group env task rt =
     (case poll_attempt env task rt of
        Inl e \<Rightarrow> (Some e, rt\<lparr>rt_poll_errors := rt_poll_errors rt + 1\<rparr>)
      | Inr rt' \<Rightarrow> (None, rt'))"

section \<open>Processing\<close>

definition publish_one ::
  "('d, 'b, 's) plugins \<Rightarrow> Event \<Rightarrow> nat \<times> 'b EventPublisherInstance \<Rightarrow> ('d, 'b, 's, 'p, 'c) GatewayRuntime \<Rightarrow>
   ('d, 'b, 's, 'p, 'c) GatewayRuntime" where
  "publish_one pg event = (\<lambda>(n, i) rt.
     let rt1 = rt\<lparr>rt_publish_attempts := rt_publish_attempts rt + 1, rt_calls := rt_calls rt @ [C_publish n event]\<rparr>
     in case pg_publish pg (the (pi_publisher i)) event of
          Inr Pub_Accepted \<Rightarrow> rt1\<lparr>rt_publish_accepted := rt_publish_accepted rt1 + 1\<rparr>
        | Inr Pub_Unavailable \<Rightarrow> rt1\<lparr>rt_publish_unavailable := rt_publish_unavailable rt1 + 1\<rparr>
        | Inr Pub_Rejected \<Rightarrow> rt1\<lparr>rt_publish_rejected := rt_publish_rejected rt1 + 1\<rparr>
        | Inl _ \<Rightarrow> rt1\<lparr>rt_publish_errors := rt_publish_errors rt1 + 1\<rparr>)"

definition publish_event ::
  "('d, 'b, 's) plugins \<Rightarrow> Event \<Rightarrow> ('d, 'b, 's, 'p, 'c) GatewayRuntime \<Rightarrow> ('d, 'b, 's, 'p, 'c) GatewayRuntime" where
  "publish_event pg event rt = fold (publish_one pg event) (enumerate 0 (rt_event_publishers rt)) rt"

text \<open>
  The environment of the processing worker: what processors do, what \<open>llround\<close> returns
  out of range, and the two clock readings taken for the batch with a given sequence number.
\<close>

record ('p, 'c) worker_env =
  we_process :: "('p, 'c ControlWorld) process_fn"
  we_llround :: "double \<Rightarrow> i64"
  we_received_at :: "u64 \<Rightarrow> i64"
  we_now :: "u64 \<Rightarrow> i64"

definition process_batch ::
  "('d, 'b, 's) plugins \<Rightarrow> ('p, 'c) worker_env \<Rightarrow> RawBatch \<Rightarrow> ('d, 'b, 's, 'p, 'c) GatewayRuntime \<Rightarrow>
   ('d, 'b, 's, 'p, 'c) GatewayRuntime" where
  "process_batch pg we batch rt =
     (let sequence = nz_event_sequence (rt_normalizer rt);
          (event, normalizer) = normalize (we_llround we) (we_received_at we sequence) (rt_normalizer rt) batch;
          (event', pipeline, control) =
            ProcessingPipeline_process (we_process we) (we_now we sequence) (rt_pipeline rt) event (rt_control rt);
          rt1 = rt\<lparr>rt_normalizer := normalizer, rt_pipeline := pipeline, rt_control := control,
                   rt_delivered_events := rt_delivered_events rt + 1\<rparr>
      in publish_event pg event' rt1)"

text \<open>The worker's loop; \<^const>\<open>None\<close> when it would wait for a batch or the fuel is spent.\<close>

fun process_batches ::
  "('d, 'b, 's) plugins \<Rightarrow> ('p, 'c) worker_env \<Rightarrow> nat \<Rightarrow> ('d, 'b, 's, 'p, 'c) GatewayRuntime \<Rightarrow>
   ('d, 'b, 's, 'p, 'c) GatewayRuntime option" where
  "process_batches pg we 0 rt = None"
| "process_batches pg we (Suc n) rt =
     (case BoundedQueue_wait_pop (rt_raw_queue rt) of
        None \<Rightarrow> None
      | Some (None, q) \<Rightarrow> Some (rt\<lparr>rt_raw_queue := q\<rparr>)
      | Some (Some batch, q) \<Rightarrow> process_batches pg we n (process_batch pg we batch (rt\<lparr>rt_raw_queue := q\<rparr>)))"
section \<open>Starting and stopping\<close>

text \<open>
  Code that may throw after having changed the state: the exception, if any, and the
  state at that point.
\<close>

type_synonym 'st action = "'st \<Rightarrow> exn option \<times> 'st"

definition andthen :: "'st action \<Rightarrow> 'st action \<Rightarrow> 'st action" where
  "andthen a b s = (case a s of (Some e, s') \<Rightarrow> (Some e, s') | (None, s') \<Rightarrow> b s')"

fun run_each :: "('x \<Rightarrow> 'st action) \<Rightarrow> 'x list \<Rightarrow> 'st action" where
  "run_each f [] s = (None, s)"
| "run_each f (x # xs) s = (case f x s of (Some e, s') \<Rightarrow> (Some e, s') | (None, s') \<Rightarrow> run_each f xs s')"

definition log_calls :: "call list \<Rightarrow> ('d, 'b, 's, 'p, 'c) GatewayRuntime \<Rightarrow> ('d, 'b, 's, 'p, 'c) GatewayRuntime" where
  "log_calls cs rt = rt\<lparr>rt_calls := rt_calls rt @ cs\<rparr>"

definition with_control ::
  "('c ControlWorld \<Rightarrow> 'c ControlWorld) \<Rightarrow> ('d, 'b, 's, 'p, 'c) GatewayRuntime \<Rightarrow> ('d, 'b, 's, 'p, 'c) GatewayRuntime" where
  "with_control f rt = rt\<lparr>rt_control := f (rt_control rt)\<rparr>"

text \<open>The local variables of \<open>start\<close>.\<close>

record start_locals =
  sl_publishers :: nat
  sl_drivers :: nat
  sl_sources :: nat
  sl_dispatcher :: bool

type_synonym ('d, 'b, 's, 'p, 'c) start_action = "(start_locals \<times> ('d, 'b, 's, 'p, 'c) GatewayRuntime) action"

definition start_publisher :: "('d, 'b, 's) plugins \<Rightarrow> 'b EventPublisherInstance \<Rightarrow> ('d, 'b, 's, 'p, 'c) start_action" where
  "start_publisher pg i = (\<lambda>(l, rt).
     (pg_publisher_start pg (the (pi_publisher i)),
      (l\<lparr>sl_publishers := sl_publishers l + 1\<rparr>, log_calls [C_publisher_start (sl_publishers l)] rt)))"

definition start_driver :: "('d, 'b, 's) plugins \<Rightarrow> 'd DriverInstance \<Rightarrow> ('d, 'b, 's, 'p, 'c) start_action" where
  "start_driver pg i = (\<lambda>(l, rt).
     (pg_driver_start pg (the (di_driver i)),
      (l\<lparr>sl_drivers := sl_drivers l + 1\<rparr>, log_calls [C_driver_start (sl_drivers l)] rt)))"

definition start_source :: "('d, 'b, 's) plugins \<Rightarrow> 's option \<Rightarrow> ('d, 'b, 's, 'p, 'c) start_action" where
  "start_source pg source = (\<lambda>(l, rt).
     (pg_source_start pg (the source),
      (l\<lparr>sl_sources := sl_sources l + 1\<rparr>, log_calls [C_source_start (sl_sources l)] rt)))"

definition start_dispatcher :: "('d, 'b, 's) plugins \<Rightarrow> ('d, 'b, 's, 'p, 'c) start_action" where
  "start_dispatcher pg = (\<lambda>(l, rt).
     case Dispatcher_start (cw_dispatcher (rt_control rt)) of
       Inl e \<Rightarrow> (Some e, (l, rt))
     | Inr d \<Rightarrow>
         (case pg_dispatcher_thread pg of
            Some e \<Rightarrow> (Some e, (l, rt))
          | None \<Rightarrow> (None, (l\<lparr>sl_dispatcher := True\<rparr>,
                       log_calls [C_dispatcher_start] (with_control (\<lambda>w. w\<lparr>cw_dispatcher := d\<rparr>) rt)))))"

definition start_worker :: "('d, 'b, 's) plugins \<Rightarrow> ('d, 'b, 's, 'p, 'c) start_action" where
  "start_worker pg = (\<lambda>(l, rt).
     case pg_worker_thread pg of
       Some e \<Rightarrow> (Some e, (l, rt))
     | None \<Rightarrow> (None, (l, with_control (\<lambda>w. w\<lparr>cw_accepting := True\<rparr>)
                         (log_calls [C_worker_start] (rt\<lparr>rt_worker := True\<rparr>)))))"

definition start_tasks :: "int \<Rightarrow> CollectionGroup list \<Rightarrow> ScheduleTask list" where
  "start_tasks start_time groups =
     map (\<lambda>(index, g). \<lparr>task_group_id = grp_id g, task_interval = grp_interval g,
            task_next_due = start_time + ms (grp_interval g), task_stable_order = index,
            task_skipped_cycles = 0\<rparr>) (enumerate 0 groups)"

definition start_scheduler :: "('d, 'b, 's) plugins \<Rightarrow> int \<Rightarrow> ('d, 'b, 's, 'p, 'c) start_action" where
  "start_scheduler pg start_time = (\<lambda>(l, rt).
     case rbind (policy_new (start_tasks start_time (gw_groups (rt_config rt))))
            (\<lambda>policy. SchedulerEngine_new (Some policy) True) of
       Inl e \<Rightarrow> (Some e, (l, rt))
     | Inr engine \<Rightarrow>
         (case (SchedulerEngine_start engine, pg_scheduler_thread pg) of
            (Inr engine', None) \<Rightarrow> (None, (l, log_calls [C_scheduler_start] (rt\<lparr>rt_scheduler := Some engine'\<rparr>)))
          | (Inl e, _) \<Rightarrow> (Some e, (l, rt\<lparr>rt_scheduler := Some engine\<rparr>))
          | (_, Some e) \<Rightarrow> (Some e, (l, rt\<lparr>rt_scheduler := Some engine\<rparr>))))"

text \<open>The \<open>try\<close> block of \<open>start\<close>.\<close>

definition start_body ::
  "('d, 'b, 's) plugins \<Rightarrow> int \<Rightarrow> ('d, 'b, 's, 'p, 'c) GatewayRuntime \<Rightarrow> ('d, 'b, 's, 'p, 'c) start_action" where
  "start_body pg start_time rt =
     andthen (run_each (start_publisher pg) (rt_event_publishers rt))
    (andthen (run_each (start_driver pg) (rt_drivers rt))
    (andthen (start_dispatcher pg)
    (andthen (start_worker pg)
    (andthen (run_each (start_source pg) (rt_sources rt))
             (start_scheduler pg start_time)))))"

text \<open>
  What other threads do while the stopping thread waits: the dispatcher in which its
  \<open>join\<close> returns, and the batches drivers still push before the raw queue is closed.
\<close>

record 'c stop_env =
  st_alloc_ok :: bool
  st_join :: "'c Dispatcher \<Rightarrow> 'c Dispatcher"
  st_pushed :: "RawBatch list"

text \<open>
  \<open>SchedulerEngine::stop\<close>: the request, after which \<open>run()\<close> leaves its loop at the next test of \<open>stopping_\<close>, and the
  join, which returns once the thread has ended.
\<close>

definition SchedulerEngine_leave :: "'p SchedulerEngine \<Rightarrow> 'p SchedulerEngine" where
  "SchedulerEngine_leave e = (if se_stopping e then e\<lparr>se_running := False\<rparr> else e)"

definition SchedulerEngine_stop :: "'p SchedulerEngine \<Rightarrow> 'p SchedulerEngine option" where
  "SchedulerEngine_stop e = SchedulerEngine_join (SchedulerEngine_leave (SchedulerEngine_request_stop e))"

definition stop_scheduler ::
  "('d, 'b, 's, 'p, 'c) GatewayRuntime \<Rightarrow> ('d, 'b, 's, 'p, 'c) GatewayRuntime option" where
  "stop_scheduler rt =
     (case rt_scheduler rt of
        None \<Rightarrow> Some rt
      | Some e \<Rightarrow> map_option (\<lambda>e'. log_calls [C_scheduler_stop] (rt\<lparr>rt_scheduler := Some e'\<rparr>)) (SchedulerEngine_stop e))"

definition stop_dispatcher ::
  "'c stop_env \<Rightarrow> ('d, 'b, 's, 'p, 'c) GatewayRuntime \<Rightarrow> ('d, 'b, 's, 'p, 'c) GatewayRuntime" where
  "stop_dispatcher env rt =
     log_calls [C_dispatcher_stop]
       (with_control (\<lambda>w. w\<lparr>cw_dispatcher :=
          st_join env (Dispatcher_request_stop (st_alloc_ok env) (cw_dispatcher w))\<rparr>) rt)"

text \<open>Closing the raw queue and joining the worker, which processes what is left.\<close>

definition late_pushes :: "'c stop_env \<Rightarrow> RawBatch BoundedQueue \<Rightarrow> RawBatch BoundedQueue" where
  "late_pushes env = fold (\<lambda>b q. snd (BoundedQueue_try_push q b)) (st_pushed env)"

definition close_and_join ::
  "('d, 'b, 's) plugins \<Rightarrow> ('p, 'c) worker_env \<Rightarrow> 'c stop_env \<Rightarrow> ('d, 'b, 's, 'p, 'c) GatewayRuntime \<Rightarrow>
   ('d, 'b, 's, 'p, 'c) GatewayRuntime option" where
  "close_and_join pg we env rt =
     (let q = late_pushes env (rt_raw_queue rt);
          rt1 = log_calls [C_queue_close] (rt\<lparr>rt_raw_queue := BoundedQueue_close q\<rparr>)
      in if rt_worker rt1
         then map_option (\<lambda>rt2. log_calls [C_worker_join] (rt2\<lparr>rt_worker := False\<rparr>))
                (process_batches pg we (Suc (length (bq_queue (rt_raw_queue rt1)))) rt1)
         else Some rt1)"

definition mark_stopped :: "('d, 'b, 's, 'p, 'c) GatewayRuntime \<Rightarrow> ('d, 'b, 's, 'p, 'c) GatewayRuntime" where
  "mark_stopped rt = rt\<lparr>rt_stopping := False, rt_stopped := True\<rparr>"

text \<open>The \<open>catch\<close> block of \<open>start\<close>.\<close>

definition start_rollback ::
  "('d, 'b, 's) plugins \<Rightarrow> ('p, 'c) worker_env \<Rightarrow> 'c stop_env \<Rightarrow> start_locals \<Rightarrow>
   ('d, 'b, 's, 'p, 'c) GatewayRuntime \<Rightarrow> ('d, 'b, 's, 'p, 'c) GatewayRuntime option" where
  "start_rollback pg we env l rt =
     (let rt1 = (with_control (\<lambda>w. w\<lparr>cw_accepting := False\<rparr>) rt)\<lparr>rt_stopping := True\<rparr>;
          rt2 = log_calls (map C_source_request_stop (rev [0..<sl_sources l])) rt1
      in Option.bind (stop_scheduler rt2) (\<lambda>rt3.
           let rt4 = (if sl_dispatcher l then stop_dispatcher env rt3 else rt3);
               rt5 = log_calls (map C_source_stop (rev [0..<sl_sources l])) rt4;
               rt6 = log_calls (map C_driver_stop (rev [0..<sl_drivers l])) rt5
           in map_option (\<lambda>rt7. mark_stopped (log_calls (map C_publisher_stop (rev [0..<sl_publishers l])) rt7))
                (close_and_join pg we env rt6)))"

definition GatewayRuntime_start ::
  "('d, 'b, 's) plugins \<Rightarrow> ('p, 'c) worker_env \<Rightarrow> 'c stop_env \<Rightarrow> int \<Rightarrow> ('d, 'b, 's, 'p, 'c) GatewayRuntime \<Rightarrow>
   (exn option \<times> ('d, 'b, 's, 'p, 'c) GatewayRuntime) option" where
  "GatewayRuntime_start pg we env start_time rt =
     (if rt_started rt then Some (Some (Logic_error ''gateway runtime can only be started once''), rt)
      else case start_body pg start_time rt
                  (\<lparr>sl_publishers = 0, sl_drivers = 0, sl_sources = 0, sl_dispatcher = False\<rparr>,
                   rt\<lparr>rt_started := True\<rparr>) of
             (None, (l, rt')) \<Rightarrow> Some (None, rt')
           | (Some e, (l, rt')) \<Rightarrow> map_option (Pair (Some e)) (start_rollback pg we env l rt'))"

definition stop_drivers_of :: "AcquisitionMode \<Rightarrow> ('d, 'b, 's, 'p, 'c) GatewayRuntime \<Rightarrow> call list" where
  "stop_drivers_of mode rt =
     map (\<lambda>(n, i). C_driver_stop n)
       (filter (\<lambda>(n, i). rt_driver_modes rt (di_device_id i) = Some mode) (enumerate 0 (rt_drivers rt)))"

text \<open>\<^const>\<open>None\<close> is a call that waits for another thread that is already stopping.\<close>

definition GatewayRuntime_stop ::
  "('d, 'b, 's) plugins \<Rightarrow> ('p, 'c) worker_env \<Rightarrow> 'c stop_env \<Rightarrow> ('d, 'b, 's, 'p, 'c) GatewayRuntime \<Rightarrow>
   ('d, 'b, 's, 'p, 'c) GatewayRuntime option" where
  "GatewayRuntime_stop pg we env rt =
     (if \<not> rt_started rt \<or> rt_stopped rt then Some rt
      else if rt_stopping rt then None
      else
        let rt1 = with_control (\<lambda>w. w\<lparr>cw_accepting := False\<rparr>) (rt\<lparr>rt_stopping := True\<rparr>);
            sources = rev [0..<length (rt_sources rt)];
            rt2 = log_calls (map C_source_request_stop sources) rt1
        in Option.bind (stop_scheduler rt2) (\<lambda>rt2'.
             let rt3 = stop_dispatcher env rt2';
                 rt4 = log_calls (map C_source_stop sources) rt3;
                 rt5 = log_calls (stop_drivers_of Mode_Push rt4) rt4;
                 rt6 = log_calls (stop_drivers_of Mode_Poll rt5) rt5
             in map_option (\<lambda>rt7. mark_stopped
                  (log_calls (map C_publisher_stop (rev [0..<length (rt_event_publishers rt7)])) rt7))
                  (close_and_join pg we env rt6)))"

section \<open>Statistics\<close>

definition GatewayRuntime_stats :: "('d, 'b, 's, 'p, 'c) GatewayRuntime \<Rightarrow> RuntimeStats" where
  "GatewayRuntime_stats rt =
     \<lparr>rst_raw_queue = BoundedQueue_stats (rt_raw_queue rt),
      rst_control_queue = Dispatcher_queue_stats (cw_dispatcher (rt_control rt)),
      rst_control = Dispatcher_stats (cw_dispatcher (rt_control rt)),
      rst_normalizer = Normalizer_stats (rt_normalizer rt),
      rst_processing = ProcessingPipeline_stats (rt_pipeline rt),
      rst_acquisition =
        \<lparr>as_polls = rt_polls rt, as_errors = rt_poll_errors rt, as_deadline_misses = rt_deadline_misses rt,
         as_queue_full = rt_poll_queue_full rt\<rparr>,
      rst_scheduler = (case rt_scheduler rt of None \<Rightarrow> zero_stats | Some e \<Rightarrow> SchedulerEngine_stats e),
      rst_event_publishers =
        \<lparr>eps_attempts = rt_publish_attempts rt, eps_accepted = rt_publish_accepted rt,
         eps_unavailable = rt_publish_unavailable rt, eps_rejected = rt_publish_rejected rt,
         eps_errors = rt_publish_errors rt\<rparr>,
      rst_delivered_events = rt_delivered_events rt\<rparr>"

section \<open>Lemmas on publishing and draining\<close>

fun is_publish :: "call \<Rightarrow> bool" where
  "is_publish (C_publish n e) = True"
| "is_publish _ = False"

definition publish_balance :: "('d, 'b, 's, 'p, 'c) GatewayRuntime \<Rightarrow> u64" where
  "publish_balance rt = rt_publish_attempts rt - (rt_publish_accepted rt + rt_publish_unavailable rt +
     rt_publish_rejected rt + rt_publish_errors rt)"

text \<open>The fields the processing worker never touches.\<close>

definition lifecycle_of where
  "lifecycle_of rt = (rt_config rt, rt_drivers rt, rt_event_publishers rt, rt_sources rt, rt_driver_modes rt,
     rt_io_gates rt, rt_scheduler rt, rt_worker rt, rt_started rt, rt_stopping rt, rt_stopped rt)"

lemma publish_one_effect:
  "publish_balance (publish_one pg e x rt) = publish_balance rt"
  "rt_publish_attempts (publish_one pg e x rt) = rt_publish_attempts rt + 1"
  "rt_calls (publish_one pg e x rt) = rt_calls rt @ [C_publish (fst x) e]"
  "lifecycle_of (publish_one pg e x rt) = lifecycle_of rt"
  "rt_raw_queue (publish_one pg e x rt) = rt_raw_queue rt"
  "rt_delivered_events (publish_one pg e x rt) = rt_delivered_events rt"
  "rt_normalizer (publish_one pg e x rt) = rt_normalizer rt"
  by (cases x; simp add: publish_one_def publish_balance_def lifecycle_of_def Let_def
        split: sum.splits EventPublishResult.splits)+

lemma publish_fold_effect:
  "publish_balance (fold (publish_one pg e) xs rt) = publish_balance rt \<and>
   rt_publish_attempts (fold (publish_one pg e) xs rt) = rt_publish_attempts rt + of_nat (length xs) \<and>
   rt_calls (fold (publish_one pg e) xs rt) = rt_calls rt @ map (\<lambda>x. C_publish (fst x) e) xs \<and>
   lifecycle_of (fold (publish_one pg e) xs rt) = lifecycle_of rt \<and>
   rt_raw_queue (fold (publish_one pg e) xs rt) = rt_raw_queue rt \<and>
   rt_delivered_events (fold (publish_one pg e) xs rt) = rt_delivered_events rt \<and>
   rt_normalizer (fold (publish_one pg e) xs rt) = rt_normalizer rt"
  by (induction xs arbitrary: rt) (simp_all add: publish_one_effect)

lemma map_fst_enumerate_publish:
  "map (\<lambda>x. C_publish (fst x) e) (enumerate n xs) = map (\<lambda>k. C_publish k e) [n..<n + length xs]"
  unfolding map_fst_enumerate [symmetric, of n xs] by (simp only: map_map comp_def)

definition publish_calls :: "nat \<Rightarrow> Event list \<Rightarrow> call list" where
  "publish_calls n es = concat (map (\<lambda>e. map (\<lambda>k. C_publish k e) [0..<n]) es)"

lemma publish_calls_publish: "c \<in> set (publish_calls n es) \<Longrightarrow> is_publish c"
  by (auto simp: publish_calls_def)

lemma filter_publish_calls [simp]:
  "filter (\<lambda>c. \<not> is_publish c) (publish_calls n es) = []"
  using publish_calls_publish by (simp add: filter_empty_conv)

lemma process_batch_effect:
  "\<exists>e. rt_calls (process_batch pg we b rt) = rt_calls rt @ publish_calls (length (rt_event_publishers rt)) [e] \<and>
   publish_balance (process_batch pg we b rt) = publish_balance rt \<and>
   rt_publish_attempts (process_batch pg we b rt) =
     rt_publish_attempts rt + of_nat (length (rt_event_publishers rt)) \<and>
   lifecycle_of (process_batch pg we b rt) = lifecycle_of rt \<and>
   rt_raw_queue (process_batch pg we b rt) = rt_raw_queue rt \<and>
   rt_delivered_events (process_batch pg we b rt) = rt_delivered_events rt + 1"
proof -
  obtain e nz where n: "normalize (we_llround we) (we_received_at we (nz_event_sequence (rt_normalizer rt)))
      (rt_normalizer rt) b = (e, nz)" by (metis surj_pair)
  obtain e' pl w where p: "ProcessingPipeline_process (we_process we)
      (we_now we (nz_event_sequence (rt_normalizer rt))) (rt_pipeline rt) e (rt_control rt) = (e', pl, w)"
    by (metis prod_cases3)
  let ?rt = "rt\<lparr>rt_normalizer := nz, rt_pipeline := pl, rt_control := w,
                rt_delivered_events := rt_delivered_events rt + 1\<rparr>"
  have eq: "process_batch pg we b rt =
      fold (publish_one pg e') (enumerate 0 (rt_event_publishers rt)) ?rt"
    by (simp add: process_batch_def n p Let_def publish_event_def)
  have frame: "publish_balance ?rt = publish_balance rt" "lifecycle_of ?rt = lifecycle_of rt"
    by (simp_all add: publish_balance_def lifecycle_of_def)
  show ?thesis
    unfolding eq using publish_fold_effect [of pg e' "enumerate 0 (rt_event_publishers rt)" ?rt] frame
    by (auto simp: map_fst_enumerate_publish publish_calls_def intro!: exI [of _ e'])
qed

lemma lifecycle_publishers: "lifecycle_of rt = lifecycle_of rt' \<Longrightarrow> rt_event_publishers rt = rt_event_publishers rt'"
  by (simp add: lifecycle_of_def)

text \<open>The relation between the worker's start and its end.\<close>

definition drained where
  "drained rt rt' \<longleftrightarrow>
     (\<exists>es. length es = length (bq_queue (rt_raw_queue rt)) \<and>
        rt_calls rt' = rt_calls rt @ publish_calls (length (rt_event_publishers rt)) es) \<and>
     rt_delivered_events rt' = rt_delivered_events rt + of_nat (length (bq_queue (rt_raw_queue rt))) \<and>
     publish_balance rt' = publish_balance rt \<and> lifecycle_of rt' = lifecycle_of rt \<and>
     bq_queue (rt_raw_queue rt') = [] \<and> bq_closed (rt_raw_queue rt')"

lemma process_batches_drains:
  "bq_closed (rt_raw_queue rt) \<Longrightarrow> length (bq_queue (rt_raw_queue rt)) < n \<Longrightarrow>
     \<exists>rt'. process_batches pg we n rt = Some rt' \<and> drained rt rt'"
proof (induction n arbitrary: rt)
  case (Suc n)
  show ?case
  proof (cases "rt_raw_queue rt" rule: bq.pop_cases)
    case blocked
    then show ?thesis using Suc.prems by simp
  next
    case ended
    then show ?thesis
      by (auto simp: drained_def publish_calls_def publish_balance_def lifecycle_of_def)
  next
    case (popped b q)
    let ?rt = "rt\<lparr>rt_raw_queue := q\<rparr>"
    let ?p = "process_batch pg we b ?rt"
    obtain e where p: "rt_calls ?p = rt_calls rt @ publish_calls (length (rt_event_publishers rt)) [e]"
      "publish_balance ?p = publish_balance rt" "lifecycle_of ?p = lifecycle_of rt" "rt_raw_queue ?p = q"
      "rt_delivered_events ?p = rt_delivered_events rt + 1"
      using process_batch_effect [of pg we b ?rt] by (auto simp: publish_balance_def lifecycle_of_def)
    obtain rt' where rt': "process_batches pg we n ?p = Some rt'" "drained ?p rt'"
      using Suc.IH [of ?p] Suc.prems popped p(4) by auto
    obtain es where es: "length es = length (bq_queue q)"
      "rt_calls rt' = rt_calls ?p @ publish_calls (length (rt_event_publishers rt)) es"
      using rt'(2) p(4) lifecycle_publishers [OF p(3)] by (auto simp: drained_def)
    have "drained rt rt'"
      unfolding drained_def
      using rt'(2) p popped(2) es by (auto simp: drained_def publish_calls_def intro!: exI [of _ "e # es"])
    then show ?thesis using rt'(1) popped(1) by simp
  qed
qed simp
section \<open>Lemmas on starting\<close>

lemma log_calls_simps [simp]:
  "log_calls [] rt = rt" "log_calls ds (log_calls cs rt) = log_calls (cs @ ds) rt"
  "rt_calls (log_calls cs rt) = rt_calls rt @ cs"
  by (simp_all add: log_calls_def)

text \<open>The three start loops share one contract: each turn counts the slot, logs the call, and only
  then learns whether it threw.\<close>

locale counted_start =
  fixes start :: "'x \<Rightarrow> (start_locals \<times> ('d, 'b, 's, 'p, 'c) GatewayRuntime) action"
    and count :: "start_locals \<Rightarrow> nat"
    and bump :: "nat \<Rightarrow> start_locals \<Rightarrow> start_locals"
    and mk :: "nat \<Rightarrow> call"
  assumes start_step: "snd (start x (l, rt)) = (bump 1 l, log_calls [mk (count l)] rt)"
    and count_bump: "count (bump k l) = count l + k"
    and bump_bump: "bump k (bump j l) = bump (j + k) l"
    and bump_0: "bump 0 l = l"
begin

lemma each:
  "run_each start xs (l, rt) = (x, s) \<Longrightarrow>
     \<exists>k \<le> length xs. s = (bump k l, log_calls (map mk [count l..<count l + k]) rt) \<and> (x = None \<longrightarrow> k = length xs)"
proof (induction xs arbitrary: l rt)
  case Nil
  then show ?case by (auto simp: bump_0)
next
  case (Cons y ys)
  obtain r where r: "start y (l, rt) = (r, bump 1 l, log_calls [mk (count l)] rt)"
    using start_step [of y l rt] by (metis prod.collapse)
  show ?case
  proof (cases r)
    case None
    then have "run_each start ys (bump 1 l, log_calls [mk (count l)] rt) = (x, s)" using Cons.prems r by simp
    from Cons.IH [OF this] obtain k where k: "k \<le> length ys"
      "s = (bump k (bump 1 l), log_calls (map mk [count (bump 1 l)..<count (bump 1 l) + k])
              (log_calls [mk (count l)] rt))" "x = None \<longrightarrow> k = length ys" by blast
    have up: "[count l..<Suc (count l + k)] = count l # [Suc (count l)..<Suc (count l + k)]"
      by (simp add: upt_conv_Cons del: upt_Suc)
    show ?thesis
      by (rule exI [of _ "Suc k"])
         (use k in \<open>simp add: bump_bump count_bump up del: upt_Suc\<close>)
  next
    case (Some e)
    then show ?thesis using Cons.prems r by (auto intro!: exI [of _ 1])
  qed
qed

end

interpretation publishers: counted_start "start_publisher pg" sl_publishers
  "\<lambda>k l. l\<lparr>sl_publishers := sl_publishers l + k\<rparr>" C_publisher_start
  by unfold_locales (simp_all add: start_publisher_def algebra_simps)

interpretation drivers: counted_start "start_driver pg" sl_drivers
  "\<lambda>k l. l\<lparr>sl_drivers := sl_drivers l + k\<rparr>" C_driver_start
  by unfold_locales (simp_all add: start_driver_def algebra_simps)

interpretation sources: counted_start "start_source pg" sl_sources
  "\<lambda>k l. l\<lparr>sl_sources := sl_sources l + k\<rparr>" C_source_start
  by unfold_locales (simp_all add: start_source_def algebra_simps)

text \<open>The calls of a start attempt, as a function of how far it got.\<close>

definition start_calls :: "start_locals \<Rightarrow> bool \<Rightarrow> bool \<Rightarrow> call list" where
  "start_calls l worker scheduler =
     map C_publisher_start [0..<sl_publishers l] @ map C_driver_start [0..<sl_drivers l] @
     (if sl_dispatcher l then [C_dispatcher_start] else []) @ (if worker then [C_worker_start] else []) @
     map C_source_start [0..<sl_sources l] @ (if scheduler then [C_scheduler_start] else [])"

definition fresh :: "('d, 'b, 's, 'p, 'c) GatewayRuntime \<Rightarrow> bool" where
  "fresh rt \<longleftrightarrow> \<not> rt_started rt \<and> \<not> rt_stopping rt \<and> \<not> rt_stopped rt \<and> rt_calls rt = [] \<and> \<not> rt_worker rt \<and>
     rt_scheduler rt = None \<and> \<not> bq_closed (rt_raw_queue rt) \<and> bq_queue (rt_raw_queue rt) = []"

text \<open>What the start attempt leaves unchanged.\<close>

definition start_frame where
  "start_frame rt rt' \<longleftrightarrow>
     rt_config rt' = rt_config rt \<and> rt_drivers rt' = rt_drivers rt \<and>
     rt_event_publishers rt' = rt_event_publishers rt \<and> rt_sources rt' = rt_sources rt \<and>
     rt_raw_queue rt' = rt_raw_queue rt \<and> rt_stopping rt' = rt_stopping rt \<and> rt_stopped rt' = rt_stopped rt \<and>
     rt_started rt' = rt_started rt \<and> rt_driver_modes rt' = rt_driver_modes rt \<and>
     rt_delivered_events rt' = rt_delivered_events rt"

lemma start_frame_intros [simp]:
  "start_frame rt rt"
  "start_frame rt (log_calls cs rt') = start_frame rt rt'"
  "start_frame rt (with_control f rt') = start_frame rt rt'"
  "start_frame rt (rt'\<lparr>rt_worker := b\<rparr>) = start_frame rt rt'"
  "start_frame rt (rt'\<lparr>rt_scheduler := x\<rparr>) = start_frame rt rt'"
  by (simp_all add: start_frame_def log_calls_def with_control_def)

definition no_locals :: start_locals where
  "no_locals = \<lparr>sl_publishers = 0, sl_drivers = 0, sl_sources = 0, sl_dispatcher = False\<rparr>"

lemma andthen_cases:
  assumes "andthen a b s = (x, t)"
  obtains (stopped) e where "a s = (Some e, t)" "x = Some e"
  | (continued) u where "a s = (None, u)" "b u = (x, t)"
  using assms by (auto simp: andthen_def split: prod.splits option.splits)

lemma start_dispatcher_cases:
  assumes "start_dispatcher pg (l, rt) = (x, s)"
  obtains (failed) e where "x = Some e" "s = (l, rt)"
  | (ok) d where "x = None"
      "s = (l\<lparr>sl_dispatcher := True\<rparr>, log_calls [C_dispatcher_start] (with_control (\<lambda>w. w\<lparr>cw_dispatcher := d\<rparr>) rt))"
  using assms by (cases "pg_dispatcher_thread pg") (auto simp: start_dispatcher_def dest: sym [of "Some _"] split: sum.splits)

lemma start_worker_cases:
  assumes "start_worker pg (l, rt) = (x, s)"
  obtains (failed) e where "x = Some e" "s = (l, rt)"
  | (ok) "x = None" "s = (l, with_control (\<lambda>w. w\<lparr>cw_accepting := True\<rparr>)
                         (log_calls [C_worker_start] (rt\<lparr>rt_worker := True\<rparr>)))"
  using assms by (cases "pg_worker_thread pg") (auto simp: start_worker_def dest: sym [of "Some _"])

lemma start_scheduler_cases:
  assumes "start_scheduler pg t (l, rt) = (x, s)"
  obtains (failed) e where "x = Some e" "s = (l, rt)"
  | (failed_late) e y where "x = Some e" "s = (l, rt\<lparr>rt_scheduler := Some y\<rparr>)"
  | (ok) y where "x = None" "s = (l, log_calls [C_scheduler_start] (rt\<lparr>rt_scheduler := Some y\<rparr>))"
      "SchedulerEngine_start \<lparr>se_policy = start_tasks t (gw_groups (rt_config rt)), se_started = False,
         se_stopping = False, se_running = False, se_joinable = False, se_stats = zero_stats\<rparr> = Inr y"
proof (cases "policy_new (start_tasks t (gw_groups (rt_config rt)))")
  case (Inl e)
  then show ?thesis using assms failed by (auto simp: start_scheduler_def)
next
  case (Inr p)
  then have p: "p = start_tasks t (gw_groups (rt_config rt))" by (auto simp: policy_new_def rbind_Inr_iff)
  show ?thesis
  proof (cases "pg_scheduler_thread pg")
    case None
    then show ?thesis
      using assms Inr ok by (auto simp: start_scheduler_def SchedulerEngine_new_def SchedulerEngine_start_def p)
  next
    case (Some e)
    then have "(x, s) = (Some e, (l, rt\<lparr>rt_scheduler := Some \<lparr>se_policy = p, se_started = False,
        se_stopping = False, se_running = False, se_joinable = False, se_stats = zero_stats\<rparr>\<rparr>))"
      using assms Inr by (simp add: start_scheduler_def SchedulerEngine_new_def SchedulerEngine_start_def)
    then show ?thesis using failed_late by blast
  qed
qed

text \<open>A start goes on to the next group only when the one before is complete; \<open>n\<close> publishers are configured.\<close>

definition in_start_order :: "nat \<Rightarrow> start_locals \<Rightarrow> bool \<Rightarrow> bool" where
  "in_start_order n l worker \<longleftrightarrow>
     (sl_dispatcher l \<longrightarrow> sl_publishers l = n) \<and> (worker \<longrightarrow> sl_dispatcher l) \<and> (0 < sl_sources l \<longrightarrow> worker)"

text \<open>How far a start got, its calls and what it left alone.\<close>

definition started_as where
  "started_as rt0 x l rt \<longleftrightarrow>
     start_frame rt0 rt \<and>
     sl_publishers l \<le> length (rt_event_publishers rt0) \<and> sl_drivers l \<le> length (rt_drivers rt0) \<and>
     sl_sources l \<le> length (rt_sources rt0) \<and>
     rt_calls rt = start_calls l (rt_worker rt) (x = None) \<and>
     in_start_order (length (rt_event_publishers rt0)) l (rt_worker rt) \<and>
     (x = None \<longrightarrow> sl_publishers l = length (rt_event_publishers rt0) \<and> sl_drivers l = length (rt_drivers rt0) \<and>
        sl_sources l = length (rt_sources rt0) \<and> sl_dispatcher l \<and> rt_worker rt \<and>
        (\<exists>y. rt_scheduler rt = Some y \<and> se_running y))"

lemma with_control_simps [simp]:
  "rt_calls (with_control f rt) = rt_calls rt" "rt_worker (with_control f rt) = rt_worker rt"
  "rt_worker (log_calls cs rt) = rt_worker rt" "rt_scheduler (log_calls cs rt) = rt_scheduler rt"
  by (simp_all add: with_control_def log_calls_def)

lemma start_tail:
  assumes body: "andthen (start_worker pg) (andthen (run_each (start_source pg) (rt_sources rt)) (start_scheduler pg t))
      (l1, rt1) = (x, (l, rt'))"
    and l1: "sl_sources l1 = 0" "sl_dispatcher l1" "sl_publishers l1 = length (rt_event_publishers rt)"
      "sl_drivers l1 = length (rt_drivers rt)"
    and rt1: "rt_calls rt1 = start_calls l1 False False" "\<not> rt_worker rt1" "start_frame rt rt1"
  shows "started_as rt x l rt'"
  using body
proof (cases rule: andthen_cases)
  case (stopped e)
  then show ?thesis
    using l1 rt1 by (cases rule: start_worker_cases) (auto simp: started_as_def in_start_order_def)
next
  case (continued u)
  let ?rt2 = "with_control (\<lambda>w. w\<lparr>cw_accepting := True\<rparr>) (log_calls [C_worker_start] (rt1\<lparr>rt_worker := True\<rparr>))"
  have u: "u = (l1, ?rt2)" using continued(1) by (cases rule: start_worker_cases) auto
  have calls: "rt_calls rt1 = map C_publisher_start [0..<length (rt_event_publishers rt)] @
      map C_driver_start [0..<length (rt_drivers rt)] @ [C_dispatcher_start]"
    using l1 rt1(1) by (simp add: start_calls_def)
  have log: "rt_calls (log_calls cs (rt1\<lparr>rt_worker := b\<rparr>)) = rt_calls rt1 @ cs" for cs b by simp
  from continued(2) [unfolded u] show ?thesis
  proof (cases rule: andthen_cases)
    case (stopped e)
    then show ?thesis
      using sources.each [OF stopped(1)] l1 rt1(2,3) calls
      by (auto simp: started_as_def in_start_order_def start_calls_def)
  next
    case (continued v)
    from sources.each [OF continued(1)] l1(1)
    have v: "v = (l1\<lparr>sl_sources := length (rt_sources rt)\<rparr>,
        log_calls (map C_source_start [0..<length (rt_sources rt)]) ?rt2)" by simp
    from continued(2) [unfolded v] show ?thesis
      using l1 rt1(2,3) calls
      by (cases rule: start_scheduler_cases)
         (auto simp: started_as_def in_start_order_def start_calls_def SchedulerEngine_start_def)
  qed
qed

lemma start_body_trace:
  assumes rt: "rt_calls rt = []" "\<not> rt_worker rt"
    and body: "start_body pg t rt0 (no_locals, rt) = (x, (l, rt'))"
    and rt0: "rt_event_publishers rt0 = rt_event_publishers rt" "rt_drivers rt0 = rt_drivers rt"
      "rt_sources rt0 = rt_sources rt"
  shows "started_as rt x l rt'"
  using body unfolding start_body_def rt0
proof (cases rule: andthen_cases)
  case (stopped e)
  then show ?thesis
    using publishers.each [OF stopped(1)] rt by (auto simp: started_as_def in_start_order_def start_calls_def no_locals_def)
next
  case (continued u)
  from publishers.each [OF continued(1)]
  have u: "u = (no_locals\<lparr>sl_publishers := length (rt_event_publishers rt)\<rparr>,
      log_calls (map C_publisher_start [0..<length (rt_event_publishers rt)]) rt)"
    by (simp add: no_locals_def)
  from continued(2) [unfolded u] show ?thesis
  proof (cases rule: andthen_cases)
    case (stopped e)
    then show ?thesis
      using drivers.each [OF stopped(1)] rt by (auto simp: started_as_def in_start_order_def start_calls_def no_locals_def)
  next
    case (continued v)
    from drivers.each [OF continued(1)]
    have v: "v = (no_locals\<lparr>sl_publishers := length (rt_event_publishers rt), sl_drivers := length (rt_drivers rt)\<rparr>,
        log_calls (map C_publisher_start [0..<length (rt_event_publishers rt)] @
          map C_driver_start [0..<length (rt_drivers rt)]) rt)"
      by (simp add: no_locals_def)
    from continued(2) [unfolded v] show ?thesis
    proof (cases rule: andthen_cases)
      case (stopped e)
      then show ?thesis
        using rt by (cases rule: start_dispatcher_cases) (auto simp: started_as_def in_start_order_def start_calls_def no_locals_def)
    next
      case (continued w)
      from continued(1) show ?thesis
      proof (cases rule: start_dispatcher_cases)
        case (ok d)
        show ?thesis
          by (rule start_tail [OF continued(2) [unfolded ok(2)]])
             (use rt in \<open>simp_all add: start_calls_def no_locals_def\<close>)
      qed simp
    qed
  qed
qed

section \<open>Lemmas on construction\<close>

definition good_group :: "(string \<rightharpoonup> AcquisitionMode) \<Rightarrow> CollectionGroup \<Rightarrow> bool" where
  "good_group modes g \<longleftrightarrow> grp_id g \<noteq> [] \<and> 0 < grp_interval g \<and> 0 < grp_timeout g \<and>
     modes (grp_device_id g) = Some Mode_Poll"

interpretation groups: unique_names "validate_group modes" grp_id "good_group modes"
  by unfold_locales (auto simp: validate_group_def good_group_def)

interpretation publisher_names: unique_names "validate_publisher pg config" pi_id
  "\<lambda>i. pi_id i \<noteq> [] \<and> (\<exists>p. pi_publisher i = Some p \<and> pg_publisher_configure pg p config = None)"
  by unfold_locales (auto simp: validate_publisher_def split: option.splits)

lemma validate_driver_iff:
  "validate_driver pg config (ids, modes) i = Inr (ids', modes') \<longleftrightarrow>
     (\<exists>driver device mode. di_driver i = Some driver \<and> di_device_id i \<noteq> [] \<and> di_device_id i \<notin> set ids \<and>
        find_device config (di_device_id i) = Inr device \<and> pg_driver_configure pg driver device = None \<and>
        pg_driver_capabilities pg driver = Inr mode \<and>
        ids' = di_device_id i # ids \<and> modes' = modes(di_device_id i \<mapsto> mode))"
  by (auto simp: validate_driver_def rbind_def split: option.splits sum.splits)

lemma find_device_known: "find_device config d = Inr device \<Longrightarrow> d \<in> dev_id ` set (gw_devices config)"
  by (auto simp: find_device_def find_Some_iff split: option.splits)

definition good_driver :: "('d, 'b, 's) plugins \<Rightarrow> GatewayConfig \<Rightarrow> 'd DriverInstance \<Rightarrow> AcquisitionMode \<Rightarrow> bool" where
  "good_driver pg config i mode \<longleftrightarrow>
     di_device_id i \<in> dev_id ` set (gw_devices config) \<and>
     (\<exists>driver. di_driver i = Some driver \<and> pg_driver_capabilities pg driver = Inr mode)"

lemma validate_drivers:
  "rfold (validate_driver pg config) (ids, modes) is = Inr (ids', modes') \<Longrightarrow>
     distinct (map di_device_id is) \<and> set (map di_device_id is) \<inter> set ids = {} \<and>
     ids' = rev (map di_device_id is) @ ids \<and>
     (\<forall>d. d \<notin> di_device_id ` set is \<longrightarrow> modes' d = modes d) \<and>
     (\<forall>i \<in> set is. \<exists>mode. modes' (di_device_id i) = Some mode \<and> good_driver pg config i mode)"
proof (induction "is" arbitrary: ids modes)
  case (Cons i "is")
  from Cons.prems obtain ids1 modes1 where
    s: "validate_driver pg config (ids, modes) i = Inr (ids1, modes1)"
      "rfold (validate_driver pg config) (ids1, modes1) is = Inr (ids', modes')"
    unfolding rfold_Cons_iff by auto
  from s(1) obtain driver device mode where
    v: "di_driver i = Some driver" "di_device_id i \<notin> set ids" "find_device config (di_device_id i) = Inr device"
      "pg_driver_capabilities pg driver = Inr mode" "ids1 = di_device_id i # ids"
      "modes1 = modes(di_device_id i \<mapsto> mode)"
    unfolding validate_driver_iff by blast
  note ih = Cons.IH [OF s(2)]
  have fresh: "di_device_id i \<notin> di_device_id ` set is" using ih v(5) by auto
  then have "modes' (di_device_id i) = Some mode" using ih v(6) by simp
  moreover have "good_driver pg config i mode"
    using v find_device_known by (auto simp: good_driver_def)
  ultimately show ?case using ih v fresh by auto
qed auto

text \<open>A configuration the constructor accepts.\<close>

definition consistent where
  "consistent rt \<longleftrightarrow>
     distinct (map dev_id (gw_devices (rt_config rt))) \<and>
     distinct (map di_device_id (rt_drivers rt)) \<and>
     set (map di_device_id (rt_drivers rt)) = set (map dev_id (gw_devices (rt_config rt))) \<and>
     (\<forall>i \<in> set (rt_drivers rt). di_driver i \<noteq> None \<and> rt_driver_modes rt (di_device_id i) \<noteq> None) \<and>
     (\<forall>d. d \<notin> di_device_id ` set (rt_drivers rt) \<longrightarrow> rt_driver_modes rt d = None) \<and>
     distinct (map grp_id (gw_groups (rt_config rt))) \<and>
     (\<forall>g \<in> set (gw_groups (rt_config rt)). good_group (rt_driver_modes rt) g) \<and>
     (\<forall>i \<in> set (rt_event_publishers rt). pi_publisher i \<noteq> None) \<and>
     rt_io_gates rt = map di_device_id (rt_drivers rt)"

lemma validate_modes:
  assumes "validate_and_configure pg config drivers publishers = Inr modes"
  shows "distinct (map di_device_id drivers) \<and> length drivers = length (gw_devices config) \<and>
    (\<forall>i \<in> set drivers. \<exists>mode. modes (di_device_id i) = Some mode \<and> good_driver pg config i mode) \<and>
    (\<forall>d. d \<notin> di_device_id ` set drivers \<longrightarrow> modes d = None) \<and>
    distinct (map grp_id (gw_groups config)) \<and> (\<forall>g \<in> set (gw_groups config). good_group modes g) \<and>
    (\<forall>i \<in> set publishers. pi_publisher i \<noteq> None)"
proof -
  from assms obtain ids where
    a: "rfold (validate_driver pg config) ([], Map.empty) drivers = Inr (ids, modes)"
      "length ids = length (gw_devices config)"
      "\<exists>x. rfold (validate_group modes) [] (gw_groups config) = Inr x"
      "\<exists>x. rfold (validate_publisher pg config) [] publishers = Inr x"
    by (auto simp: validate_and_configure_def rbind_Inr_iff split: if_splits)
  show ?thesis
    using validate_drivers [OF a(1)] a(2-4) by (auto simp: groups.fold_iff publisher_names.fold_iff)
qed

lemma new_parts:
  assumes "GatewayRuntime_new pg config drivers processors publishers sources = Inr rt"
  shows "\<exists>nz modes. Normalizer_new config = Inr nz \<and>
    validate_and_configure pg config drivers publishers = Inr modes \<and> rt_driver_modes rt = modes \<and>
    rt_config rt = config \<and> rt_drivers rt = drivers \<and> rt_event_publishers rt = publishers \<and>
    rt_sources rt = sources \<and> rt_io_gates rt = map di_device_id drivers \<and> fresh rt"
  using assms
  by (auto simp: GatewayRuntime_new_def rbind_Inr_iff fresh_def BoundedQueue_new_def split: if_splits)

lemma new_consistent:
  assumes "GatewayRuntime_new pg config drivers processors publishers sources = Inr rt"
  shows "consistent rt \<and> fresh rt"
proof -
  from new_parts [OF assms] obtain nz modes where
    p: "Normalizer_new config = Inr nz" "validate_and_configure pg config drivers publishers = Inr modes"
      "rt_driver_modes rt = modes" "rt_config rt = config" "rt_drivers rt = drivers"
      "rt_event_publishers rt = publishers" "rt_io_gates rt = map di_device_id drivers" "fresh rt" by blast
  have dev: "distinct (map dev_id (gw_devices config))"
    using p(1) by (auto simp: Normalizer_new_def rbind_Inr_iff devices.fold_empty_iff)
  note v = validate_modes [OF p(2)]
  have sub: "set (map di_device_id drivers) \<subseteq> set (map dev_id (gw_devices config))"
    using v by (fastforce simp: good_driver_def)
  have "card (set (map di_device_id drivers)) = card (set (map dev_id (gw_devices config)))"
    using v dev distinct_card by (metis length_map)
  with sub have "set (map di_device_id drivers) = set (map dev_id (gw_devices config))"
    by (simp add: card_subset_eq)
  then show ?thesis
    using v dev p by (fastforce simp: consistent_def good_driver_def)
qed

lemma find_driver_ptr_map:
  "distinct (map di_device_id is) \<Longrightarrow> i \<in> set is \<Longrightarrow> find_driver_ptr is (di_device_id i) = di_driver i"
  by (induction "is") (auto simp: image_iff)

lemma find_driver_ptr_None: "d \<notin> di_device_id ` set is \<Longrightarrow> find_driver_ptr is d = None"
  by (induction "is") auto

lemma find_io_gate_iff: "find_io_gate gs d = (if d \<in> set gs then Some d else None)"
  by (induction gs) auto

lemma enumerate_conv_groups: "map (task_group_id) (start_tasks t gs) = map grp_id gs"
proof -
  have "map task_group_id (start_tasks t gs) = map grp_id (map snd (enumerate 0 gs))"
    unfolding start_tasks_def map_map by (rule map_cong) auto
  then show ?thesis by simp
qed

lemma start_tasks_intervals: "t' \<in> set (start_tasks t gs) \<Longrightarrow> \<exists>g \<in> set gs. task_interval t' = grp_interval g"
proof -
  assume "t' \<in> set (start_tasks t gs)"
  then obtain n g where "(n, g) \<in> set (enumerate 0 gs)" "task_interval t' = grp_interval g"
    by (auto simp: start_tasks_def)
  then show ?thesis by (metis map_snd_enumerate image_eqI list.set_map snd_conv)
qed

lemma policy_accepts_tasks:
  assumes "distinct (map task_group_id ts)" "[] \<notin> set (map task_group_id ts)" "valid_tasks ts"
  shows "policy_new ts = Inr ts"
  using assms by (auto simp: policy_new_def rbind_Inr_iff rfold_check_task valid_tasks_def image_iff)

section \<open>Lemmas on stopping\<close>

lemma close_and_join_returns:
  "\<exists>rt' es. close_and_join pg we env rt = Some rt' \<and>
     rt_calls rt' = rt_calls rt @ [C_queue_close] @ publish_calls (length (rt_event_publishers rt)) es @
       (if rt_worker rt then [C_worker_join] else []) \<and>
     length es = (if rt_worker rt then length (bq_queue (late_pushes env (rt_raw_queue rt))) else 0) \<and>
     rt_delivered_events rt' = rt_delivered_events rt + of_nat (length es) \<and>
     bq_closed (rt_raw_queue rt') \<and> (rt_worker rt \<longrightarrow> bq_queue (rt_raw_queue rt') = []) \<and> \<not> rt_worker rt' \<and>
     rt_event_publishers rt' = rt_event_publishers rt \<and> rt_started rt' = rt_started rt \<and>
     rt_scheduler rt' = rt_scheduler rt"
proof (cases "rt_worker rt")
  case False
  then show ?thesis
    by (auto simp: close_and_join_def Let_def log_calls_def publish_calls_def BoundedQueue_close_def)
next
  case True
  let ?rt = "log_calls [C_queue_close] (rt\<lparr>rt_raw_queue := BoundedQueue_close (late_pushes env (rt_raw_queue rt))\<rparr>)"
  have c: "bq_closed (rt_raw_queue ?rt)" "rt_worker ?rt" "bq_queue (rt_raw_queue ?rt) = bq_queue (late_pushes env (rt_raw_queue rt))"
    "rt_event_publishers ?rt = rt_event_publishers rt" "rt_delivered_events ?rt = rt_delivered_events rt"
    "rt_calls ?rt = rt_calls rt @ [C_queue_close]"
    using True by (simp_all add: log_calls_def BoundedQueue_close_def)
  obtain rt' where rt': "process_batches pg we (Suc (length (bq_queue (rt_raw_queue ?rt)))) ?rt = Some rt'"
    "drained ?rt rt'"
    using process_batches_drains [OF c(1), of "Suc (length (bq_queue (rt_raw_queue ?rt)))" pg we] by auto
  then obtain es where "length es = length (bq_queue (late_pushes env (rt_raw_queue rt)))"
    "rt_calls rt' = rt_calls rt @ [C_queue_close] @ publish_calls (length (rt_event_publishers rt)) es"
    by (auto simp: drained_def c)
  moreover have "close_and_join pg we env rt = Some (log_calls [C_worker_join] (rt'\<lparr>rt_worker := False\<rparr>))"
    using rt'(1) c(2) by (simp add: close_and_join_def Let_def)
  moreover have "lifecycle_of rt' = lifecycle_of ?rt" "bq_queue (rt_raw_queue rt') = []"
    "bq_closed (rt_raw_queue rt')"
    "rt_delivered_events rt' = rt_delivered_events rt + of_nat (length (bq_queue (late_pushes env (rt_raw_queue rt))))"
    using rt'(2) by (simp_all add: drained_def c)
  ultimately show ?thesis
    using True by (auto simp: log_calls_def lifecycle_of_def intro!: exI [of _ es])
qed

text \<open>The engine after \<^const>\<open>SchedulerEngine_stop\<close>, which returns because \<open>stopping_\<close> is set before the join.\<close>

definition scheduler_stopped ::
  "('d, 'b, 's, 'p, 'c) GatewayRuntime \<Rightarrow> ('d, 'b, 's, 'p, 'c) GatewayRuntime" where
  "scheduler_stopped rt =
     (case rt_scheduler rt of
        None \<Rightarrow> rt
      | Some e \<Rightarrow> log_calls [C_scheduler_stop]
          (rt\<lparr>rt_scheduler := Some (e\<lparr>se_stopping := True, se_running := False, se_joinable := False\<rparr>)\<rparr>))"

lemma stop_returns [simp]:
  "SchedulerEngine_stop e = Some (e\<lparr>se_stopping := True, se_running := False, se_joinable := False\<rparr>)"
  by (simp add: SchedulerEngine_stop_def SchedulerEngine_leave_def SchedulerEngine_request_stop_def SchedulerEngine_join_def)

lemma stop_scheduler_returns [simp]: "stop_scheduler rt = Some (scheduler_stopped rt)"
  by (simp add: stop_scheduler_def scheduler_stopped_def split: option.split)

lemma scheduler_stopped_effect:
  "\<exists>scheduler. rt_calls (scheduler_stopped rt) = rt_calls rt @ (if scheduler then [C_scheduler_stop] else []) \<and>
     (scheduler \<longleftrightarrow> rt_scheduler rt \<noteq> None)"
  "rt_event_publishers (scheduler_stopped rt) = rt_event_publishers rt" "rt_drivers (scheduler_stopped rt) = rt_drivers rt"
  "rt_sources (scheduler_stopped rt) = rt_sources rt" "rt_worker (scheduler_stopped rt) = rt_worker rt"
  "rt_started (scheduler_stopped rt) = rt_started rt" "rt_raw_queue (scheduler_stopped rt) = rt_raw_queue rt"
  "rt_driver_modes (scheduler_stopped rt) = rt_driver_modes rt"
  "rt_delivered_events (scheduler_stopped rt) = rt_delivered_events rt"
  by (auto simp: scheduler_stopped_def log_calls_def split: option.splits)

lemmas stop_frame_simps = scheduler_stopped_effect(2-) log_calls_def with_control_def stop_dispatcher_def mark_stopped_def

lemma rollback_calls:
  assumes "start_rollback pg we env l rt = Some rt'"
    and "rt_calls rt = start_calls l (rt_worker rt) False" and "rt_event_publishers rt = publishers"
    and "rt_started rt"
  shows "\<exists>worker scheduler es.
    worker = rt_worker rt \<and> (es \<noteq> [] \<longrightarrow> worker) \<and>
    rt_calls rt' = start_calls l worker False @
      map C_source_request_stop (rev [0..<sl_sources l]) @
      (if scheduler then [C_scheduler_stop] else []) @
      (if sl_dispatcher l then [C_dispatcher_stop] else []) @
      map C_source_stop (rev [0..<sl_sources l]) @
      map C_driver_stop (rev [0..<sl_drivers l]) @
      [C_queue_close] @ publish_calls (length publishers) es @
      (if worker then [C_worker_join] else []) @
      map C_publisher_stop (rev [0..<sl_publishers l]) \<and>
    rt_started rt' \<and> rt_stopped rt' \<and> \<not> rt_stopping rt' \<and> \<not> rt_worker rt' \<and> bq_closed (rt_raw_queue rt')"
proof -
  let ?rt2 = "log_calls (map C_source_request_stop (rev [0..<sl_sources l]))
    ((with_control (\<lambda>w. w\<lparr>cw_accepting := False\<rparr>) rt)\<lparr>rt_stopping := True\<rparr>)"
  let ?rt4 = "if sl_dispatcher l then stop_dispatcher env (scheduler_stopped ?rt2) else scheduler_stopped ?rt2"
  let ?rt6 = "log_calls (map C_driver_stop (rev [0..<sl_drivers l])) (log_calls (map C_source_stop (rev [0..<sl_sources l])) ?rt4)"
  obtain scheduler where sch: "rt_calls (scheduler_stopped ?rt2) = rt_calls ?rt2 @ (if scheduler then [C_scheduler_stop] else [])"
    using scheduler_stopped_effect(1) [of ?rt2] by blast
  have calls: "rt_calls ?rt6 = start_calls l (rt_worker rt) False @
      map C_source_request_stop (rev [0..<sl_sources l]) @ (if scheduler then [C_scheduler_stop] else []) @
      (if sl_dispatcher l then [C_dispatcher_stop] else []) @
      map C_source_stop (rev [0..<sl_sources l]) @ map C_driver_stop (rev [0..<sl_drivers l])"
    using sch assms(2) by (simp add: stop_dispatcher_def with_control_def)
  have frame: "rt_worker ?rt6 = rt_worker rt" "rt_event_publishers ?rt6 = publishers" "rt_started ?rt6"
    using assms(3,4) by (simp_all add: stop_frame_simps)
  obtain rt7 es where rt7: "close_and_join pg we env ?rt6 = Some rt7"
    "rt_calls rt7 = rt_calls ?rt6 @ [C_queue_close] @ publish_calls (length publishers) es @
       (if rt_worker rt then [C_worker_join] else [])"
    "bq_closed (rt_raw_queue rt7)" "\<not> rt_worker rt7" "rt_started rt7" "es \<noteq> [] \<longrightarrow> rt_worker rt"
    using close_and_join_returns [of pg we env ?rt6] frame by auto
  have "rt' = mark_stopped (log_calls (map C_publisher_stop (rev [0..<sl_publishers l])) rt7)"
    using assms(1) rt7(1) by (simp add: start_rollback_def Let_def)
  then show ?thesis
    using rt7(2-) calls by (auto simp: mark_stopped_def log_calls_def)
qed

section \<open>Lemmas for the properties\<close>

lemma mset_two_filters:
  "\<forall>x \<in> set xs. P x \<noteq> Q x \<Longrightarrow> mset (map f (filter P xs) @ map f (filter Q xs)) = mset (map f xs)"
  by (induction xs) auto

lemma stop_drivers_once:
  assumes "\<forall>i \<in> set (rt_drivers rt). rt_driver_modes rt (di_device_id i) \<noteq> None"
  shows "mset (stop_drivers_of Mode_Push rt @ stop_drivers_of Mode_Poll rt) =
    mset (map C_driver_stop [0..<length (rt_drivers rt)])"
proof -
  have modes: "m \<noteq> None \<Longrightarrow> (m = Some Mode_Push) \<noteq> (m = Some Mode_Poll)" for m
    by (cases m; cases "the m") auto
  have "snd x \<in> set (rt_drivers rt)" if "x \<in> set (enumerate 0 (rt_drivers rt))" for x
    using that by (metis image_eqI list.set_map map_snd_enumerate)
  then have "\<forall>x \<in> set (enumerate 0 (rt_drivers rt)).
      (case x of (n, i) \<Rightarrow> rt_driver_modes rt (di_device_id i) = Some Mode_Push) \<noteq>
      (case x of (n, i) \<Rightarrow> rt_driver_modes rt (di_device_id i) = Some Mode_Poll)"
    using assms modes by (simp add: case_prod_beta)
  from mset_two_filters [OF this, of "\<lambda>(n, i). C_driver_stop n"]
  have "mset (stop_drivers_of Mode_Push rt @ stop_drivers_of Mode_Poll rt) =
      mset (map (\<lambda>(n, i). C_driver_stop n) (enumerate 0 (rt_drivers rt)))"
    by (simp only: stop_drivers_of_def)
  also have "map (\<lambda>(n, i). C_driver_stop n) (enumerate 0 (rt_drivers rt)) =
      map C_driver_stop (map fst (enumerate 0 (rt_drivers rt)))"
    unfolding map_map by (rule map_cong) auto
  finally show ?thesis by (simp only: map_fst_enumerate add_0)
qed

lemma stop_drivers_of_frame:
  "stop_drivers_of m (log_calls cs rt) = stop_drivers_of m rt"
  "stop_drivers_of m (stop_dispatcher env rt) = stop_drivers_of m rt"
  "stop_drivers_of m (scheduler_stopped rt) = stop_drivers_of m rt"
  "stop_drivers_of m (with_control f rt) = stop_drivers_of m rt"
  "stop_drivers_of m (rt\<lparr>rt_stopping := b\<rparr>) = stop_drivers_of m rt"
  by (simp_all add: stop_drivers_of_def stop_frame_simps)

lemma stop_dispatcher_calls: "rt_calls (stop_dispatcher env rt) = rt_calls rt @ [C_dispatcher_stop]"
  by (simp add: stop_dispatcher_def)

lemma find_group_configured:
  "distinct (map grp_id (gw_groups config)) \<Longrightarrow> g \<in> set (gw_groups config) \<Longrightarrow> find_group config (grp_id g) = Inr g"
proof -
  have "distinct (map grp_id gs) \<Longrightarrow> g \<in> set gs \<Longrightarrow> find (\<lambda>item. grp_id item = grp_id g) gs = Some g" for gs
    by (induction gs) (auto simp: image_iff)
  then show "distinct (map grp_id (gw_groups config)) \<Longrightarrow> g \<in> set (gw_groups config) \<Longrightarrow> ?thesis"
    by (simp add: find_group_def)
qed

lemma find_driver_configured:
  assumes "consistent rt" and "g \<in> set (gw_groups (rt_config rt))"
  shows "\<exists>i. find_driver (rt_drivers rt) (grp_device_id g) = Inr i \<and>
    grp_device_id g \<in> di_device_id ` set (rt_drivers rt)"
proof -
  have "rt_driver_modes rt (grp_device_id g) \<noteq> None" using assms by (auto simp: consistent_def good_group_def)
  then have "grp_device_id g \<in> di_device_id ` set (rt_drivers rt)" using assms(1) by (auto simp: consistent_def)
  then show ?thesis
    by (auto simp: find_driver_def find_None_iff image_iff split: option.splits)
qed

lemma start_rollback_returns: "\<exists>rt'. start_rollback pg we env l rt = Some rt'"
  using close_and_join_returns [of pg we env] by (fastforce simp: start_rollback_def Let_def)

text \<open>A start is its \<open>try\<close> block, followed by the rollback if that threw.\<close>

lemma start_decomposes:
  assumes "fresh rt"
  shows "\<exists>x l rt1. started_as (rt\<lparr>rt_started := True\<rparr>) x l rt1 \<and> GatewayRuntime_start pg we env t rt =
    (case x of None \<Rightarrow> Some (None, rt1) | Some e \<Rightarrow> map_option (Pair (Some e)) (start_rollback pg we env l rt1))"
proof -
  obtain x l rt1 where b: "start_body pg t rt (no_locals, rt\<lparr>rt_started := True\<rparr>) = (x, (l, rt1))"
    by (metis prod_cases3)
  have "started_as (rt\<lparr>rt_started := True\<rparr>) x l rt1"
    by (rule start_body_trace [OF _ _ b]) (use assms in \<open>simp_all add: fresh_def\<close>)
  then show ?thesis
    using b assms by (auto simp: GatewayRuntime_start_def no_locals_def fresh_def split: option.splits)
qed

lemma stop_sequence:
  assumes "rt_started rt" and "\<not> rt_stopping rt" and "\<not> rt_stopped rt" and "rt_worker rt"
    and "\<forall>i \<in> set (rt_drivers rt). rt_driver_modes rt (di_device_id i) \<noteq> None"
  shows "\<exists>rt' es scheduler. GatewayRuntime_stop pg we env rt = Some rt' \<and>
    rt_calls rt' = rt_calls rt @ map C_source_request_stop (rev [0..<length (rt_sources rt)]) @
      (if scheduler then [C_scheduler_stop] else []) @ [C_dispatcher_stop] @
      map C_source_stop (rev [0..<length (rt_sources rt)]) @
      stop_drivers_of Mode_Push rt @ stop_drivers_of Mode_Poll rt @
      [C_queue_close] @ publish_calls (length (rt_event_publishers rt)) es @ [C_worker_join] @
      map C_publisher_stop (rev [0..<length (rt_event_publishers rt)]) \<and>
    (scheduler \<longleftrightarrow> rt_scheduler rt \<noteq> None) \<and>
    mset (stop_drivers_of Mode_Push rt @ stop_drivers_of Mode_Poll rt) =
      mset (map C_driver_stop [0..<length (rt_drivers rt)]) \<and>
    length es = length (bq_queue (late_pushes env (rt_raw_queue rt))) \<and>
    rt_delivered_events rt' = rt_delivered_events rt + of_nat (length es) \<and>
    bq_queue (rt_raw_queue rt') = [] \<and> bq_closed (rt_raw_queue rt') \<and> rt_stopped rt' \<and> \<not> rt_worker rt' \<and>
    GatewayRuntime_stop pg we env rt' = Some rt'"
proof -
  let ?src = "rev [0..<length (rt_sources rt)]"
  let ?rt2 = "log_calls (map C_source_request_stop ?src) (with_control (\<lambda>w. w\<lparr>cw_accepting := False\<rparr>) (rt\<lparr>rt_stopping := True\<rparr>))"
  let ?rt3 = "stop_dispatcher env (scheduler_stopped ?rt2)"
  let ?rt4 = "log_calls (map C_source_stop ?src) ?rt3"
  let ?rt5 = "log_calls (stop_drivers_of Mode_Push ?rt4) ?rt4"
  let ?rt6 = "log_calls (stop_drivers_of Mode_Poll ?rt5) ?rt5"
  obtain scheduler where sch: "rt_calls (scheduler_stopped ?rt2) = rt_calls ?rt2 @ (if scheduler then [C_scheduler_stop] else [])"
    "scheduler \<longleftrightarrow> rt_scheduler rt \<noteq> None"
    using scheduler_stopped_effect(1) [of ?rt2] by (auto simp: with_control_def)
  have calls: "rt_calls ?rt6 = rt_calls rt @ map C_source_request_stop ?src @
      (if scheduler then [C_scheduler_stop] else []) @ [C_dispatcher_stop] @ map C_source_stop ?src @
      stop_drivers_of Mode_Push rt @ stop_drivers_of Mode_Poll rt"
    unfolding stop_drivers_of_frame using sch(1) by (simp add: stop_dispatcher_calls)
  have frame: "rt_worker ?rt6" "rt_event_publishers ?rt6 = rt_event_publishers rt" "rt_started ?rt6"
    "rt_raw_queue ?rt6 = rt_raw_queue rt" "rt_delivered_events ?rt6 = rt_delivered_events rt"
    using assms by (simp_all add: stop_frame_simps)
  obtain rt7 es where rt7: "close_and_join pg we env ?rt6 = Some rt7"
    "rt_calls rt7 = rt_calls ?rt6 @ [C_queue_close] @ publish_calls (length (rt_event_publishers rt)) es @ [C_worker_join]"
    "length es = length (bq_queue (late_pushes env (rt_raw_queue rt)))"
    "rt_delivered_events rt7 = rt_delivered_events rt + of_nat (length es)" "bq_queue (rt_raw_queue rt7) = []"
    "bq_closed (rt_raw_queue rt7)" "\<not> rt_worker rt7" "rt_started rt7"
    "rt_event_publishers rt7 = rt_event_publishers rt"
    using close_and_join_returns [of pg we env ?rt6] frame by auto
  let ?rt' = "mark_stopped (log_calls (map C_publisher_stop (rev [0..<length (rt_event_publishers rt)])) rt7)"
  have stop: "GatewayRuntime_stop pg we env rt = Some ?rt'"
    using assms(1-3) rt7(1,9) unfolding GatewayRuntime_stop_def Let_def by (simp del: log_calls_simps)
  have after: "GatewayRuntime_stop pg we env ?rt' = Some ?rt'" by (simp add: GatewayRuntime_stop_def mark_stopped_def)
  have fields: "rt_delivered_events ?rt' = rt_delivered_events rt + of_nat (length es)"
    "bq_queue (rt_raw_queue ?rt') = []" "bq_closed (rt_raw_queue ?rt')" "rt_stopped ?rt'" "\<not> rt_worker ?rt'"
    using rt7(4-7) by (simp_all add: mark_stopped_def log_calls_def)
  have "rt_calls ?rt' = rt_calls rt7 @ map C_publisher_stop (rev [0..<length (rt_event_publishers rt)])"
    by (simp add: mark_stopped_def)
  from this [unfolded rt7(2) calls append_assoc] show ?thesis
    using stop after fields sch(2) rt7(3) stop_drivers_once [OF assms(5)] by blast
qed

section \<open>An example gateway\<close>

definition example_device :: "string \<Rightarrow> DeviceConfig" where
  "example_device d = \<lparr>dev_id = d, dev_driver = \<lparr>spec_type = ''sim'', spec_settings_json = ''{}'', spec_library = []\<rparr>,
     dev_connection = Map.empty, dev_points = []\<rparr>"

definition example_config :: GatewayConfig where
  "example_config = \<lparr>raw_queue_capacity = 4, control_queue_capacity = 2,
     gw_devices = [example_device ''plc'', example_device ''cam''],
     gw_groups = [\<lparr>grp_id = ''fast'', grp_device_id = ''plc'', grp_interval = 10, grp_timeout = 5, grp_points = []\<rparr>]\<rparr>"

text \<open>Driver 1 pushes; driver \<open>bad\<close> fails to start.\<close>

definition example_plugins :: "nat \<Rightarrow> (nat, nat, nat) plugins" where
  "example_plugins bad =
     \<lparr>pg_driver_configure = (\<lambda>_ _. None),
      pg_driver_capabilities = (\<lambda>d. Inr (if d = 1 then Mode_Push else Mode_Poll)),
      pg_driver_start = (\<lambda>d. if d = bad then Some (Runtime_error ''bus'') else None),
      pg_publisher_configure = (\<lambda>_ _. None), pg_publisher_start = (\<lambda>_. None),
      pg_publish = (\<lambda>p e. if p = 0 then Inr Pub_Accepted else Inl Unknown_exception),
      pg_source_configure = (\<lambda>_. None), pg_source_start = (\<lambda>_. None),
      pg_dispatcher_thread = None, pg_worker_thread = None, pg_scheduler_thread = None\<rparr>"

definition example_new :: "nat \<Rightarrow> (nat, nat, nat, nat, nat) GatewayRuntime result" where
  "example_new bad = GatewayRuntime_new (example_plugins bad) example_config
     [\<lparr>di_device_id = ''cam'', di_driver = Some 1\<rparr>, \<lparr>di_device_id = ''plc'', di_driver = Some 0\<rparr>] []
     [\<lparr>pi_id = ''a'', pi_publisher = Some 0\<rparr>, \<lparr>pi_id = ''b'', pi_publisher = Some 1\<rparr>] [Some 0]"

definition example_runtime :: "nat \<Rightarrow> (nat, nat, nat, nat, nat) GatewayRuntime" where
  "example_runtime bad = (case example_new bad of Inr rt \<Rightarrow> rt)"

lemma example_new_ok: "example_new 0 = Inr (example_runtime 0)" "example_new 9 = Inr (example_runtime 9)"
proof -
  have ok: "example_new bad = Inr (example_runtime bad)" if nl: "\<not> isl (example_new bad)" for bad
  proof (cases "example_new bad")
    case (Inr rt)
    then show ?thesis unfolding example_runtime_def by (simp only: sum.case)
  qed (use nl in simp)
  have "\<not> isl (example_new 0)" "\<not> isl (example_new 9)" by code_simp+
  then show "example_new 0 = Inr (example_runtime 0)" "example_new 9 = Inr (example_runtime 9)"
    using ok by blast+
qed

definition example_worker :: "(nat, nat) worker_env" where
  "example_worker = \<lparr>we_process = (\<lambda>c p e w. \<lparr>po_error = None, po_processor = p, po_event = e, po_world = w\<rparr>),
     we_llround = (\<lambda>_. 0), we_received_at = (\<lambda>_. 7), we_now = (\<lambda>_. 8)\<rparr>"

definition example_batch_of :: "string \<Rightarrow> RawBatch" where
  "example_batch_of d = \<lparr>bat_device_id = d, bat_source = d, bat_samples = []\<rparr>"

definition example_stop_env :: "nat stop_env" where
  "example_stop_env = \<lparr>st_alloc_ok = True, st_join = (\<lambda>d. d), st_pushed = [example_batch_of ''cam'']\<rparr>"

definition example_running :: "(nat, nat, nat, nat, nat) GatewayRuntime" where
  "example_running =
     (case GatewayRuntime_start (example_plugins 9) example_worker example_stop_env 100 (example_runtime 9) of
        Some (None, rt) \<Rightarrow> rt)"

section \<open>Properties\<close>

text \<open>C25: only a consistent gateway is constructed. When the constructor succeeds, every configured device has
  exactly one driver and every driver a device, an I/O gate and a cached acquisition mode; collection groups
  have distinct non-empty ids and positive interval and timeout and belong to polled devices; so the control path
  never meets a device with a driver and no gate, or the other way round.\<close>

theorem runtime_construction_consistent:
  assumes "GatewayRuntime_new pg config drivers processors publishers sources = Inr rt"
  shows "distinct (map di_device_id drivers) \<and>
    set (map di_device_id drivers) = set (map dev_id (gw_devices config)) \<and>
    (\<forall>i \<in> set drivers. di_driver i \<noteq> None \<and> rt_driver_modes rt (di_device_id i) \<noteq> None) \<and>
    distinct (map grp_id (gw_groups config)) \<and>
    (\<forall>g \<in> set (gw_groups config). grp_id g \<noteq> [] \<and> 0 < grp_interval g \<and> 0 < grp_timeout g \<and>
       rt_driver_modes rt (grp_device_id g) = Some Mode_Poll) \<and>
    (\<forall>d. find_driver_ptr (rt_drivers rt) d \<noteq> None \<longleftrightarrow> find_io_gate (rt_io_gates rt) d \<noteq> None)"
proof -
  note c = new_consistent [OF assms]
  have eqs: "rt_config rt = config" "rt_drivers rt = drivers" "rt_io_gates rt = map di_device_id drivers"
    using new_parts [OF assms] by auto
  have "find_driver_ptr drivers d \<noteq> None \<longleftrightarrow> find_io_gate (rt_io_gates rt) d \<noteq> None" for d
  proof (cases "d \<in> di_device_id ` set drivers")
    case True
    then obtain i where i: "i \<in> set drivers" "d = di_device_id i" by blast
    then have "find_driver_ptr drivers d = di_driver i" "di_driver i \<noteq> None"
      using c find_driver_ptr_map [of drivers i] by (simp_all add: consistent_def eqs)
    then show ?thesis using i by (simp add: find_io_gate_iff eqs)
  next
    case False
    then show ?thesis
      using find_driver_ptr_None [of d drivers] by (simp add: find_io_gate_iff eqs)
  qed
  then show ?thesis using c by (simp add: consistent_def good_group_def eqs)
qed

theorem runtime_construction_consistent_witness:
  "example_new 9 = Inr (example_runtime 9) \<and>
   (\<forall>d. find_driver_ptr (rt_drivers (example_runtime 9)) d \<noteq> None \<longleftrightarrow>
        find_io_gate (rt_io_gates (example_runtime 9)) d \<noteq> None) \<and>
   find_driver_ptr (rt_drivers (example_runtime 9)) ''cam'' = Some 1"
proof -
  have "find_driver_ptr (rt_drivers (example_runtime 9)) ''cam'' = Some 1" by code_simp
  with runtime_construction_consistent [OF example_new_ok(2) [unfolded example_new_def]] example_new_ok(2)
  show ?thesis by blast
qed

text \<open>The schedule of a constructed gateway is always accepted. The tasks \<open>start\<close> builds from the collection
  groups pass the checks of the scheduling policy, and each task has its group's id and interval and is first due one
  interval after the start.\<close>

theorem start_schedule_accepted:
  assumes "GatewayRuntime_new pg config drivers processors publishers sources = Inr rt"
  shows "policy_new (start_tasks t (gw_groups (rt_config rt))) = Inr (start_tasks t (gw_groups (rt_config rt))) \<and>
    length (start_tasks t (gw_groups (rt_config rt))) = length (gw_groups config) \<and>
    (\<forall>n < length (gw_groups config).
       task_group_id (start_tasks t (gw_groups config) ! n) = grp_id (gw_groups config ! n) \<and>
       task_next_due (start_tasks t (gw_groups config) ! n) = t + ms (grp_interval (gw_groups config ! n)))"
proof -
  have c: "consistent rt" "rt_config rt = config" using new_consistent [OF assms] new_parts [OF assms] by auto
  have "valid_tasks (start_tasks t (gw_groups config))"
    using c start_tasks_intervals by (fastforce simp: valid_tasks_def consistent_def good_group_def)
  moreover have "[] \<notin> set (map task_group_id (start_tasks t (gw_groups config)))"
    using c by (auto simp: enumerate_conv_groups consistent_def good_group_def)
  ultimately show ?thesis
    using c policy_accepts_tasks [of "start_tasks t (gw_groups config)"]
    by (simp add: enumerate_conv_groups consistent_def) (simp add: start_tasks_def nth_enumerate_eq)
qed

theorem start_schedule_accepted_witness:
  "\<exists>policy. policy_new (start_tasks 100 (gw_groups (rt_config (example_runtime 9)))) = Inr policy"
  using start_schedule_accepted [OF example_new_ok(2) [unfolded example_new_def]] by blast

text \<open>C8: a failed start rolls back exactly what it started. Starting a constructed gateway always returns; if it
  throws, the calls are those of the attempt up to the failing one, then: stop requests to the sources, the
  scheduler if there is one, the dispatcher if it was started, the sources, the drivers, the raw queue, the worker if it
  was created, and last the publishers, each group in reverse order and exactly for the plugins whose start
  was called. The dispatcher is only reached when every publisher has started, the worker only after the dispatcher, and
  without a worker nothing is published. The gateway is then stopped for good.\<close>

theorem start_failure_rolls_back:
  assumes "GatewayRuntime_new pg config drivers processors publishers sources = Inr rt"
    and "GatewayRuntime_start pg we env t rt = Some (Some e, rt')"
  shows "\<exists>l worker scheduler es.
    sl_publishers l \<le> length publishers \<and> sl_drivers l \<le> length drivers \<and> sl_sources l \<le> length sources \<and>
    in_start_order (length publishers) l worker \<and> (es \<noteq> [] \<longrightarrow> worker) \<and>
    rt_calls rt' = start_calls l worker False @
      map C_source_request_stop (rev [0..<sl_sources l]) @
      (if scheduler then [C_scheduler_stop] else []) @
      (if sl_dispatcher l then [C_dispatcher_stop] else []) @
      map C_source_stop (rev [0..<sl_sources l]) @
      map C_driver_stop (rev [0..<sl_drivers l]) @
      [C_queue_close] @ publish_calls (length publishers) es @
      (if worker then [C_worker_join] else []) @
      map C_publisher_stop (rev [0..<sl_publishers l]) \<and>
    rt_started rt' \<and> rt_stopped rt' \<and> \<not> rt_stopping rt' \<and> \<not> rt_worker rt' \<and> bq_closed (rt_raw_queue rt')"
proof -
  have f: "fresh rt" and eqs: "rt_event_publishers rt = publishers" "rt_drivers rt = drivers" "rt_sources rt = sources"
    using new_parts [OF assms(1)] by auto
  obtain l rt1 where b: "start_body pg t rt (no_locals, rt\<lparr>rt_started := True\<rparr>) = (Some e, (l, rt1))"
    "start_rollback pg we env l rt1 = Some rt'"
    using assms(2) f by (auto simp: GatewayRuntime_start_def fresh_def no_locals_def split: prod.splits option.splits)
  have s: "started_as (rt\<lparr>rt_started := True\<rparr>) (Some e) l rt1"
    by (rule start_body_trace [OF _ _ b(1)]) (use f in \<open>simp_all add: fresh_def\<close>)
  then have c: "rt_calls rt1 = start_calls l (rt_worker rt1) False" "rt_event_publishers rt1 = publishers"
    "rt_started rt1"
    by (simp_all add: started_as_def start_frame_def eqs)
  have bounds: "sl_publishers l \<le> length publishers" "sl_drivers l \<le> length drivers" "sl_sources l \<le> length sources"
    "in_start_order (length publishers) l (rt_worker rt1)"
    using s by (simp_all add: started_as_def eqs)
  from rollback_calls [OF b(2) c] bounds show ?thesis
    by (elim exE conjE) (intro exI conjI; (assumption | simp only:))
qed

theorem start_failure_rolls_back_witness:
  "\<exists>rt'. GatewayRuntime_start (example_plugins 0) example_worker example_stop_env 100 (example_runtime 0) =
       Some (Some (Runtime_error ''bus''), rt') \<and>
     rt_stopped rt' \<and> rt_calls rt' =
       [C_publisher_start 0, C_publisher_start 1, C_driver_start 0, C_driver_start 1,
        C_driver_stop 1, C_driver_stop 0, C_queue_close, C_publisher_stop 1, C_publisher_stop 0]"
proof -
  let ?r = "GatewayRuntime_start (example_plugins 0) example_worker example_stop_env 100 (example_runtime 0)"
  have v: "map_option (\<lambda>(x, rt). (x, rt_calls rt)) ?r = Some (Some (Runtime_error ''bus''),
       [C_publisher_start 0, C_publisher_start 1, C_driver_start 0, C_driver_start 1,
        C_driver_stop 1, C_driver_stop 0, C_queue_close, C_publisher_stop 1, C_publisher_stop 0])"
    by code_simp
  then obtain rt' where "?r = Some (Some (Runtime_error ''bus''), rt')" by auto
  with start_failure_rolls_back [OF example_new_ok(1) [unfolded example_new_def] this] v show ?thesis by auto
qed

text \<open>A successful start leaves everything running, in order. Starting a constructed gateway always returns; if it
  does not throw, the calls are the publishers, the drivers, the dispatcher, the worker, the sources and
  last the scheduler, each exactly once and in configuration order, and the gateway is started with its worker and
  scheduler running.\<close>

theorem start_success_running:
  assumes "GatewayRuntime_new pg config drivers processors publishers sources = Inr rt"
  shows "\<exists>x rt'. GatewayRuntime_start pg we env t rt = Some (x, rt') \<and>
    (x = None \<longrightarrow>
       rt_calls rt' = map C_publisher_start [0..<length publishers] @ map C_driver_start [0..<length drivers] @
         [C_dispatcher_start, C_worker_start] @ map C_source_start [0..<length sources] @ [C_scheduler_start] \<and>
       rt_started rt' \<and> \<not> rt_stopping rt' \<and> \<not> rt_stopped rt' \<and> rt_worker rt' \<and>
       (\<exists>y. rt_scheduler rt' = Some y \<and> se_running y))"
proof -
  have f: "fresh rt" and eqs: "rt_event_publishers rt = publishers" "rt_drivers rt = drivers" "rt_sources rt = sources"
    using new_parts [OF assms] by auto
  obtain x l rt1 where s: "started_as (rt\<lparr>rt_started := True\<rparr>) x l rt1"
    and r: "GatewayRuntime_start pg we env t rt =
      (case x of None \<Rightarrow> Some (None, rt1) | Some e \<Rightarrow> map_option (Pair (Some e)) (start_rollback pg we env l rt1))"
    using start_decomposes [OF f] by blast
  show ?thesis
  proof (cases x)
    case None
    then show ?thesis
      using s f r by (auto simp: started_as_def start_frame_def start_calls_def fresh_def eqs)
  next
    case (Some e)
    then show ?thesis using r start_rollback_returns [of pg we env l rt1] by auto
  qed
qed

theorem start_success_running_witness:
  "GatewayRuntime_start (example_plugins 9) example_worker example_stop_env 100 (example_runtime 9) =
     Some (None, example_running) \<and> rt_started example_running \<and> rt_worker example_running \<and>
   length (rt_calls example_running) = 8"
proof -
  let ?r = "GatewayRuntime_start (example_plugins 9) example_worker example_stop_env 100 (example_runtime 9)"
  obtain x rt' where r: "?r = Some (x, rt')" "x = None \<longrightarrow> rt_started rt' \<and> rt_worker rt'"
    using start_success_running [OF example_new_ok(2) [unfolded example_new_def], of example_worker example_stop_env 100]
    by blast
  have v: "map_option (\<lambda>(x, rt). (x, length (rt_calls rt))) ?r = Some (None, 8)" by code_simp
  have x: "x = None" "length (rt_calls rt') = 8" using v r(1) by auto
  then have "example_running = rt'" unfolding example_running_def r(1) by simp
  then show ?thesis using r x by simp
qed

text \<open>C6: stopping is orderly and loses no accepted batch. A running gateway always stops: the sources are asked to
  stop, the scheduler and the dispatcher are joined, the sources stop, then the push drivers and then the polled
  drivers, each driver exactly once; then the raw queue is closed and the worker processes every batch still waiting
  (each published to every publisher) before the publishers are stopped in reverse order. Stopping again
  does nothing.\<close>

theorem stop_orderly:
  assumes "rt_started rt" and "\<not> rt_stopping rt" and "\<not> rt_stopped rt" and "rt_worker rt"
    and "\<forall>i \<in> set (rt_drivers rt). rt_driver_modes rt (di_device_id i) \<noteq> None"
  shows "\<exists>rt' es scheduler. GatewayRuntime_stop pg we env rt = Some rt' \<and>
    rt_calls rt' = rt_calls rt @ map C_source_request_stop (rev [0..<length (rt_sources rt)]) @
      (if scheduler then [C_scheduler_stop] else []) @ [C_dispatcher_stop] @
      map C_source_stop (rev [0..<length (rt_sources rt)]) @
      stop_drivers_of Mode_Push rt @ stop_drivers_of Mode_Poll rt @
      [C_queue_close] @ publish_calls (length (rt_event_publishers rt)) es @ [C_worker_join] @
      map C_publisher_stop (rev [0..<length (rt_event_publishers rt)]) \<and>
    (scheduler \<longleftrightarrow> rt_scheduler rt \<noteq> None) \<and>
    mset (stop_drivers_of Mode_Push rt @ stop_drivers_of Mode_Poll rt) =
      mset (map C_driver_stop [0..<length (rt_drivers rt)]) \<and>
    length es = length (bq_queue (late_pushes env (rt_raw_queue rt))) \<and>
    rt_delivered_events rt' = rt_delivered_events rt + of_nat (length es) \<and>
    bq_queue (rt_raw_queue rt') = [] \<and> bq_closed (rt_raw_queue rt') \<and> rt_stopped rt' \<and> \<not> rt_worker rt' \<and>
    GatewayRuntime_stop pg we env rt' = Some rt'"
  by (rule stop_sequence [OF assms])

theorem stop_orderly_witness:
  "\<exists>rt'. GatewayRuntime_stop (example_plugins 9) example_worker example_stop_env example_running = Some rt' \<and>
     rt_stopped rt' \<and> rt_delivered_events rt' = 1 \<and> rt_publish_errors rt' = 1 \<and>
     GatewayRuntime_stop (example_plugins 9) example_worker example_stop_env rt' = Some rt'"
proof -
  let ?r = "GatewayRuntime_stop (example_plugins 9) example_worker example_stop_env example_running"
  have run: "rt_started example_running" "\<not> rt_stopping example_running" "\<not> rt_stopped example_running"
    "rt_worker example_running"
    "\<forall>i \<in> set (rt_drivers example_running). rt_driver_modes example_running (di_device_id i) \<noteq> None"
    by code_simp+
  have v: "map_option (\<lambda>rt. (rt_delivered_events rt, rt_publish_errors rt)) ?r = Some (1, 1)" by code_simp
  from stop_orderly [OF run] v show ?thesis by fastforce
qed

text \<open>Publishing is fair and accounted for. Each event is offered once to every publisher in configuration order,
  whatever the earlier ones answer or throw, and every attempt is counted as exactly one of accepted, unavailable,
  rejected or error (modulo \<open>2 ^ 64\<close>); nothing else of the gateway changes.\<close>

theorem publish_event_accounts:
  "let rt' = publish_event pg e rt; n = length (rt_event_publishers rt) in
   rt_calls rt' = rt_calls rt @ map (\<lambda>k. C_publish k e) [0..<n] \<and>
   rt_publish_attempts rt' = rt_publish_attempts rt + of_nat n \<and>
   rt_publish_attempts rt' - (rt_publish_accepted rt' + rt_publish_unavailable rt' + rt_publish_rejected rt' +
       rt_publish_errors rt') =
     rt_publish_attempts rt - (rt_publish_accepted rt + rt_publish_unavailable rt + rt_publish_rejected rt +
       rt_publish_errors rt) \<and>
   rt_raw_queue rt' = rt_raw_queue rt \<and> rt_delivered_events rt' = rt_delivered_events rt"
  unfolding publish_event_def Let_def
  using publish_fold_effect [of pg e "enumerate 0 (rt_event_publishers rt)" rt,
      unfolded map_fst_enumerate_publish publish_balance_def length_enumerate add_0] by blast

text \<open>A poll has exactly one accounted outcome. For a configured group of a consistent gateway a poll that cannot get
  the device's gate in time counts a deadline miss and does not call the driver; a poll whose driver throws counts an
  error, rethrows and queues nothing; every other poll counts as a poll, offers its batch to the raw
  queue exactly once, counts a full queue, and counts a miss exactly if it finished after its deadline.\<close>

theorem poll_group_outcome:
  assumes "consistent rt" and "g \<in> set (gw_groups (rt_config rt))" and "task_group_id task = grp_id g"
  shows "poll_group env task rt =
    (case pe_lock env of
       Inl e \<Rightarrow> (Some e, rt\<lparr>rt_poll_errors := rt_poll_errors rt + 1\<rparr>)
     | Inr False \<Rightarrow> (None, rt\<lparr>rt_deadline_misses := rt_deadline_misses rt + 1\<rparr>)
     | Inr True \<Rightarrow>
         (case pe_batch env of
            Inl e \<Rightarrow> (Some e, rt\<lparr>rt_poll_errors := rt_poll_errors rt + 1\<rparr>)
          | Inr batch \<Rightarrow>
              (None, rt\<lparr>rt_deadline_misses := rt_deadline_misses rt +
                          (if pe_now env + ms (grp_timeout g) < pe_finished env then 1 else 0),
                       rt_raw_queue := snd (BoundedQueue_try_push (rt_raw_queue rt) batch),
                       rt_poll_queue_full := rt_poll_queue_full rt +
                          (if fst (BoundedQueue_try_push (rt_raw_queue rt) batch) = Enq_Full then 1 else 0),
                       rt_polls := rt_polls rt + 1\<rparr>)))"
proof -
  have g: "find_group (rt_config rt) (task_group_id task) = Inr g"
    using assms find_group_configured [of "rt_config rt" g] by (simp add: consistent_def)
  obtain i where i: "find_driver (rt_drivers rt) (grp_device_id g) = Inr i"
    "grp_device_id g \<in> di_device_id ` set (rt_drivers rt)"
    using find_driver_configured [OF assms(1,2)] by blast
  have gate: "find_io_gate (rt_io_gates rt) (grp_device_id g) = Some (grp_device_id g)"
    using assms(1) i(2) by (simp add: consistent_def find_io_gate_iff)
  show ?thesis
    by (simp add: poll_group_def poll_attempt_def g i(1) gate Let_def case_prod_beta split: sum.splits bool.splits)
qed

theorem poll_group_outcome_witness:
  "fst (poll_group \<lparr>pe_now = 0, pe_lock = Inr False, pe_batch = Inl Unknown_exception, pe_finished = 0\<rparr>
     (start_tasks 0 (gw_groups example_config) ! 0) (example_runtime 9)) = None"
proof -
  have c: "consistent (example_runtime 9)"
    using new_consistent [OF example_new_ok(2) [unfolded example_new_def]] by blast
  have g: "gw_groups example_config ! 0 \<in> set (gw_groups (rt_config (example_runtime 9)))"
    "task_group_id (start_tasks 0 (gw_groups example_config) ! 0) = grp_id (gw_groups example_config ! 0)"
    by code_simp+
  show ?thesis unfolding poll_group_outcome [OF c g] by simp
qed

text \<open>The runtime's control entry refuses everything before the start and after the stop, and otherwise is the
  dispatcher's \<open>submit\<close> over the gateway's own drivers; a request is accepted only for a device that has one.\<close>

theorem submit_control_gated:
  "(\<not> cw_accepting w \<longrightarrow> submit_control drivers request completion w = (Sub_Stopping, w)) \<and>
   (fst (submit_control drivers request completion w) = Sub_Accepted \<longrightarrow>
      cw_accepting w \<and> find_driver_ptr drivers (rq_device_id request) \<noteq> None \<and>
      length (dd_accepted (cw_dispatcher (snd (submit_control drivers request completion w)))) =
        Suc (length (dd_accepted (cw_dispatcher w))))"
  by (auto simp: submit_control_def Dispatcher_submit_def Dispatcher_submit_decide_def Dispatcher_submit_enter_def
      resolved_def Let_def split: if_splits prod.splits)

theorem submit_control_gated_witness:
  "submit_control (rt_drivers (example_runtime 9)) (example_request ''a'') None (rt_control (example_runtime 9)) =
     (Sub_Stopping, rt_control (example_runtime 9))"
proof -
  have "\<not> cw_accepting (rt_control (example_runtime 9))" by code_simp
  then show ?thesis using submit_control_gated by blast
qed

end
