(* ===== verification/Json_Interface.thy ===== *)
theory Json_Interface
  imports Data_Model
begin

text \<open>
  The part of \<open>nlohmann::json\<close> the gateway calls, as a record of operations on an
  abstract type \<open>'j\<close> of values: every definition that touches JSON takes it as an
  argument. \<open>tree_ops\<close> at the end is one implementation, on a datatype of JSON trees,
  used to evaluate the definitions on concrete inputs.
\<close>

record 'j json_ops =
  js_parse :: "string \<Rightarrow> string + 'j"
  js_dump :: "'j \<Rightarrow> string"
  js_is_null :: "'j \<Rightarrow> bool"
  js_is_object :: "'j \<Rightarrow> bool"
  js_is_array :: "'j \<Rightarrow> bool"
  js_is_string :: "'j \<Rightarrow> bool"
  js_is_boolean :: "'j \<Rightarrow> bool"
  js_is_number :: "'j \<Rightarrow> bool"
  js_is_number_integer :: "'j \<Rightarrow> bool"
  js_is_number_unsigned :: "'j \<Rightarrow> bool"
  js_find :: "'j \<Rightarrow> string \<Rightarrow> 'j option"
  js_items :: "'j \<Rightarrow> (string \<times> 'j) list"
  js_elements :: "'j \<Rightarrow> 'j list"
  js_get_string :: "'j \<Rightarrow> string"
  js_get_bool :: "'j \<Rightarrow> bool"
  js_get_uint64 :: "'j \<Rightarrow> u64"
  js_get_int64 :: "'j \<Rightarrow> i64"
  js_get_double :: "'j \<Rightarrow> double"

section \<open>An implementation on trees\<close>

datatype json_tree =
    J_null
  | J_bool bool
  | J_unsigned u64
  | J_integer i64
  | J_float double
  | J_string string
  | J_array "json_tree list"
  | J_object "(string \<times> json_tree) list"

fun jt_double :: "json_tree \<Rightarrow> double" where
  "jt_double (J_float d) = d"
| "jt_double (J_unsigned n) = double_of_int (uint n)"
| "jt_double (J_integer n) = double_of_int (sint n)"
| "jt_double _ = Finite False 0"

fun jt_dump :: "json_tree \<Rightarrow> string" where
  "jt_dump (J_object []) = ''{}''"
| "jt_dump _ = ''...''"

definition tree_ops :: "(string \<Rightarrow> string + json_tree) \<Rightarrow> json_tree json_ops" where
  "tree_ops parse =
     \<lparr>js_parse = parse, js_dump = jt_dump,
      js_is_null = (\<lambda>j. case j of J_null \<Rightarrow> True | _ \<Rightarrow> False),
      js_is_object = (\<lambda>j. case j of J_object _ \<Rightarrow> True | _ \<Rightarrow> False),
      js_is_array = (\<lambda>j. case j of J_array _ \<Rightarrow> True | _ \<Rightarrow> False),
      js_is_string = (\<lambda>j. case j of J_string _ \<Rightarrow> True | _ \<Rightarrow> False),
      js_is_boolean = (\<lambda>j. case j of J_bool _ \<Rightarrow> True | _ \<Rightarrow> False),
      js_is_number = (\<lambda>j. case j of J_unsigned _ \<Rightarrow> True | J_integer _ \<Rightarrow> True | J_float _ \<Rightarrow> True | _ \<Rightarrow> False),
      js_is_number_integer = (\<lambda>j. case j of J_unsigned _ \<Rightarrow> True | J_integer _ \<Rightarrow> True | _ \<Rightarrow> False),
      js_is_number_unsigned = (\<lambda>j. case j of J_unsigned _ \<Rightarrow> True | _ \<Rightarrow> False),
      js_find = (\<lambda>j key. case j of J_object items \<Rightarrow> map_of items key | _ \<Rightarrow> None),
      js_items = (\<lambda>j. case j of J_object items \<Rightarrow> items | _ \<Rightarrow> []),
      js_elements = (\<lambda>j. case j of J_array js \<Rightarrow> js | _ \<Rightarrow> []),
      js_get_string = (\<lambda>j. case j of J_string s \<Rightarrow> s | _ \<Rightarrow> []),
      js_get_bool = (\<lambda>j. case j of J_bool b \<Rightarrow> b | _ \<Rightarrow> False),
      js_get_uint64 = (\<lambda>j. case j of J_unsigned n \<Rightarrow> n | J_integer n \<Rightarrow> n | _ \<Rightarrow> 0),
      js_get_int64 = (\<lambda>j. case j of J_unsigned n \<Rightarrow> n | J_integer n \<Rightarrow> n | _ \<Rightarrow> 0),
      js_get_double = jt_double\<rparr>"

end
