(* ===== verification/Config.thy ===== *)
theory Config
  imports Json_Interface Normalizer Scheduler
begin

text \<open>
  \<open>src/core/config.cpp\<close>: the strict parser of the gateway's configuration over the JSON
  interface. A \<open>ConfigError\<close> carries its message as an \<open>Inl\<close> string; \<open>parse_config\<close> turns it into
  the \<open>std::runtime_error\<close> the caller sees.
\<close>

section \<open>Configuration\<close>

record PluginConfig =
  pc_id :: string
  pc_type :: string
  pc_enabled :: bool
  pc_settings_json :: string
  pc_library :: string

record ApplicationConfig =
  ac_run_duration :: "int option"
  ac_gateway :: GatewayConfig
  ac_processors :: "PluginConfig list"
  ac_event_publishers :: "PluginConfig list"
  ac_device_control_sources :: "PluginConfig list"

section \<open>Members\<close>

type_synonym 'a parsed = "string + 'a"

definition cfail :: "string \<Rightarrow> string \<Rightarrow> 'a parsed" where
  "cfail path message = Inl (path @ '': '' @ message)"

definition sub_path :: "string \<Rightarrow> string \<Rightarrow> string" where
  "sub_path path key = path @ ''.'' @ key"

definition index_path :: "string \<Rightarrow> nat \<Rightarrow> string" where
  "index_path path index = path @ ''['' @ dec_nat index @ '']''"

definition member :: "'j json_ops \<Rightarrow> 'j \<Rightarrow> string \<Rightarrow> string \<Rightarrow> 'j parsed" where
  "member J obj key path =
     (if \<not> js_is_object J obj then cfail path ''must be an object''
      else case js_find J obj key of
             None \<Rightarrow> cfail (sub_path path key) ''is a required field''
           | Some item \<Rightarrow> Inr item)"

definition object_member :: "'j json_ops \<Rightarrow> 'j \<Rightarrow> string \<Rightarrow> string \<Rightarrow> 'j parsed" where
  "object_member J obj key path =
     rbind (member J obj key path) (\<lambda>v.
       if \<not> js_is_object J v then cfail (sub_path path key) ''must be an object'' else Inr v)"

definition array_member :: "'j json_ops \<Rightarrow> 'j \<Rightarrow> string \<Rightarrow> string \<Rightarrow> 'j list parsed" where
  "array_member J obj key path =
     rbind (member J obj key path) (\<lambda>v.
       if \<not> js_is_array J v then cfail (sub_path path key) ''must be an array'' else Inr (js_elements J v))"

definition string_value :: "'j json_ops \<Rightarrow> 'j \<Rightarrow> string \<Rightarrow> bool \<Rightarrow> string parsed" where
  "string_value J v path allow_empty =
     (if \<not> js_is_string J v then cfail path ''must be a string''
      else let result = js_get_string J v
           in if \<not> allow_empty \<and> result = [] then cfail path ''must not be empty'' else Inr result)"

definition string_member :: "'j json_ops \<Rightarrow> 'j \<Rightarrow> string \<Rightarrow> string \<Rightarrow> bool \<Rightarrow> string parsed" where
  "string_member J obj key path allow_empty =
     rbind (member J obj key path) (\<lambda>v. string_value J v (sub_path path key) allow_empty)"

text \<open>A path is the bytes of its UTF-8 text; \<open>utf8_path\<close> keeps them.\<close>

definition optional_path_member :: "'j json_ops \<Rightarrow> 'j \<Rightarrow> string \<Rightarrow> string \<Rightarrow> string parsed" where
  "optional_path_member J obj key path =
     (case js_find J obj key of
        None \<Rightarrow> Inr []
      | Some item \<Rightarrow> if js_is_null J item then Inr [] else string_value J item (sub_path path key) False)"

definition optional_enabled :: "'j json_ops \<Rightarrow> 'j \<Rightarrow> string \<Rightarrow> bool parsed" where
  "optional_enabled J obj path =
     (case js_find J obj ''enabled'' of
        None \<Rightarrow> Inr True
      | Some item \<Rightarrow> if \<not> js_is_boolean J item then cfail (sub_path path ''enabled'') ''must be a boolean''
                     else Inr (js_get_bool J item))"

definition unsigned_integer_value :: "'j json_ops \<Rightarrow> 'j \<Rightarrow> string \<Rightarrow> u64 parsed" where
  "unsigned_integer_value J v path =
     (if \<not> js_is_number_integer J v then cfail path ''must be a non-negative integer''
      else if js_is_number_unsigned J v then Inr (js_get_uint64 J v)
      else let signed_value = js_get_int64 J v
           in if sint signed_value < 0 then cfail path ''must be a non-negative integer''
              else Inr signed_value)"

definition unsigned_integer_member :: "'j json_ops \<Rightarrow> 'j \<Rightarrow> string \<Rightarrow> string \<Rightarrow> u64 parsed" where
  "unsigned_integer_member J obj key path =
     rbind (member J obj key path) (\<lambda>v. unsigned_integer_value J v (sub_path path key))"

text \<open>\<open>std::size_t\<close> has 64 bits, so its maximum excludes nothing.\<close>

definition size_member :: "'j json_ops \<Rightarrow> 'j \<Rightarrow> string \<Rightarrow> string \<Rightarrow> bool \<Rightarrow> nat parsed" where
  "size_member J obj key path positive =
     rbind (unsigned_integer_member J obj key path) (\<lambda>v.
       if (positive \<and> v = 0) \<or> v > u64_max
       then cfail (sub_path path key) (if positive then ''must be a positive size'' else ''is too large'')
       else Inr (unat v))"

definition milliseconds_member :: "'j json_ops \<Rightarrow> 'j \<Rightarrow> string \<Rightarrow> string \<Rightarrow> bool \<Rightarrow> int parsed" where
  "milliseconds_member J obj key path positive =
     rbind (unsigned_integer_member J obj key path) (\<lambda>v.
       if (positive \<and> v = 0) \<or> uint v > 2 ^ 63 - 1
       then cfail (sub_path path key) (if positive then ''must be a positive duration'' else ''is too large'')
       else Inr (uint v))"

definition finite_number_member :: "'j json_ops \<Rightarrow> 'j \<Rightarrow> string \<Rightarrow> string \<Rightarrow> double parsed" where
  "finite_number_member J obj key path =
     rbind (member J obj key path) (\<lambda>v.
       if \<not> js_is_number J v then cfail (sub_path path key) ''must be a number''
       else if \<not> isfinite (js_get_double J v) then cfail (sub_path path key) ''must be finite''
       else Inr (js_get_double J v))"

definition optional_number_member :: "'j json_ops \<Rightarrow> 'j \<Rightarrow> string \<Rightarrow> string \<Rightarrow> double option parsed" where
  "optional_number_member J obj key path =
     (case js_find J obj key of
        None \<Rightarrow> Inr None
      | Some item \<Rightarrow>
          if js_is_null J item then Inr None
          else if \<not> js_is_number J item then cfail (sub_path path key) ''must be a number or null''
          else if \<not> isfinite (js_get_double J item) then cfail (sub_path path key) ''must be finite''
          else Inr (Some (js_get_double J item)))"

text \<open>\<open>emplace\<close> keeps the first value of a key.\<close>

definition string_map_item ::
  "'j json_ops \<Rightarrow> string \<Rightarrow> (string \<rightharpoonup> string) \<Rightarrow> string \<times> 'j \<Rightarrow> (string \<rightharpoonup> string) parsed" where
  "string_map_item J path result = (\<lambda>(key, item).
     if \<not> js_is_string J item then cfail (sub_path path key) ''must be a string''
     else Inr (if result key = None then result(key \<mapsto> js_get_string J item) else result))"

definition string_map :: "'j json_ops \<Rightarrow> 'j \<Rightarrow> string \<Rightarrow> (string \<rightharpoonup> string) parsed" where
  "string_map J v path =
     (if \<not> js_is_object J v then cfail path ''must be an object containing string values''
      else rfold (string_map_item J path) Map.empty (js_items J v))"

definition string_array_item ::
  "'j json_ops \<Rightarrow> string \<Rightarrow> string list \<Rightarrow> nat \<times> 'j \<Rightarrow> string list parsed" where
  "string_array_item J path result = (\<lambda>(index, item).
     rbind (string_value J item (index_path path index) False) (\<lambda>s.
       if s \<in> set result then cfail (index_path path index) ''must be unique within the array''
       else Inr (result @ [s])))"

definition string_array :: "'j json_ops \<Rightarrow> 'j \<Rightarrow> string \<Rightarrow> bool \<Rightarrow> string list parsed" where
  "string_array J v path require_non_empty =
     (if \<not> js_is_array J v \<or> (require_non_empty \<and> js_elements J v = [])
      then cfail path (if require_non_empty then ''must be a non-empty array'' else ''must be an array'')
      else rfold (string_array_item J path) [] (enumerate 0 (js_elements J v)))"

definition value_type :: "'j json_ops \<Rightarrow> 'j \<Rightarrow> string \<Rightarrow> ValueType parsed" where
  "value_type J v path =
     rbind (string_value J v path False) (\<lambda>name.
       if name = ''integer'' then Inr VT_Integer
       else if name = ''double'' then Inr VT_Double
       else if name = ''boolean'' then Inr VT_Boolean
       else if name = ''string'' then Inr VT_String
       else if name = ''bytes'' \<or> name = ''byte_array'' then Inr VT_ByteArray
       else cfail path (''unsupported value type '' @ [CHR 0x27] @ name @ [CHR 0x27]))"

section \<open>Points, devices, groups, plugins\<close>

definition parse_point :: "'j json_ops \<Rightarrow> 'j \<Rightarrow> string \<Rightarrow> PointConfig parsed" where
  "parse_point J v path =
     (if \<not> js_is_object J v then cfail path ''must be an object''
      else
        rbind (string_member J v ''name'' path False) (\<lambda>name.
        rbind (rbind (member J v ''type'' path) (\<lambda>t. value_type J t (path @ ''.type''))) (\<lambda>type.
        rbind (string_member J v ''unit'' path True) (\<lambda>unit'.
        rbind (rbind (member J v ''address'' path) (\<lambda>a. string_map J a (path @ ''.address''))) (\<lambda>address.
        rbind (finite_number_member J v ''scale'' path) (\<lambda>scale.
        rbind (finite_number_member J v ''offset'' path) (\<lambda>offset.
        rbind (optional_number_member J v ''minimum'' path) (\<lambda>minimum.
        rbind (optional_number_member J v ''maximum'' path) (\<lambda>maximum.
          if (case (minimum, maximum) of (Some lo, Some hi) \<Rightarrow> dlt hi lo | _ \<Rightarrow> False)
          then cfail path ''minimum must not exceed maximum''
          else Inr \<lparr>pt_name = name, pt_type = type, pt_unit = unit', pt_address = address, pt_scale = scale,
                    pt_offset = offset, pt_minimum = minimum, pt_maximum = maximum\<rparr>)))))))))"

text \<open>The loop over the points of a device; the names seen are those of the points read.\<close>

definition parse_points_item ::
  "'j json_ops \<Rightarrow> string \<Rightarrow> PointConfig list \<Rightarrow> nat \<times> 'j \<Rightarrow> PointConfig list parsed" where
  "parse_points_item J path ps = (\<lambda>(index, v).
     let point_path = index_path (path @ ''.points'') index
     in rbind (parse_point J v point_path) (\<lambda>point.
          if pt_name point \<in> pt_name ` set ps
          then cfail (point_path @ ''.name'') (''duplicate point '' @ [CHR 0x27] @ pt_name point @ [CHR 0x27])
          else Inr (ps @ [point])))"

definition parse_device_item ::
  "'j json_ops \<Rightarrow> DeviceConfig list \<Rightarrow> nat \<times> 'j \<Rightarrow> DeviceConfig list parsed" where
  "parse_device_item J devices = (\<lambda>(index, v).
     let path = index_path ''root.devices'' index
     in if \<not> js_is_object J v then cfail path ''must be an object''
        else
          rbind (string_member J v ''id'' path False) (\<lambda>id'.
          if id' \<in> dev_id ` set devices
          then cfail (path @ ''.id'') (''duplicate device id '' @ [CHR 0x27] @ id' @ [CHR 0x27])
          else
          rbind (string_member J v ''driver'' path False) (\<lambda>driver.
          rbind (object_member J v ''driver_config'' path) (\<lambda>driver_config.
          rbind (optional_path_member J v ''library'' path) (\<lambda>library.
          rbind (rbind (member J v ''connection'' path) (\<lambda>c. string_map J c (path @ ''.connection''))) (\<lambda>connection.
          rbind (array_member J v ''points'' path) (\<lambda>point_values.
            if point_values = [] then cfail (path @ ''.points'') ''must not be empty''
            else rbind (rfold (parse_points_item J path) [] (enumerate 0 point_values)) (\<lambda>points.
              Inr (devices @ [\<lparr>dev_id = id',
                dev_driver = \<lparr>spec_type = driver, spec_settings_json = js_dump J driver_config, spec_library = library\<rparr>,
                dev_connection = connection, dev_points = points\<rparr>])))))))))"

definition parse_devices :: "'j json_ops \<Rightarrow> 'j \<Rightarrow> DeviceConfig list parsed" where
  "parse_devices J doc =
     rbind (array_member J doc ''devices'' ''root'') (\<lambda>devices.
       if devices = [] then cfail ''root.devices'' ''must not be empty''
       else rfold (parse_device_item J) [] (enumerate 0 devices))"

text \<open>The map from device ids to point names that \<open>parse_devices\<close> fills.\<close>

definition points_of :: "DeviceConfig list \<Rightarrow> string \<Rightarrow> string list option" where
  "points_of devices device_id =
     map_of (map (\<lambda>d. (dev_id d, map pt_name (dev_points d))) devices) device_id"

definition parse_group_item ::
  "'j json_ops \<Rightarrow> DeviceConfig list \<Rightarrow> CollectionGroup list \<Rightarrow> nat \<times> 'j \<Rightarrow> CollectionGroup list parsed" where
  "parse_group_item J devices groups = (\<lambda>(index, v).
     let path = index_path ''root.groups'' index
     in if \<not> js_is_object J v then cfail path ''must be an object''
        else
          rbind (string_member J v ''id'' path False) (\<lambda>id'.
          if id' \<in> grp_id ` set groups
          then cfail (path @ ''.id'') (''duplicate group id '' @ [CHR 0x27] @ id' @ [CHR 0x27])
          else
          rbind (string_member J v ''device_id'' path False) (\<lambda>device_id.
          rbind (milliseconds_member J v ''interval_ms'' path True) (\<lambda>interval.
          rbind (milliseconds_member J v ''timeout_ms'' path True) (\<lambda>timeout.
          rbind (rbind (member J v ''points'' path) (\<lambda>p. string_array J p (path @ ''.points'') True)) (\<lambda>points.
            case points_of devices device_id of
              None \<Rightarrow> cfail (path @ ''.device_id'') ''references an unknown device''
            | Some names \<Rightarrow>
                (case find (\<lambda>p. p \<notin> set names) points of
                   Some point \<Rightarrow> cfail (path @ ''.points'') (''references unknown point '' @ [CHR 0x27] @ point @ [CHR 0x27])
                 | None \<Rightarrow> Inr (groups @ [\<lparr>grp_id = id', grp_device_id = device_id, grp_interval = interval,
                             grp_timeout = timeout, grp_points = points\<rparr>]))))))))"

definition parse_groups :: "'j json_ops \<Rightarrow> 'j \<Rightarrow> DeviceConfig list \<Rightarrow> CollectionGroup list parsed" where
  "parse_groups J doc devices =
     rbind (array_member J doc ''groups'' ''root'') (\<lambda>groups.
       rfold (parse_group_item J devices) [] (enumerate 0 groups))"

definition parse_plugin_item ::
  "'j json_ops \<Rightarrow> string \<Rightarrow> PluginConfig list \<Rightarrow> nat \<times> 'j \<Rightarrow> PluginConfig list parsed" where
  "parse_plugin_item J base_path result = (\<lambda>(index, v).
     let path = index_path base_path index
     in if \<not> js_is_object J v then cfail path ''must be an object''
        else
          rbind (string_member J v ''id'' path False) (\<lambda>id'.
          rbind (string_member J v ''type'' path False) (\<lambda>type.
          rbind (optional_enabled J v path) (\<lambda>enabled.
          rbind (object_member J v ''config'' path) (\<lambda>config.
          rbind (optional_path_member J v ''library'' path) (\<lambda>library.
            if id' \<in> pc_id ` set result
            then cfail (path @ ''.id'') (''duplicate plugin id '' @ [CHR 0x27] @ id' @ [CHR 0x27])
            else Inr (result @ [\<lparr>pc_id = id', pc_type = type, pc_enabled = enabled,
                        pc_settings_json = js_dump J config, pc_library = library\<rparr>])))))))"

definition parse_plugins :: "'j json_ops \<Rightarrow> 'j \<Rightarrow> string \<Rightarrow> bool \<Rightarrow> PluginConfig list parsed" where
  "parse_plugins J doc key optional =
     (if optional \<and> js_find J doc key = None then Inr []
      else rbind (array_member J doc key ''root'') (\<lambda>values.
             rfold (parse_plugin_item J (''root.'' @ key)) [] (enumerate 0 values)))"

section \<open>The whole file\<close>

text \<open>\<open>control_queue_capacity\<close> keeps the default of \<open>GatewayConfig\<close> when it is absent.\<close>

definition default_control_queue_capacity :: nat where
  "default_control_queue_capacity = 64"

definition parse_application_config :: "'j json_ops \<Rightarrow> 'j \<Rightarrow> ApplicationConfig parsed" where
  "parse_application_config J doc =
     (if \<not> js_is_object J doc then cfail ''root'' ''must be an object''
      else
        rbind (object_member J doc ''runtime'' ''root'') (\<lambda>runtime.
        rbind (case js_find J runtime ''run_duration_ms'' of
                 None \<Rightarrow> Inr None
               | Some d \<Rightarrow> if js_is_null J d then Inr None
                           else rbind (milliseconds_member J runtime ''run_duration_ms'' ''root.runtime'' True)
                                  (\<lambda>d. Inr (Some d))) (\<lambda>run_duration.
        rbind (size_member J runtime ''raw_queue_capacity'' ''root.runtime'' True) (\<lambda>raw_capacity.
        rbind (case js_find J runtime ''control_queue_capacity'' of
                 None \<Rightarrow> Inr default_control_queue_capacity
               | Some _ \<Rightarrow> size_member J runtime ''control_queue_capacity'' ''root.runtime'' True) (\<lambda>control_capacity.
        rbind (parse_devices J doc) (\<lambda>devices.
        rbind (parse_groups J doc devices) (\<lambda>groups.
        rbind (parse_plugins J doc ''processors'' False) (\<lambda>processors.
        rbind (parse_plugins J doc ''event_publishers'' False) (\<lambda>publishers.
        rbind (parse_plugins J doc ''device_control_sources'' True) (\<lambda>sources.
          Inr \<lparr>ac_run_duration = run_duration,
               ac_gateway = \<lparr>raw_queue_capacity = raw_capacity, control_queue_capacity = control_capacity,
                             gw_devices = devices, gw_groups = groups\<rparr>,
               ac_processors = processors, ac_event_publishers = publishers,
               ac_device_control_sources = sources\<rparr>))))))))))"

definition parse_config :: "'j json_ops \<Rightarrow> string \<Rightarrow> string \<Rightarrow> ApplicationConfig result" where
  "parse_config J json_text source_name =
     (let source = (if source_name = [] then ''<memory>'' else source_name)
      in case js_parse J json_text of
           Inl err \<Rightarrow> Inl (Runtime_error (''invalid JSON in '' @ source @ '': '' @ err))
         | Inr doc \<Rightarrow>
             (case parse_application_config J doc of
                Inl err \<Rightarrow> Inl (Runtime_error (''invalid configuration in '' @ source @ '': '' @ err))
              | Inr config \<Rightarrow> Inr config))"

text \<open>The file as the operating system delivers it.\<close>

datatype file_state = Cannot_open | Cannot_read | Contents string

definition load_config :: "'j json_ops \<Rightarrow> (string \<Rightarrow> file_state) \<Rightarrow> string \<Rightarrow> ApplicationConfig result" where
  "load_config J fs path =
     (case fs path of
        Cannot_open \<Rightarrow> Inl (Runtime_error (''cannot open configuration file: '' @ path))
      | Cannot_read \<Rightarrow> Inl (Runtime_error (''cannot read configuration file: '' @ path))
      | Contents contents \<Rightarrow> parse_config J contents path)"

section \<open>What a parsed configuration satisfies\<close>

lemma string_value_nonempty: "string_value J v path False = Inr s \<Longrightarrow> s \<noteq> []"
  by (auto simp: string_value_def cfail_def Let_def split: if_splits)

lemma string_member_nonempty: "string_member J v key path False = Inr s \<Longrightarrow> s \<noteq> []"
  by (auto simp: string_member_def rbind_Inr_iff dest: string_value_nonempty)

lemma size_member_positive: "size_member J v key path True = Inr n \<Longrightarrow> 0 < n \<and> n < 2 ^ 64"
proof -
  assume "size_member J v key path True = Inr n"
  then obtain w :: u64 where "w \<noteq> 0" "n = unat w"
    by (auto simp: size_member_def rbind_Inr_iff cfail_def split: if_splits)
  then show ?thesis using unat_u64_le [of w] by (simp add: unat_gt_0)
qed

lemma milliseconds_member_range:
  "milliseconds_member J v key path True = Inr d \<Longrightarrow> 0 < d \<and> d < 2 ^ 63"
proof -
  assume "milliseconds_member J v key path True = Inr d"
  then obtain w :: u64 where "w \<noteq> 0" "d = uint w" "uint w \<le> 2 ^ 63 - 1"
    by (auto simp: milliseconds_member_def rbind_Inr_iff cfail_def split: if_splits)
  moreover from this(1) have "uint w \<noteq> 0" by (simp add: unsigned_eq_0_iff)
  moreover have "0 \<le> uint w" by simp
  ultimately show ?thesis by linarith
qed

definition good_point :: "PointConfig \<Rightarrow> bool" where
  "good_point p \<longleftrightarrow> pt_name p \<noteq> [] \<and> isfinite (pt_scale p) \<and> isfinite (pt_offset p) \<and>
     (\<forall>lo. pt_minimum p = Some lo \<longrightarrow> isfinite lo) \<and> (\<forall>hi. pt_maximum p = Some hi \<longrightarrow> isfinite hi) \<and>
     \<not> inverted_range p"

lemma number_members_finite:
  "finite_number_member J v key path = Inr d \<Longrightarrow> isfinite d"
  "optional_number_member J v key path = Inr (Some d) \<Longrightarrow> isfinite d"
  by (auto simp: finite_number_member_def optional_number_member_def rbind_Inr_iff cfail_def
      split: if_splits option.splits)

lemma parse_point_good: "parse_point J v path = Inr p \<Longrightarrow> good_point p"
  by (auto simp: parse_point_def rbind_Inr_iff good_point_def cfail_def inverted_range_def
      dest: string_member_nonempty number_members_finite split: if_splits option.splits)

lemma string_array_good:
  assumes "string_array J v path True = Inr xs"
  shows "xs \<noteq> [] \<and> distinct xs \<and> [] \<notin> set xs"
proof -
  have e: "js_elements J v \<noteq> []" "rfold (string_array_item J path) [] (enumerate 0 (js_elements J v)) = Inr xs"
    using assms by (auto simp: string_array_def cfail_def split: if_splits)
  have step: "string_array_item J path r x = Inr r' \<Longrightarrow>
      \<exists>s. r' = r @ [s] \<and> s \<notin> set r \<and> s \<noteq> []" for r x r'
    by (auto simp: string_array_item_def rbind_Inr_iff cfail_def dest: string_value_nonempty
        split: prod.splits if_splits)
  have "distinct xs \<and> [] \<notin> set xs"
    by (rule rfold_invariant [OF e(2)]) (auto dest!: step)
  moreover have "xs \<noteq> []"
  proof -
    have len: "rfold (string_array_item J path) r ys = Inr xs \<Longrightarrow> length xs = length r + length ys" for r ys
      by (induction ys arbitrary: r) (fastforce dest: step split: sum.splits)+
    then show ?thesis using len [OF e(2)] e(1) by (metis add_0 length_0_conv length_enumerate list.size(3))
  qed
  ultimately show ?thesis by simp
qed

definition good_device :: "DeviceConfig \<Rightarrow> bool" where
  "good_device d \<longleftrightarrow> valid_device d \<and> spec_type (dev_driver d) \<noteq> [] \<and> (\<forall>p \<in> set (dev_points d). good_point p)"

lemma parse_points_good:
  assumes "rfold (parse_points_item J path) [] xs = Inr ps"
  shows "distinct (map pt_name ps) \<and> (\<forall>p \<in> set ps. good_point p)"
proof (rule rfold_invariant [OF assms])
  fix t x t'
  assume "distinct (map pt_name t) \<and> (\<forall>p \<in> set t. good_point p)" "parse_points_item J path t x = Inr t'"
  then show "distinct (map pt_name t') \<and> (\<forall>p \<in> set t'. good_point p)"
    by (auto simp: parse_points_item_def rbind_Inr_iff cfail_def Let_def dest: parse_point_good
        split: prod.splits if_splits)
qed simp

lemma parse_device_item_good:
  assumes "parse_device_item J ds x = Inr ds'"
  shows "\<exists>d. ds' = ds @ [d] \<and> good_device d \<and> dev_id d \<notin> dev_id ` set ds"
proof -
  obtain index v where x: "x = (index, v)" by (cases x)
  from assms obtain i driver settings library connection ps path xs where
    d: "ds' = ds @ [\<lparr>dev_id = i, dev_driver = \<lparr>spec_type = driver, spec_settings_json = settings, spec_library = library\<rparr>,
          dev_connection = connection, dev_points = ps\<rparr>]" "i \<notin> dev_id ` set ds"
      "string_member J v ''id'' path False = Inr i" "string_member J v ''driver'' path False = Inr driver"
      "rfold (parse_points_item J path) [] xs = Inr ps"
    by (auto simp: parse_device_item_def x Let_def rbind_Inr_iff cfail_def split: if_splits)
  show ?thesis
    using d(1,2) string_member_nonempty [OF d(3)] string_member_nonempty [OF d(4)] parse_points_good [OF d(5)]
    by (auto simp: good_device_def valid_device_def good_point_def)
qed

lemma parse_devices_good:
  assumes "parse_devices J doc = Inr ds"
  shows "distinct (map dev_id ds) \<and> (\<forall>d \<in> set ds. good_device d)"
proof -
  obtain xs where r: "rfold (parse_device_item J) [] xs = Inr ds"
    using assms by (auto simp: parse_devices_def rbind_Inr_iff cfail_def split: if_splits)
  show ?thesis
    by (rule rfold_invariant [OF r]) (auto dest!: parse_device_item_good)
qed

definition config_group :: "DeviceConfig list \<Rightarrow> CollectionGroup \<Rightarrow> bool" where
  "config_group ds g \<longleftrightarrow> grp_id g \<noteq> [] \<and> 0 < grp_interval g \<and> grp_interval g < 2 ^ 63 \<and>
     0 < grp_timeout g \<and> grp_timeout g < 2 ^ 63 \<and> grp_points g \<noteq> [] \<and> distinct (grp_points g) \<and>
     (\<exists>d \<in> set ds. dev_id d = grp_device_id g \<and> set (grp_points g) \<subseteq> pt_name ` set (dev_points d))"

lemma points_of_Some:
  "points_of ds i = Some names \<Longrightarrow> \<exists>d \<in> set ds. dev_id d = i \<and> names = map pt_name (dev_points d)"
  by (auto simp: points_of_def dest!: map_of_SomeD)

lemma parse_group_item_good:
  assumes "parse_group_item J ds gs x = Inr gs'"
  shows "\<exists>g. gs' = gs @ [g] \<and> config_group ds g \<and> grp_id g \<notin> grp_id ` set gs"
proof -
  obtain index v where x: "x = (index, v)" by (cases x)
  from assms obtain i dev iv to pts names path where
    g: "gs' = gs @ [\<lparr>grp_id = i, grp_device_id = dev, grp_interval = iv, grp_timeout = to, grp_points = pts\<rparr>]"
      "i \<notin> grp_id ` set gs" "string_member J v ''id'' path False = Inr i"
      "milliseconds_member J v ''interval_ms'' path True = Inr iv"
      "milliseconds_member J v ''timeout_ms'' path True = Inr to"
      "\<exists>w. string_array J w (path @ ''.points'') True = Inr pts"
      "points_of ds dev = Some names" "find (\<lambda>p. p \<notin> set names) pts = None"
    by (fastforce simp: parse_group_item_def x Let_def rbind_Inr_iff cfail_def split: if_splits option.splits)
  have "set pts \<subseteq> set names" using g(8) by (auto simp: find_None_iff)
  then have "config_group ds \<lparr>grp_id = i, grp_device_id = dev, grp_interval = iv, grp_timeout = to, grp_points = pts\<rparr>"
    using g string_member_nonempty [OF g(3)] milliseconds_member_range [OF g(4)]
      milliseconds_member_range [OF g(5)] string_array_good points_of_Some [OF g(7)]
    by (fastforce simp: config_group_def)
  then show ?thesis using g(1,2) by auto
qed

lemma parse_groups_good:
  assumes "parse_groups J doc ds = Inr gs"
  shows "distinct (map grp_id gs) \<and> (\<forall>g \<in> set gs. config_group ds g)"
proof -
  obtain xs where r: "rfold (parse_group_item J ds) [] xs = Inr gs"
    using assms by (auto simp: parse_groups_def rbind_Inr_iff)
  show ?thesis
    by (rule rfold_invariant [OF r]) (auto dest!: parse_group_item_good)
qed

lemma parse_plugins_good:
  assumes "parse_plugins J doc key optional = Inr ps"
  shows "distinct (map pc_id ps) \<and> (\<forall>p \<in> set ps. pc_id p \<noteq> [] \<and> pc_type p \<noteq> [])"
proof (cases "optional \<and> js_find J doc key = None")
  case True
  then show ?thesis using assms by (simp add: parse_plugins_def)
next
  case False
  then obtain xs base where r: "rfold (parse_plugin_item J base) [] xs = Inr ps"
    using assms by (auto simp: parse_plugins_def rbind_Inr_iff)
  have step: "parse_plugin_item J base t x = Inr t' \<Longrightarrow>
      \<exists>p. t' = t @ [p] \<and> pc_id p \<notin> pc_id ` set t \<and> pc_id p \<noteq> [] \<and> pc_type p \<noteq> []" for t x t'
    by (auto simp: parse_plugin_item_def Let_def rbind_Inr_iff cfail_def dest: string_member_nonempty
        split: prod.splits if_splits)
  show ?thesis
    by (rule rfold_invariant [OF r]) (auto dest!: step)
qed

definition good_config :: "ApplicationConfig \<Rightarrow> bool" where
  "good_config c \<longleftrightarrow>
     0 < raw_queue_capacity (ac_gateway c) \<and> 0 < control_queue_capacity (ac_gateway c) \<and>
     distinct (map dev_id (gw_devices (ac_gateway c))) \<and> (\<forall>d \<in> set (gw_devices (ac_gateway c)). good_device d) \<and>
     distinct (map grp_id (gw_groups (ac_gateway c))) \<and>
     (\<forall>g \<in> set (gw_groups (ac_gateway c)). config_group (gw_devices (ac_gateway c)) g) \<and>
     (\<forall>d. ac_run_duration c = Some d \<longrightarrow> 0 < d \<and> d < 2 ^ 63) \<and>
     (\<forall>ps \<in> {ac_processors c, ac_event_publishers c, ac_device_control_sources c}.
        distinct (map pc_id ps) \<and> (\<forall>p \<in> set ps. pc_id p \<noteq> [] \<and> pc_type p \<noteq> []))"

lemma parse_application_config_good:
  assumes "parse_application_config J doc = Inr c"
  shows "good_config c"
proof -
  from assms obtain runtime rd rc cc ds gs p1 p2 p3 where
    c: "c = \<lparr>ac_run_duration = rd, ac_gateway = \<lparr>raw_queue_capacity = rc, control_queue_capacity = cc,
          gw_devices = ds, gw_groups = gs\<rparr>, ac_processors = p1, ac_event_publishers = p2,
          ac_device_control_sources = p3\<rparr>"
    and rd: "rd = None \<or> (\<exists>d. rd = Some d \<and> milliseconds_member J runtime ''run_duration_ms'' ''root.runtime'' True = Inr d)"
    and cap: "size_member J runtime ''raw_queue_capacity'' ''root.runtime'' True = Inr rc"
      "cc = default_control_queue_capacity \<or>
       size_member J runtime ''control_queue_capacity'' ''root.runtime'' True = Inr cc"
    and rest: "parse_devices J doc = Inr ds" "parse_groups J doc ds = Inr gs"
      "parse_plugins J doc ''processors'' False = Inr p1" "parse_plugins J doc ''event_publishers'' False = Inr p2"
      "parse_plugins J doc ''device_control_sources'' True = Inr p3"
    by (fastforce simp: parse_application_config_def rbind_Inr_iff cfail_def split: if_splits option.splits)
  have "0 < cc" using cap(2) by (auto simp: default_control_queue_capacity_def dest: size_member_positive)
  then show ?thesis
    using rd size_member_positive [OF cap(1)] parse_devices_good [OF rest(1)]
      parse_groups_good [OF rest(2)] parse_plugins_good [OF rest(3)] parse_plugins_good [OF rest(4)]
      parse_plugins_good [OF rest(5)]
    by (auto simp: good_config_def c dest: milliseconds_member_range)
qed

section \<open>Properties\<close>

text \<open>A document with one device, one collection group and the given polling interval.\<close>

definition example_doc :: "u64 \<Rightarrow> json_tree" where
  "example_doc interval = J_object
     [(''runtime'', J_object [(''raw_queue_capacity'', J_unsigned 8)]),
      (''devices'', J_array [J_object
         [(''id'', J_string ''plc''), (''driver'', J_string ''sim''), (''driver_config'', J_object []),
          (''connection'', J_object [(''host'', J_string ''10.0.0.1'')]),
          (''points'', J_array [J_object
             [(''name'', J_string ''t''), (''type'', J_string ''double''), (''unit'', J_string ''C''),
              (''address'', J_object []), (''scale'', J_unsigned 1), (''offset'', J_unsigned 0),
              (''minimum'', J_null)]])]]),
      (''groups'', J_array [J_object
         [(''id'', J_string ''fast''), (''device_id'', J_string ''plc''), (''interval_ms'', J_unsigned interval),
          (''timeout_ms'', J_unsigned 50), (''points'', J_array [J_string ''t''])]]),
      (''processors'', J_array []), (''event_publishers'', J_array [])]"

definition example_json :: "u64 \<Rightarrow> json_tree json_ops" where
  "example_json interval = tree_ops (\<lambda>text. if text = [] then Inl ''empty'' else Inr (example_doc interval))"

text \<open>C26: a configuration that parses is consistent. Whatever JSON library delivers the document, an accepted
  configuration has positive queue capacities, distinct non-empty device ids with valid points (distinct names, finite
  scale, offset and limits, limits not inverted), collection groups with distinct ids, positive intervals and
  timeouts and non-empty point lists that name existing points of an existing device, and distinct plugin ids;
  a rejected one ends in a \<open>std::runtime_error\<close> and in nothing else.\<close>

theorem parse_config_consistent:
  "case parse_config J json_text source of
     Inl e \<Rightarrow> (\<exists>m. e = Runtime_error m)
   | Inr c \<Rightarrow>
       0 < raw_queue_capacity (ac_gateway c) \<and> 0 < control_queue_capacity (ac_gateway c) \<and>
       distinct (map dev_id (gw_devices (ac_gateway c))) \<and>
       list_all valid_device (gw_devices (ac_gateway c)) \<and>
       list_all (\<lambda>d. list_all good_point (dev_points d)) (gw_devices (ac_gateway c)) \<and>
       distinct (map grp_id (gw_groups (ac_gateway c))) \<and>
       list_all (config_group (gw_devices (ac_gateway c))) (gw_groups (ac_gateway c)) \<and>
       distinct (map pc_id (ac_processors c)) \<and> distinct (map pc_id (ac_event_publishers c)) \<and>
       distinct (map pc_id (ac_device_control_sources c))"
  using parse_application_config_good [of J]
  by (fastforce simp: parse_config_def Let_def good_config_def good_device_def list_all_iff split: sum.splits)

text \<open>The parser accepts durations the clock cannot represent. An \<open>interval_ms\<close> of \<open>INT64_MAX\<close> passes every check,
  although the interval alone, in the clock's nanoseconds, exceeds the largest time point, so that the due time
  \<open>start_time + group.interval\<close> overflows; \<open>timeout_ms\<close> and \<open>run_duration_ms\<close> are checked in the same way.\<close>

theorem interval_overflow_accepted:
  "\<exists>c. parse_config (example_json (2 ^ 63 - 1)) ''{...}'' [] = Inr c \<and>
     (\<exists>g \<in> set (gw_groups (ac_gateway c)). time_point_max < ms (grp_interval g))"
proof -
  let ?r = "parse_config (example_json (2 ^ 63 - 1)) ''{...}'' []"
  have v: "map_sum id (\<lambda>c. map grp_interval (gw_groups (ac_gateway c))) ?r = Inr [9223372036854775807]"
    by code_simp
  obtain c where c: "?r = Inr c" using v by (cases ?r) auto
  with v have "map grp_interval (gw_groups (ac_gateway c)) = [9223372036854775807]" by simp
  then obtain g where "g \<in> set (gw_groups (ac_gateway c))" "grp_interval g = 9223372036854775807"
    by (auto simp: map_eq_Cons_conv)
  moreover from this(2) have "time_point_max < ms (grp_interval g)"
    by (simp add: ms_def time_point_max_def)
  ultimately show ?thesis using c by blast
qed

end
