(* ===== verification/Plugin_Registry.thy ===== *)
theory Plugin_Registry
  imports Runtime Config
begin

text \<open>
  \<open>src/core/plugin_registry.cpp\<close>: the table of plugin factories, the loading of shared
  libraries at start-up and the creation of plugin instances. The operating system's loader is
  the record \<open>os_loader\<close>: handles \<open>'h\<close>, addresses \<open>'a\<close>, what calling a \<open>create_plugin\<close> address
  does, and opaque plugin objects \<open>'x\<close> of all four interfaces. The branch for POSIX systems is
  modelled. Code that throws after having changed the registry is an action: the exception,
  if any, and the registry at that point.
\<close>

section \<open>Paths\<close>

text \<open>
  \<open>std::filesystem::path\<close> on POSIX is its text; two paths are equal when they agree on the
  root directory and on the sequence of elements, whatever the number of separators between
  them, with an empty last element for a trailing separator.
\<close>

fun split_slash :: "string \<Rightarrow> string list" where
  "split_slash [] = [[]]"
| "split_slash (c # s) =
     (if c = CHR ''/'' then [] # split_slash s
      else (case split_slash s of [] \<Rightarrow> [[c]] | e # es \<Rightarrow> (c # e) # es))"

definition filename :: "string \<Rightarrow> string" where
  "filename p = last (split_slash p)"

definition path_key :: "string \<Rightarrow> bool \<times> string list" where
  "path_key p =
     (take 1 p = ''/'',
      (let es = filter (\<lambda>e. e \<noteq> []) (split_slash p)
       in if filename p = [] \<and> es \<noteq> [] then es @ [[]] else es))"

text \<open>The extension starts at the last dot, which must not be the first character.\<close>

definition has_extension :: "string \<Rightarrow> bool" where
  "has_extension p \<longleftrightarrow>
     (let f = filename p in f \<noteq> ''.'' \<and> f \<noteq> ''..'' \<and> CHR ''.'' \<in> set (tl f))"

definition validate_library_filename :: "string \<Rightarrow> string \<Rightarrow> unit result" where
  "validate_library_filename configured type =
     (if configured = []
      then Inl (Invalid_argument (''plugin '' @ [CHR 0x27] @ type @ [CHR 0x27] @ '' must specify a library path''))
      else if filename configured = [] \<or> \<not> has_extension configured
      then Inl (Invalid_argument (''plugin '' @ [CHR 0x27] @ type @ [CHR 0x27] @
             '' library must be a complete filename with a suffix: '' @ configured))
      else Inr ())"

section \<open>Libraries and factories\<close>

record ('h, 'a, 'x) os_loader =
  os_dlopen :: "string \<Rightarrow> 'h option"
  os_dlerror :: "string \<Rightarrow> string option"
  os_dlsym :: "'h \<Rightarrow> string \<Rightarrow> 'a option"
  os_create :: "'a \<Rightarrow> string \<Rightarrow> 'x option result"

record 'h DynamicPluginLoader =
  dl_path :: string
  dl_handle :: 'h

definition DynamicPluginLoader_new :: "('h, 'a, 'x) os_loader \<Rightarrow> string \<Rightarrow> 'h DynamicPluginLoader result" where
  "DynamicPluginLoader_new os path =
     (case os_dlopen os (c_str path) of
        None \<Rightarrow> Inl (Runtime_error (''dlopen failed for '' @ path @
                 (case os_dlerror os (c_str path) of None \<Rightarrow> [] | Some detail \<Rightarrow> '': '' @ detail)))
      | Some handle \<Rightarrow> Inr \<lparr>dl_path = path, dl_handle = handle\<rparr>)"

definition DynamicPluginLoader_symbol :: "('h, 'a, 'x) os_loader \<Rightarrow> 'h DynamicPluginLoader \<Rightarrow> string \<Rightarrow> 'a option" where
  "DynamicPluginLoader_symbol os library name = os_dlsym os (dl_handle library) (c_str name)"

text \<open>
  A plugin object as the gateway holds it: made by a factory registered directly, or an
  adapter (\<open>LoadedDriver\<close>, \<open>LoadedProcessor\<close>, \<open>LoadedPublisher\<close>, \<open>LoadedControlSource\<close>) with the
  library it keeps loaded, the object behind the C interface and its destroy function.
\<close>

datatype ('h, 'a, 'x) plugin =
    Static 'x
  | Loaded "'h DynamicPluginLoader" 'x 'a

type_synonym ('h, 'a, 'x) factory = "string \<Rightarrow> ('h, 'a, 'x) plugin option result"

datatype PluginKind = Driver | Processor_kind | EventPublisher | DeviceControlSource

record ('h, 'a, 'x) PluginRegistry =
  pr_driver_factories :: "string \<rightharpoonup> ('h, 'a, 'x) factory"
  pr_processor_factories :: "string \<rightharpoonup> ('h, 'a, 'x) factory"
  pr_event_publisher_factories :: "string \<rightharpoonup> ('h, 'a, 'x) factory"
  pr_device_control_source_factories :: "string \<rightharpoonup> ('h, 'a, 'x) factory"
  pr_dynamic_plugins :: "'h DynamicPluginLoader list"
  pr_dynamic_plugin_sources :: "string \<rightharpoonup> string"
  pr_dynamic_library_owners :: "bool \<times> string list \<rightharpoonup> string"
  pr_dynamic_loading_called :: bool

definition PluginRegistry_new :: "('h, 'a, 'x) PluginRegistry" where
  "PluginRegistry_new =
     \<lparr>pr_driver_factories = Map.empty, pr_processor_factories = Map.empty,
      pr_event_publisher_factories = Map.empty, pr_device_control_source_factories = Map.empty,
      pr_dynamic_plugins = [], pr_dynamic_plugin_sources = Map.empty,
      pr_dynamic_library_owners = Map.empty, pr_dynamic_loading_called = False\<rparr>"

text \<open>The table of a kind, and its name in messages.\<close>

fun factories :: "PluginKind \<Rightarrow> ('h, 'a, 'x) PluginRegistry \<Rightarrow> string \<rightharpoonup> ('h, 'a, 'x) factory" where
  "factories Driver r = pr_driver_factories r"
| "factories Processor_kind r = pr_processor_factories r"
| "factories EventPublisher r = pr_event_publisher_factories r"
| "factories DeviceControlSource r = pr_device_control_source_factories r"

fun with_factories ::
  "PluginKind \<Rightarrow> (string \<rightharpoonup> ('h, 'a, 'x) factory) \<Rightarrow> ('h, 'a, 'x) PluginRegistry \<Rightarrow> ('h, 'a, 'x) PluginRegistry" where
  "with_factories Driver m r = r\<lparr>pr_driver_factories := m\<rparr>"
| "with_factories Processor_kind m r = r\<lparr>pr_processor_factories := m\<rparr>"
| "with_factories EventPublisher m r = r\<lparr>pr_event_publisher_factories := m\<rparr>"
| "with_factories DeviceControlSource m r = r\<lparr>pr_device_control_source_factories := m\<rparr>"

fun category :: "PluginKind \<Rightarrow> string" where
  "category Driver = ''driver''"
| "category Processor_kind = ''processor''"
| "category EventPublisher = ''event publisher''"
| "category DeviceControlSource = ''device control source''"

section \<open>Registration and lookup\<close>

text \<open>An empty \<open>std::function\<close> is \<^const>\<open>None\<close>.\<close>

definition register_factory ::
  "(string \<rightharpoonup> 'f) \<Rightarrow> string \<Rightarrow> 'f option \<Rightarrow> string \<Rightarrow> (string \<rightharpoonup> 'f) result" where
  "register_factory fs type f cat =
     (case f of
        None \<Rightarrow> Inl (Invalid_argument (cat @ '' plugin type and factory are required''))
      | Some g \<Rightarrow>
          if type = [] then Inl (Invalid_argument (cat @ '' plugin type and factory are required''))
          else if fs type \<noteq> None then Inl (Invalid_argument (''duplicate '' @ cat @ '' plugin type: '' @ type))
          else Inr (fs(type \<mapsto> g)))"

definition find_factory :: "(string \<rightharpoonup> 'f) \<Rightarrow> string \<Rightarrow> string \<Rightarrow> 'f result" where
  "find_factory fs type cat =
     (case fs type of
        None \<Rightarrow> Inl (Invalid_argument (''unknown '' @ cat @ '' plugin type: '' @ type))
      | Some f \<Rightarrow> Inr f)"

definition has_factory :: "(string \<rightharpoonup> 'f) \<Rightarrow> string \<Rightarrow> bool" where
  "has_factory fs type \<longleftrightarrow> fs type \<noteq> None"

text \<open>\<open>register_driver\<close>, \<open>register_processor\<close>, \<open>register_event_publisher\<close>, \<open>register_device_control_source\<close>.\<close>

definition register_plugin ::
  "PluginKind \<Rightarrow> string \<Rightarrow> ('h, 'a, 'x) factory option \<Rightarrow> ('h, 'a, 'x) PluginRegistry action" where
  "register_plugin kind type f r =
     (case register_factory (factories kind r) type f (category kind) of
        Inl e \<Rightarrow> (Some e, r)
      | Inr m \<Rightarrow> (None, with_factories kind m r))"

fun source_category :: "PluginKind \<Rightarrow> string" where
  "source_category Driver = ''driver''"
| "source_category Processor_kind = ''processor''"
| "source_category EventPublisher = ''event_publisher''"
| "source_category DeviceControlSource = ''device_control_source''"

definition source_key :: "PluginKind \<Rightarrow> string \<Rightarrow> string" where
  "source_key kind type = source_category kind @ '':'' @ type"

section \<open>Loading\<close>

definition function_symbol ::
  "('h, 'a, 'x) os_loader \<Rightarrow> 'h DynamicPluginLoader \<Rightarrow> string \<Rightarrow> string \<Rightarrow> 'a result" where
  "function_symbol os library name type =
     (case DynamicPluginLoader_symbol os library name of
        None \<Rightarrow> Inl (Runtime_error (''plugin '' @ [CHR 0x27] @ type @ [CHR 0x27] @ '' in '' @ dl_path library @
                 '' does not export '' @ name))
      | Some address \<Rightarrow> Inr address)"

text \<open>The allocation of the adapter is assumed to succeed.\<close>

definition dynamic_factory ::
  "('h, 'a, 'x) os_loader \<Rightarrow> 'h DynamicPluginLoader \<Rightarrow> 'a \<Rightarrow> 'a \<Rightarrow> string \<Rightarrow> ('h, 'a, 'x) factory" where
  "dynamic_factory os library create destroy type settings =
     (case os_create os create (c_str settings) of
        Inl e \<Rightarrow>
          (case what e of
             Some m \<Rightarrow> Inl (Runtime_error (''create_plugin failed for '' @ [CHR 0x27] @ type @ [CHR 0x27] @ '': '' @ m))
           | None \<Rightarrow> Inl (Runtime_error (''create_plugin failed for plugin '' @ [CHR 0x27] @ type @ [CHR 0x27])))
      | Inr None \<Rightarrow>
          Inl (Runtime_error (''create_plugin returned null for plugin '' @ [CHR 0x27] @ type @ [CHR 0x27]))
      | Inr (Some raw) \<Rightarrow> Inr (Some (Loaded library raw destroy)))"

definition find_or_open ::
  "('h, 'a, 'x) os_loader \<Rightarrow> string \<Rightarrow> string \<Rightarrow> ('h, 'a, 'x) PluginRegistry \<Rightarrow>
   'h DynamicPluginLoader result \<times> ('h, 'a, 'x) PluginRegistry" where
  "find_or_open os configured type r =
     (case validate_library_filename configured type of
        Inl e \<Rightarrow> (Inl e, r)
      | Inr _ \<Rightarrow>
          (case find (\<lambda>loaded. path_key (dl_path loaded) = path_key configured) (pr_dynamic_plugins r) of
             Some loaded \<Rightarrow> (Inr loaded, r)
           | None \<Rightarrow>
               (case DynamicPluginLoader_new os configured of
                  Inl e \<Rightarrow> (Inl (Runtime_error (''cannot load plugin '' @ [CHR 0x27] @ type @ [CHR 0x27] @ '': '' @
                              (case what e of None \<Rightarrow> [] | Some m \<Rightarrow> m))), r)
                | Inr loaded \<Rightarrow> (Inr loaded, r\<lparr>pr_dynamic_plugins := pr_dynamic_plugins r @ [loaded]\<rparr>))))"

definition claim_library :: "string \<Rightarrow> string \<Rightarrow> ('h, 'a, 'x) PluginRegistry action" where
  "claim_library configured key r =
     (case pr_dynamic_library_owners r (path_key configured) of
        Some owner \<Rightarrow>
          if owner \<noteq> key
          then (Some (Invalid_argument (''plugin library '' @ configured @ '' is already assigned to '' @ owner @
                  '' and cannot be assigned to '' @ key)), r)
          else (None, r)
      | None \<Rightarrow> (None, r\<lparr>pr_dynamic_library_owners := (pr_dynamic_library_owners r)(path_key configured \<mapsto> key)\<rparr>))"

text \<open>
  The part the lambdas \<open>load_driver\<close>, \<open>load_processor\<close>, \<open>load_publisher\<close> and \<open>load_control_source\<close>
  share: opening the library, resolving its two symbols and registering the factory.
\<close>

definition open_and_register ::
  "('h, 'a, 'x) os_loader \<Rightarrow> PluginKind \<Rightarrow> string \<Rightarrow> string \<Rightarrow> ('h, 'a, 'x) PluginRegistry action" where
  "open_and_register os kind type lib r =
     (case find_or_open os lib type r of
        (Inl e, r1) \<Rightarrow> (Some e, r1)
      | (Inr library, r1) \<Rightarrow>
          (case rbind (function_symbol os library ''create_plugin'' type) (\<lambda>create.
                  rbind (function_symbol os library ''destroy_plugin'' type) (\<lambda>destroy. Inr (create, destroy))) of
             Inl e \<Rightarrow> (Some e, r1)
           | Inr (create, destroy) \<Rightarrow>
               andthen (register_plugin kind type (Some (dynamic_factory os library create destroy type)))
                 (\<lambda>r2. (None, r2\<lparr>pr_dynamic_plugin_sources :=
                               (pr_dynamic_plugin_sources r2)(source_key kind type \<mapsto> lib)\<rparr>)) r1))"

fun multiple_libraries :: "PluginKind \<Rightarrow> string" where
  "multiple_libraries Driver = ''driver plugin type''"
| "multiple_libraries Processor_kind = ''processor plugin type''"
| "multiple_libraries EventPublisher = ''event publisher type''"
| "multiple_libraries DeviceControlSource = ''device control source type''"

definition load_plugin ::
  "('h, 'a, 'x) os_loader \<Rightarrow> PluginKind \<Rightarrow> string \<Rightarrow> string \<Rightarrow> ('h, 'a, 'x) PluginRegistry action" where
  "load_plugin os kind type lib r =
     (let key = source_key kind type
      in if lib = []
         then if \<not> has_factory (factories kind r) type
              then (Some (Invalid_argument (category kind @ '' plugin '' @ [CHR 0x27] @ type @ [CHR 0x27] @
                      '' has no library path and is not registered'')), r)
              else (None, r)
         else case pr_dynamic_plugin_sources r key of
                Some previous \<Rightarrow>
                  if path_key previous \<noteq> path_key lib
                  then (Some (Invalid_argument (multiple_libraries kind @
                          '' is configured with multiple libraries: '' @ type)), r)
                  else (None, r)
              | None \<Rightarrow>
                  if has_factory (factories kind r) type
                  then (Some (Invalid_argument (''duplicate '' @ category kind @ '' plugin type: '' @ type)), r)
                  else andthen (claim_library lib key) (open_and_register os kind type lib) r)"

definition load_driver :: "('h, 'a, 'x) os_loader \<Rightarrow> PluginSpec \<Rightarrow> ('h, 'a, 'x) PluginRegistry action" where
  "load_driver os spec = load_plugin os Driver (spec_type spec) (spec_library spec)"

definition load_processor :: "('h, 'a, 'x) os_loader \<Rightarrow> PluginConfig \<Rightarrow> ('h, 'a, 'x) PluginRegistry action" where
  "load_processor os spec r =
     (if \<not> pc_enabled spec then (None, r) else load_plugin os Processor_kind (pc_type spec) (pc_library spec) r)"

definition load_publisher :: "('h, 'a, 'x) os_loader \<Rightarrow> PluginConfig \<Rightarrow> ('h, 'a, 'x) PluginRegistry action" where
  "load_publisher os spec r =
     (if \<not> pc_enabled spec then (None, r) else load_plugin os EventPublisher (pc_type spec) (pc_library spec) r)"

definition load_control_source :: "('h, 'a, 'x) os_loader \<Rightarrow> PluginConfig \<Rightarrow> ('h, 'a, 'x) PluginRegistry action" where
  "load_control_source os spec r =
     (if \<not> pc_enabled spec then (None, r)
      else load_plugin os DeviceControlSource (pc_type spec) (pc_library spec) r)"

definition load_dynamic_plugins ::
  "('h, 'a, 'x) os_loader \<Rightarrow> ApplicationConfig \<Rightarrow> ('h, 'a, 'x) PluginRegistry action" where
  "load_dynamic_plugins os config r =
     (if pr_dynamic_loading_called r
      then (Some (Logic_error ''dynamic plugins can only be loaded once per registry''), r)
      else andthen (run_each (\<lambda>device. load_driver os (dev_driver device)) (gw_devices (ac_gateway config)))
          (andthen (run_each (load_processor os) (ac_processors config))
          (andthen (run_each (load_publisher os) (ac_event_publishers config))
                   (run_each (load_control_source os) (ac_device_control_sources config))))
          (r\<lparr>pr_dynamic_loading_called := True\<rparr>))"

section \<open>Creating instances\<close>

record ('h, 'a, 'x) PluginInstances =
  in_drivers :: "('h, 'a, 'x) plugin DriverInstance list"
  in_processors :: "('h, 'a, 'x) plugin option list"
  in_event_publishers :: "('h, 'a, 'x) plugin EventPublisherInstance list"
  in_sources :: "('h, 'a, 'x) plugin option list"

text \<open>Looking up a factory, calling it and refusing a null result, as each of the four loops does.\<close>

definition instantiate ::
  "('h, 'a, 'x) PluginRegistry \<Rightarrow> PluginKind \<Rightarrow> string \<Rightarrow> string \<Rightarrow> ('h, 'a, 'x) plugin result" where
  "instantiate r kind type settings =
     rbind (find_factory (factories kind r) type (category kind)) (\<lambda>factory.
     rbind (factory settings) (\<lambda>p.
       case p of
         None \<Rightarrow> Inl (Runtime_error (category kind @ '' plugin factory returned null: '' @ type))
       | Some q \<Rightarrow> Inr q))"

definition create_driver ::
  "('h, 'a, 'x) PluginRegistry \<Rightarrow> ('h, 'a, 'x) plugin DriverInstance list \<Rightarrow> DeviceConfig \<Rightarrow>
   ('h, 'a, 'x) plugin DriverInstance list result" where
  "create_driver r drivers device =
     rbind (instantiate r Driver (spec_type (dev_driver device)) (spec_settings_json (dev_driver device))) (\<lambda>driver.
       Inr (drivers @ [\<lparr>di_device_id = dev_id device, di_driver = Some driver\<rparr>]))"

definition create_processor ::
  "('h, 'a, 'x) PluginRegistry \<Rightarrow> ('h, 'a, 'x) plugin option list \<Rightarrow> PluginConfig \<Rightarrow>
   ('h, 'a, 'x) plugin option list result" where
  "create_processor r processors spec =
     (if \<not> pc_enabled spec then Inr processors
      else rbind (instantiate r Processor_kind (pc_type spec) (pc_settings_json spec)) (\<lambda>processor.
             Inr (processors @ [Some processor])))"

definition create_publisher ::
  "('h, 'a, 'x) PluginRegistry \<Rightarrow> ('h, 'a, 'x) plugin EventPublisherInstance list \<Rightarrow> PluginConfig \<Rightarrow>
   ('h, 'a, 'x) plugin EventPublisherInstance list result" where
  "create_publisher r publishers spec =
     (if \<not> pc_enabled spec then Inr publishers
      else rbind (instantiate r EventPublisher (pc_type spec) (pc_settings_json spec)) (\<lambda>publisher.
             Inr (publishers @ [\<lparr>pi_id = pc_id spec, pi_publisher = Some publisher\<rparr>])))"

definition create_source ::
  "('h, 'a, 'x) PluginRegistry \<Rightarrow> ('h, 'a, 'x) plugin option list \<Rightarrow> PluginConfig \<Rightarrow>
   ('h, 'a, 'x) plugin option list result" where
  "create_source r sources spec =
     (if \<not> pc_enabled spec then Inr sources
      else rbind (instantiate r DeviceControlSource (pc_type spec) (pc_settings_json spec)) (\<lambda>source.
             Inr (sources @ [Some source])))"

definition PluginRegistry_create ::
  "('h, 'a, 'x) PluginRegistry \<Rightarrow> ApplicationConfig \<Rightarrow> ('h, 'a, 'x) PluginInstances result" where
  "PluginRegistry_create r config =
     rbind (rfold (create_driver r) [] (gw_devices (ac_gateway config))) (\<lambda>drivers.
     rbind (rfold (create_processor r) [] (ac_processors config)) (\<lambda>processors.
     rbind (rfold (create_publisher r) [] (ac_event_publishers config)) (\<lambda>publishers.
     rbind (rfold (create_source r) [] (ac_device_control_sources config)) (\<lambda>sources.
       Inr \<lparr>in_drivers = drivers, in_processors = processors, in_event_publishers = publishers,
            in_sources = sources\<rparr>))))"

section \<open>Adapters\<close>

text \<open>
  The methods of an adapter forward to the object behind it; \<open>stop\<close> and \<open>request_stop\<close> are
  \<open>noexcept\<close> and swallow what that object throws.
\<close>

fun implementation :: "('h, 'a, 'x) plugin \<Rightarrow> 'x" where
  "implementation (Static x) = x"
| "implementation (Loaded library x destroy) = x"

text \<open>\<open>LoadedDriver\<close>; \<open>poll\<close> and \<open>control\<close> reach the object the same way, with their answers in \<open>poll_env\<close> and \<open>exec_env\<close>.\<close>

definition LoadedDriver_capabilities :: "('x, 'b, 's) plugins \<Rightarrow> ('h, 'a, 'x) plugin \<Rightarrow> AcquisitionMode result" where
  "LoadedDriver_capabilities pg p = pg_driver_capabilities pg (implementation p)"

definition LoadedDriver_configure :: "('x, 'b, 's) plugins \<Rightarrow> ('h, 'a, 'x) plugin \<Rightarrow> DeviceConfig \<Rightarrow> exn option" where
  "LoadedDriver_configure pg p device = pg_driver_configure pg (implementation p) device"

definition LoadedDriver_start :: "('x, 'b, 's) plugins \<Rightarrow> ('h, 'a, 'x) plugin \<Rightarrow> exn option" where
  "LoadedDriver_start pg p = pg_driver_start pg (implementation p)"

text \<open>\<open>LoadedProcessor\<close>: the object behind the adapter changes its state, the adapter stays.\<close>

fun with_implementation :: "('h, 'a, 'x) plugin \<Rightarrow> 'x \<Rightarrow> ('h, 'a, 'x) plugin" where
  "with_implementation (Static x) y = Static y"
| "with_implementation (Loaded library x destroy) y = Loaded library y destroy"

definition LoadedProcessor_process :: "('x, 'w) process_fn \<Rightarrow> (('h, 'a, 'x) plugin, 'w) process_fn" where
  "LoadedProcessor_process proc context p e w =
     (let out = proc context (implementation p) e w
      in \<lparr>po_error = po_error out, po_processor = with_implementation p (po_processor out), po_event = po_event out,
          po_world = po_world out\<rparr>)"

definition loaded_worker :: "('x, 'c) worker_env \<Rightarrow> (('h, 'a, 'x) plugin, 'c) worker_env" where
  "loaded_worker we = \<lparr>we_process = LoadedProcessor_process (we_process we), we_llround = we_llround we,
     we_received_at = we_received_at we, we_now = we_now we\<rparr>"

text \<open>\<open>LoadedPublisher\<close>.\<close>

definition LoadedPublisher_configure :: "('d, 'x, 's) plugins \<Rightarrow> ('h, 'a, 'x) plugin \<Rightarrow> GatewayConfig \<Rightarrow> exn option" where
  "LoadedPublisher_configure pg p gateway = pg_publisher_configure pg (implementation p) gateway"

definition LoadedPublisher_start :: "('d, 'x, 's) plugins \<Rightarrow> ('h, 'a, 'x) plugin \<Rightarrow> exn option" where
  "LoadedPublisher_start pg p = pg_publisher_start pg (implementation p)"

definition LoadedPublisher_publish :: "('d, 'x, 's) plugins \<Rightarrow> ('h, 'a, 'x) plugin \<Rightarrow> Event \<Rightarrow> EventPublishResult result" where
  "LoadedPublisher_publish pg p event = pg_publish pg (implementation p) event"

text \<open>\<open>LoadedControlSource\<close>.\<close>

definition LoadedControlSource_configure :: "('d, 'b, 'x) plugins \<Rightarrow> ('h, 'a, 'x) plugin \<Rightarrow> exn option" where
  "LoadedControlSource_configure pg p = pg_source_configure pg (implementation p)"

definition LoadedControlSource_start :: "('d, 'b, 'x) plugins \<Rightarrow> ('h, 'a, 'x) plugin \<Rightarrow> exn option" where
  "LoadedControlSource_start pg p = pg_source_start pg (implementation p)"

definition adapters :: "('x, 'x, 'x) plugins \<Rightarrow> (('h, 'a, 'x) plugin, ('h, 'a, 'x) plugin, ('h, 'a, 'x) plugin) plugins" where
  "adapters pg =
     \<lparr>pg_driver_configure = LoadedDriver_configure pg, pg_driver_capabilities = LoadedDriver_capabilities pg,
      pg_driver_start = LoadedDriver_start pg,
      pg_publisher_configure = LoadedPublisher_configure pg, pg_publisher_start = LoadedPublisher_start pg,
      pg_publish = LoadedPublisher_publish pg,
      pg_source_configure = LoadedControlSource_configure pg, pg_source_start = LoadedControlSource_start pg,
      pg_dispatcher_thread = pg_dispatcher_thread pg, pg_worker_thread = pg_worker_thread pg,
      pg_scheduler_thread = pg_scheduler_thread pg\<rparr>"

section \<open>Lifetimes\<close>

text \<open>
  A library stays open while a \<open>shared_ptr\<close> to its loader exists: in the registry, in a factory
  or in an adapter. Destroying an adapter first calls the plugin's destroy function; the last
  reference to go closes the library. Objects of directly registered factories have no library.
\<close>

datatype ('h, 'a, 'x) module_event =
    Ev_destroy "'h DynamicPluginLoader" 'x 'a
  | Ev_dlclose "'h DynamicPluginLoader"

record ('h, 'a, 'x) modules =
  md_refs :: "'h DynamicPluginLoader multiset"
  md_log :: "('h, 'a, 'x) module_event list"

definition release_library :: "'h DynamicPluginLoader \<Rightarrow> ('h, 'a, 'x) modules \<Rightarrow> ('h, 'a, 'x) modules" where
  "release_library l m =
     (let refs = md_refs m - {#l#}
      in m\<lparr>md_refs := refs, md_log := (if l \<in># refs then md_log m else md_log m @ [Ev_dlclose l])\<rparr>)"

datatype ('h, 'a, 'x) owner =
    Table_entry "'h DynamicPluginLoader"
  | Adapter "('h, 'a, 'x) plugin"

fun destroy_owner :: "('h, 'a, 'x) owner \<Rightarrow> ('h, 'a, 'x) modules \<Rightarrow> ('h, 'a, 'x) modules" where
  "destroy_owner (Table_entry l) m = release_library l m"
| "destroy_owner (Adapter (Loaded l x d)) m = release_library l (m\<lparr>md_log := md_log m @ [Ev_destroy l x d]\<rparr>)"
| "destroy_owner (Adapter (Static x)) m = m"

fun owner_refs :: "('h, 'a, 'x) owner \<Rightarrow> 'h DynamicPluginLoader list" where
  "owner_refs (Table_entry l) = [l]"
| "owner_refs (Adapter (Loaded l x d)) = [l]"
| "owner_refs (Adapter (Static x)) = []"

definition refs_of :: "('h, 'a, 'x) owner list \<Rightarrow> 'h DynamicPluginLoader list" where
  "refs_of owners = concat (map owner_refs owners)"

definition modules_of :: "('h, 'a, 'x) owner list \<Rightarrow> ('h, 'a, 'x) modules" where
  "modules_of owners = \<lparr>md_refs = mset (refs_of owners), md_log = []\<rparr>"

definition teardown :: "('h, 'a, 'x) owner list \<Rightarrow> ('h, 'a, 'x) module_event list" where
  "teardown owners = md_log (fold destroy_owner owners (modules_of owners))"

section \<open>Lemmas: loading\<close>

lemma source_key_inject [simp]: "source_key k t = source_key k' t' \<longleftrightarrow> k = k' \<and> t = t'"
  by (cases k; cases k') (simp_all add: source_key_def)

lemma factories_with_factories [simp]:
  "factories k (with_factories k' m r) = (if k = k' then m else factories k r)"
  by (cases k; cases k') simp_all

lemma with_factories_frame [simp]:
  "pr_dynamic_plugins (with_factories k m r) = pr_dynamic_plugins r"
  "pr_dynamic_plugin_sources (with_factories k m r) = pr_dynamic_plugin_sources r"
  "pr_dynamic_library_owners (with_factories k m r) = pr_dynamic_library_owners r"
  "pr_dynamic_loading_called (with_factories k m r) = pr_dynamic_loading_called r"
  by (cases k; simp)+

lemma factories_frame [simp]:
  "factories k (r\<lparr>pr_dynamic_plugins := a\<rparr>) = factories k r"
  "factories k (r\<lparr>pr_dynamic_plugin_sources := b\<rparr>) = factories k r"
  "factories k (r\<lparr>pr_dynamic_library_owners := c\<rparr>) = factories k r"
  "factories k (r\<lparr>pr_dynamic_loading_called := d\<rparr>) = factories k r"
  by (cases k; simp)+

lemma andthen_None_iff: "andthen a b s = (None, s'') \<longleftrightarrow> (\<exists>s'. a s = (None, s') \<and> b s' = (None, s''))"
  by (auto simp: andthen_def split: prod.splits option.splits)

lemma run_each_append: "run_each f (xs @ ys) = andthen (run_each f xs) (run_each f ys)"
proof
  show "run_each f (xs @ ys) s = andthen (run_each f xs) (run_each f ys) s" for s
    by (induction xs arbitrary: s) (auto simp: andthen_def split: prod.splits option.splits)
qed

lemma run_each_map: "run_each f (map g xs) s = run_each (\<lambda>x. f (g x)) xs s"
  by (induction xs arbitrary: s) (auto split: prod.splits option.splits)

lemma run_each_filter:
  "run_each (\<lambda>x s. if \<not> P x then (None, s) else f x s) xs s = run_each f (filter P xs) s"
  by (induction xs arbitrary: s) (auto split: prod.splits option.splits)

text \<open>
  A loop whose steps keep \<open>I\<close>, establish \<open>Q\<close> for their element and keep it for the
  others establishes \<open>Q\<close> for all.
\<close>

lemma run_each_collect:
  assumes "run_each f xs s = (None, s')" "I s"
    and step: "\<And>x s s'. f x s = (None, s') \<Longrightarrow> I s \<Longrightarrow> I s' \<and> Q x s' \<and> (\<forall>y. Q y s \<longrightarrow> Q y s')"
  shows "I s' \<and> (\<forall>x \<in> set xs. Q x s') \<and> (\<forall>y. Q y s \<longrightarrow> Q y s')"
  using assms(1,2)
proof (induction xs arbitrary: s)
  case (Cons x xs)
  from Cons.prems(1) obtain t where t: "f x s = (None, t)" "run_each f xs t = (None, s')"
    by (auto split: prod.splits option.splits)
  from step [OF t(1) Cons.prems(2)] Cons.IH [OF t(2)] show ?case by auto
qed simp

text \<open>Everything a configuration asks to load, in order: kind, type and library of each plugin in use.\<close>

definition plugin_entries :: "ApplicationConfig \<Rightarrow> (PluginKind \<times> string \<times> string) list" where
  "plugin_entries config =
     map (\<lambda>d. (Driver, spec_type (dev_driver d), spec_library (dev_driver d))) (gw_devices (ac_gateway config)) @
     map (\<lambda>s. (Processor_kind, pc_type s, pc_library s)) (filter pc_enabled (ac_processors config)) @
     map (\<lambda>s. (EventPublisher, pc_type s, pc_library s)) (filter pc_enabled (ac_event_publishers config)) @
     map (\<lambda>s. (DeviceControlSource, pc_type s, pc_library s)) (filter pc_enabled (ac_device_control_sources config))"

definition load_entry ::
  "('h, 'a, 'x) os_loader \<Rightarrow> PluginKind \<times> string \<times> string \<Rightarrow> ('h, 'a, 'x) PluginRegistry action" where
  "load_entry os = (\<lambda>(kind, type, lib). load_plugin os kind type lib)"

lemma load_dynamic_plugins_entries:
  "\<not> pr_dynamic_loading_called r \<Longrightarrow>
   load_dynamic_plugins os config r = run_each (load_entry os) (plugin_entries config) (r\<lparr>pr_dynamic_loading_called := True\<rparr>)"
  unfolding load_dynamic_plugins_def plugin_entries_def run_each_append load_driver_def load_processor_def [abs_def]
    load_publisher_def [abs_def] load_control_source_def [abs_def] run_each_filter [abs_def] run_each_map [abs_def]
    load_entry_def
  by simp

definition registry_inv :: "('h, 'a, 'x) PluginRegistry \<Rightarrow> bool" where
  "registry_inv r \<longleftrightarrow>
     (\<forall>k t. pr_dynamic_plugin_sources r (source_key k t) \<noteq> None \<longrightarrow> factories k r t \<noteq> None) \<and>
     (\<forall>key l. pr_dynamic_plugin_sources r key = Some l \<longrightarrow> pr_dynamic_library_owners r (path_key l) = Some key) \<and>
     distinct (map (\<lambda>d. path_key (dl_path d)) (pr_dynamic_plugins r))"

definition entry_loaded :: "PluginKind \<times> string \<times> string \<Rightarrow> ('h, 'a, 'x) PluginRegistry \<Rightarrow> bool" where
  "entry_loaded = (\<lambda>(kind, type, lib) r. factories kind r type \<noteq> None \<and>
     (lib \<noteq> [] \<longrightarrow> (\<exists>l. pr_dynamic_plugin_sources r (source_key kind type) = Some l \<and> path_key l = path_key lib)))"

text \<open>What opening changes.\<close>

lemma find_or_open_inv:
  assumes "find_or_open os lib type r = (Inr library, r1)" "registry_inv r"
  shows "registry_inv r1 \<and> (\<forall>k. factories k r1 = factories k r) \<and>
     pr_dynamic_plugin_sources r1 = pr_dynamic_plugin_sources r \<and>
     pr_dynamic_library_owners r1 = pr_dynamic_library_owners r"
  using assms
  by (auto simp: find_or_open_def registry_inv_def DynamicPluginLoader_new_def find_None_iff image_iff
      split: sum.splits option.splits) blast

lemma register_plugin_None:
  "register_plugin kind type f r = (None, r') \<longleftrightarrow>
     (\<exists>g. f = Some g \<and> type \<noteq> [] \<and> factories kind r type = None \<and>
          r' = with_factories kind ((factories kind r)(type \<mapsto> g)) r)"
  by (auto simp: register_plugin_def register_factory_def split: sum.splits option.splits if_splits)

lemma open_and_register_None:
  assumes "open_and_register os kind type lib r = (None, r')" "registry_inv r"
    and "pr_dynamic_library_owners r (path_key lib) = Some (source_key kind type)"
    and "pr_dynamic_plugin_sources r (source_key kind type) = None"
  shows "registry_inv r' \<and> factories kind r' type \<noteq> None \<and>
     pr_dynamic_plugin_sources r' = (pr_dynamic_plugin_sources r)(source_key kind type \<mapsto> lib) \<and>
     (\<forall>k. factories k r \<subseteq>\<^sub>m factories k r')"
proof -
  from assms(1) obtain library r1 create destroy where o: "find_or_open os lib type r = (Inr library, r1)"
    and t: "factories kind r1 type = None"
    and r': "r' = (with_factories kind ((factories kind r1)(type \<mapsto> dynamic_factory os library create destroy type)) r1)
        \<lparr>pr_dynamic_plugin_sources := (pr_dynamic_plugin_sources r1)(source_key kind type \<mapsto> lib)\<rparr>"
    by (auto simp: open_and_register_def andthen_None_iff register_plugin_None split: prod.splits sum.splits)
  note r1 = find_or_open_inv [OF o assms(2)]
  have "registry_inv r'"
    using r1 t assms(3,4) unfolding registry_inv_def r' by auto
  with r1 t show ?thesis unfolding r' by (auto simp: map_le_def)
qed

lemma load_plugin_None:
  assumes "load_plugin os kind type lib r = (None, r')" "registry_inv r"
  shows "registry_inv r' \<and> entry_loaded (kind, type, lib) r' \<and>
     (\<forall>k. factories k r \<subseteq>\<^sub>m factories k r') \<and> pr_dynamic_plugin_sources r \<subseteq>\<^sub>m pr_dynamic_plugin_sources r'"
proof (cases "lib \<noteq> [] \<and> pr_dynamic_plugin_sources r (source_key kind type) = None")
  case False
  then have "r' = r \<and> entry_loaded (kind, type, lib) r"
    using assms by (auto simp: load_plugin_def has_factory_def entry_loaded_def registry_inv_def Let_def
        split: if_splits option.splits)
  with assms(2) show ?thesis by simp
next
  case True
  with assms(1) obtain r1 where c: "claim_library lib (source_key kind type) r = (None, r1)"
    and o: "open_and_register os kind type lib r1 = (None, r')"
    by (auto simp: load_plugin_def andthen_None_iff Let_def split: if_splits)
  have r1: "pr_dynamic_library_owners r1 = (pr_dynamic_library_owners r)(path_key lib \<mapsto> source_key kind type)"
    "pr_dynamic_plugin_sources r1 = pr_dynamic_plugin_sources r" "\<forall>k. factories k r1 = factories k r"
    "pr_dynamic_plugins r1 = pr_dynamic_plugins r"
    "pr_dynamic_library_owners r (path_key lib) \<in> {None, Some (source_key kind type)}"
    using c by (auto simp: claim_library_def fun_upd_idem split: option.splits if_splits)
  have "key = source_key kind type" if "pr_dynamic_plugin_sources r key = Some l" "path_key l = path_key lib" for key l
    using assms(2) r1(5) that unfolding registry_inv_def by (metis insertE option.distinct(1) option.inject singletonD)
  then have "registry_inv r1"
    using assms(2) r1(1-4) by (auto simp: registry_inv_def)
  from open_and_register_None [OF o this] r1 True show ?thesis
    by (auto simp: entry_loaded_def map_le_def)
qed

lemma entry_loaded_mono:
  "entry_loaded e r \<Longrightarrow> \<forall>k. factories k r \<subseteq>\<^sub>m factories k r' \<Longrightarrow>
   pr_dynamic_plugin_sources r \<subseteq>\<^sub>m pr_dynamic_plugin_sources r' \<Longrightarrow> entry_loaded e r'"
  by (auto simp: entry_loaded_def map_le_def dom_def split: prod.splits)

lemma load_entry_None:
  assumes "load_entry os e r = (None, r')" "registry_inv r"
  shows "registry_inv r' \<and> entry_loaded e r' \<and> (\<forall>y. entry_loaded y r \<longrightarrow> entry_loaded y r')"
proof (cases e)
  case (fields kind type lib)
  then show ?thesis
    using load_plugin_None [of os kind type lib r r'] assms entry_loaded_mono by (auto simp: load_entry_def)
qed

lemma load_dynamic_plugins_None:
  assumes "load_dynamic_plugins os config r0 = (None, r)" "registry_inv r0"
  shows "registry_inv r \<and> (\<forall>e \<in> set (plugin_entries config). entry_loaded e r)"
proof -
  have "\<not> pr_dynamic_loading_called r0"
    using assms(1) by (auto simp: load_dynamic_plugins_def split: if_splits)
  then have run: "run_each (load_entry os) (plugin_entries config) (r0\<lparr>pr_dynamic_loading_called := True\<rparr>) = (None, r)"
    using assms(1) load_dynamic_plugins_entries [of r0 os config] by simp
  have "registry_inv (r0\<lparr>pr_dynamic_loading_called := True\<rparr>)"
    using assms(2) by (simp add: registry_inv_def)
  with run have "registry_inv r \<and> (\<forall>e \<in> set (plugin_entries config). entry_loaded e r) \<and>
      (\<forall>y. entry_loaded y (r0\<lparr>pr_dynamic_loading_called := True\<rparr>) \<longrightarrow> entry_loaded y r)"
    by (rule run_each_collect) (rule load_entry_None)
  then show ?thesis by blast
qed

lemma registry_inv_new: "registry_inv PluginRegistry_new"
  by (simp add: registry_inv_def PluginRegistry_new_def)

section \<open>Lemmas: instances\<close>

text \<open>The four creation loops append what they create for the enabled entries, in order.\<close>

lemma rfold_append_each:
  assumes "rfold f acc xs = Inr ys"
    and "\<And>acc x acc'. f acc x = Inr acc' \<Longrightarrow> if P x then \<exists>y. R x y \<and> acc' = acc @ [y] else acc' = acc"
  shows "\<exists>zs. ys = acc @ zs \<and> list_all2 R (filter P xs) zs"
  using assms(1)
proof (induction xs arbitrary: acc)
  case (Cons x xs)
  from Cons.prems obtain acc' where x: "f acc x = Inr acc'" "rfold f acc' xs = Inr ys"
    unfolding rfold_Cons_iff by blast
  from Cons.IH [OF x(2)] obtain zs where "ys = acc' @ zs" "list_all2 R (filter P xs) zs" by blast
  with assms(2) [OF x(1)] show ?case by (cases "P x") auto
qed simp

text \<open>\<open>p\<close> is what the factory registered for \<open>type\<close> returns for \<open>settings\<close>.\<close>

definition created_as ::
  "('h, 'a, 'x) PluginRegistry \<Rightarrow> PluginKind \<Rightarrow> string \<Rightarrow> string \<Rightarrow> ('h, 'a, 'x) plugin \<Rightarrow> bool" where
  "created_as r kind type settings p \<longleftrightarrow> (\<exists>f. factories kind r type = Some f \<and> f settings = Inr (Some p))"

lemma instantiate_Inr: "instantiate r kind type settings = Inr p \<longleftrightarrow> created_as r kind type settings p"
  by (auto simp: instantiate_def created_as_def find_factory_def rbind_Inr_iff split: option.splits)

text \<open>What each creation loop appends for a configured plugin.\<close>

definition made_driver where
  "made_driver r d x \<longleftrightarrow> di_device_id x = dev_id d \<and> (\<exists>p. di_driver x = Some p \<and>
     created_as r Driver (spec_type (dev_driver d)) (spec_settings_json (dev_driver d)) p)"

definition made_plugin where
  "made_plugin r kind s x \<longleftrightarrow> (\<exists>p. x = Some p \<and> created_as r kind (pc_type s) (pc_settings_json s) p)"

definition made_publisher where
  "made_publisher r s x \<longleftrightarrow> pi_id x = pc_id s \<and> (\<exists>p. pi_publisher x = Some p \<and>
     created_as r EventPublisher (pc_type s) (pc_settings_json s) p)"

lemma create_steps:
  "create_driver r ds d = Inr ds' \<Longrightarrow> if True then \<exists>y. made_driver r d y \<and> ds' = ds @ [y] else ds' = ds"
  "create_processor r ps s = Inr ps' \<Longrightarrow>
     if pc_enabled s then \<exists>y. made_plugin r Processor_kind s y \<and> ps' = ps @ [y] else ps' = ps"
  "create_publisher r bs s = Inr bs' \<Longrightarrow>
     if pc_enabled s then \<exists>y. made_publisher r s y \<and> bs' = bs @ [y] else bs' = bs"
  "create_source r ss s = Inr ss' \<Longrightarrow>
     if pc_enabled s then \<exists>y. made_plugin r DeviceControlSource s y \<and> ss' = ss @ [y] else ss' = ss"
  by (auto simp: create_driver_def create_processor_def create_publisher_def create_source_def rbind_Inr_iff
      instantiate_Inr made_driver_def made_plugin_def made_publisher_def split: if_splits)

lemma PluginRegistry_create_Inr:
  assumes "PluginRegistry_create r config = Inr i"
  shows "list_all2 (made_driver r) (gw_devices (ac_gateway config)) (in_drivers i) \<and>
     list_all2 (made_plugin r Processor_kind) (filter pc_enabled (ac_processors config)) (in_processors i) \<and>
     list_all2 (made_publisher r) (filter pc_enabled (ac_event_publishers config)) (in_event_publishers i) \<and>
     list_all2 (made_plugin r DeviceControlSource) (filter pc_enabled (ac_device_control_sources config)) (in_sources i)"
proof -
  from assms have loops: "rfold (create_driver r) [] (gw_devices (ac_gateway config)) = Inr (in_drivers i)"
    "rfold (create_processor r) [] (ac_processors config) = Inr (in_processors i)"
    "rfold (create_publisher r) [] (ac_event_publishers config) = Inr (in_event_publishers i)"
    "rfold (create_source r) [] (ac_device_control_sources config) = Inr (in_sources i)"
    by (auto simp: PluginRegistry_create_def rbind_Inr_iff)
  show ?thesis
    using rfold_append_each [OF loops(1) create_steps(1)] rfold_append_each [OF loops(2) create_steps(2)]
      rfold_append_each [OF loops(3) create_steps(3)] rfold_append_each [OF loops(4) create_steps(4)]
    by auto
qed

lemma list_all2_map_eq: "list_all2 R xs ys \<Longrightarrow> (\<And>x y. R x y \<Longrightarrow> g y = f x) \<Longrightarrow> map g ys = map f xs"
  by (induction rule: list_all2_induct) auto

lemma list_all2_right: "list_all2 R xs ys \<Longrightarrow> y \<in> set ys \<Longrightarrow> \<exists>x \<in> set xs. R x y"
  by (induction rule: list_all2_induct) auto

lemma created_shape:
  assumes "PluginRegistry_create r config = Inr i"
  shows "map di_device_id (in_drivers i) = map dev_id (gw_devices (ac_gateway config))"
    and "map pi_id (in_event_publishers i) = map pc_id (filter pc_enabled (ac_event_publishers config))"
    and "length (in_processors i) = length (filter pc_enabled (ac_processors config))"
    and "length (in_sources i) = length (filter pc_enabled (ac_device_control_sources config))"
    and "x \<in> set (in_drivers i) \<Longrightarrow> di_driver x \<noteq> None"
    and "None \<notin> set (in_processors i)"
    and "y \<in> set (in_event_publishers i) \<Longrightarrow> pi_publisher y \<noteq> None"
    and "None \<notin> set (in_sources i)"
proof -
  note c = PluginRegistry_create_Inr [OF assms]
  show "map di_device_id (in_drivers i) = map dev_id (gw_devices (ac_gateway config))"
    "map pi_id (in_event_publishers i) = map pc_id (filter pc_enabled (ac_event_publishers config))"
    using c by (auto intro!: list_all2_map_eq simp: made_driver_def made_publisher_def)
  show "length (in_processors i) = length (filter pc_enabled (ac_processors config))"
    "length (in_sources i) = length (filter pc_enabled (ac_device_control_sources config))"
    using c by (auto dest!: list_all2_lengthD)
  show "x \<in> set (in_drivers i) \<Longrightarrow> di_driver x \<noteq> None"
    using c list_all2_right by (fastforce simp: made_driver_def)
  show "y \<in> set (in_event_publishers i) \<Longrightarrow> pi_publisher y \<noteq> None"
    using c list_all2_right by (fastforce simp: made_publisher_def)
  show "None \<notin> set (in_processors i)" "None \<notin> set (in_sources i)"
    using c list_all2_right by (fastforce simp: made_plugin_def)+
qed

text \<open>The ways creation can fail.\<close>

definition create_fails where
  "create_fails r kind type settings e \<longleftrightarrow>
     (case factories kind r type of
        None \<Rightarrow> True
      | Some f \<Rightarrow> f settings = Inl e \<or>
          (f settings = Inr None \<and> e = Runtime_error (category kind @ '' plugin factory returned null: '' @ type)))"

lemma instantiate_Inl: "instantiate r kind type settings = Inl e \<Longrightarrow> create_fails r kind type settings e"
  by (auto simp: instantiate_def create_fails_def find_factory_def rbind_Inl_iff split: option.splits)

lemma rfold_Inl: "rfold f s xs = Inl e \<Longrightarrow> \<exists>x \<in> set xs. \<exists>t. f t x = Inl e"
  by (induction xs arbitrary: s) (auto split: sum.splits)

lemma plugin_entries_intros:
  "d \<in> set (gw_devices (ac_gateway config)) \<Longrightarrow>
     (Driver, spec_type (dev_driver d), spec_library (dev_driver d)) \<in> set (plugin_entries config)"
  "s \<in> set (ac_processors config) \<Longrightarrow> pc_enabled s \<Longrightarrow>
     (Processor_kind, pc_type s, pc_library s) \<in> set (plugin_entries config)"
  "s \<in> set (ac_event_publishers config) \<Longrightarrow> pc_enabled s \<Longrightarrow>
     (EventPublisher, pc_type s, pc_library s) \<in> set (plugin_entries config)"
  "s \<in> set (ac_device_control_sources config) \<Longrightarrow> pc_enabled s \<Longrightarrow>
     (DeviceControlSource, pc_type s, pc_library s) \<in> set (plugin_entries config)"
  by (simp_all add: plugin_entries_def)

lemma create_step_Inl:
  "create_driver r ds d = Inl e \<Longrightarrow>
     create_fails r Driver (spec_type (dev_driver d)) (spec_settings_json (dev_driver d)) e"
  "create_processor r ps s = Inl e \<Longrightarrow> pc_enabled s \<and> create_fails r Processor_kind (pc_type s) (pc_settings_json s) e"
  "create_publisher r bs s = Inl e \<Longrightarrow> pc_enabled s \<and> create_fails r EventPublisher (pc_type s) (pc_settings_json s) e"
  "create_source r ss s = Inl e \<Longrightarrow> pc_enabled s \<and> create_fails r DeviceControlSource (pc_type s) (pc_settings_json s) e"
  by (auto simp: create_driver_def create_processor_def create_publisher_def create_source_def rbind_Inl_iff
      intro: instantiate_Inl split: if_splits)

lemma PluginRegistry_create_Inl:
  assumes "PluginRegistry_create r config = Inl e"
  shows "\<exists>kind type lib settings. (kind, type, lib) \<in> set (plugin_entries config) \<and> create_fails r kind type settings e"
proof -
  from assms consider
      "rfold (create_driver r) [] (gw_devices (ac_gateway config)) = Inl e"
    | "rfold (create_processor r) [] (ac_processors config) = Inl e"
    | "rfold (create_publisher r) [] (ac_event_publishers config) = Inl e"
    | "rfold (create_source r) [] (ac_device_control_sources config) = Inl e"
    by (auto simp: PluginRegistry_create_def rbind_Inl_iff)
  then show ?thesis
  proof cases
    case 1
    from rfold_Inl [OF 1] show ?thesis using create_step_Inl(1) plugin_entries_intros(1) by metis
  next
    case 2
    from rfold_Inl [OF 2] show ?thesis using create_step_Inl(2) plugin_entries_intros(2) by metis
  next
    case 3
    from rfold_Inl [OF 3] show ?thesis using create_step_Inl(3) plugin_entries_intros(3) by metis
  next
    case 4
    from rfold_Inl [OF 4] show ?thesis using create_step_Inl(4) plugin_entries_intros(4) by metis
  qed
qed

lemma loaded_entries:
  assumes "load_dynamic_plugins os config r0 = (None, r)" "pr_dynamic_plugin_sources r0 = Map.empty"
    "pr_dynamic_plugins r0 = []"
  shows "registry_inv r" and "(k, t, l) \<in> set (plugin_entries config) \<Longrightarrow> entry_loaded (k, t, l) r"
    and "(k, t, l) \<in> set (plugin_entries config) \<Longrightarrow> \<exists>f. factories k r t = Some f"
proof -
  have "registry_inv r0" using assms(2,3) by (simp add: registry_inv_def)
  note l = load_dynamic_plugins_None [OF assms(1) this]
  then show "registry_inv r" and e: "(k, t, l) \<in> set (plugin_entries config) \<Longrightarrow> entry_loaded (k, t, l) r" by blast+
  show "(k, t, l) \<in> set (plugin_entries config) \<Longrightarrow> \<exists>f. factories k r t = Some f"
    using e by (simp add: entry_loaded_def)
qed

section \<open>Lemmas: lifetimes\<close>

fun destroy_events :: "('h, 'a, 'x) owner \<Rightarrow> ('h, 'a, 'x) module_event list" where
  "destroy_events (Adapter (Loaded l x d)) = [Ev_destroy l x d]"
| "destroy_events _ = []"

text \<open>The log of a teardown as a function of the order of destruction alone.\<close>

fun teardown_events :: "('h, 'a, 'x) owner list \<Rightarrow> ('h, 'a, 'x) module_event list" where
  "teardown_events [] = []"
| "teardown_events (o' # os) =
     destroy_events o' @ map Ev_dlclose (filter (\<lambda>l. l \<notin> set (refs_of os)) (owner_refs o')) @ teardown_events os"

lemma fold_destroy_owner:
  "md_refs m = mset (refs_of os) \<Longrightarrow>
   md_refs (fold destroy_owner os m) = {#} \<and> md_log (fold destroy_owner os m) = md_log m @ teardown_events os"
proof (induction os arbitrary: m)
  case (Cons o' os)
  have "md_refs (destroy_owner o' m) = mset (refs_of os) \<and>
      md_log (destroy_owner o' m) = md_log m @ destroy_events o' @
        map Ev_dlclose (filter (\<lambda>l. l \<notin> set (refs_of os)) (owner_refs o'))"
    using Cons.prems by (cases o' rule: owner_refs.cases) (auto simp: release_library_def refs_of_def Let_def)
  then show ?case using Cons.IH [of "destroy_owner o' m"] by simp
qed (simp add: refs_of_def)

lemma teardown_eq: "teardown os = teardown_events os"
  using fold_destroy_owner [of "modules_of os" os] by (simp add: teardown_def modules_of_def)

lemma teardown_only_refs:
  "Ev_destroy l x d \<in> set (teardown_events os) \<Longrightarrow> l \<in> set (refs_of os)"
  "Ev_dlclose l \<in> set (teardown_events os) \<longleftrightarrow> l \<in> set (refs_of os)"
proof -
  show "Ev_destroy l x d \<in> set (teardown_events os) \<Longrightarrow> l \<in> set (refs_of os)"
  proof (induction os)
    case (Cons o' os)
    then show ?case by (cases o' rule: owner_refs.cases) (auto simp: refs_of_def)
  qed simp
  show "Ev_dlclose l \<in> set (teardown_events os) \<longleftrightarrow> l \<in> set (refs_of os)"
  proof (induction os)
    case (Cons o' os)
    then show ?case by (cases o' rule: owner_refs.cases) (auto simp: refs_of_def)
  qed (simp add: refs_of_def)
qed

lemma teardown_closed_last:
  "teardown_events os = a @ Ev_dlclose l # b \<Longrightarrow> Ev_destroy l x d \<notin> set b \<and> Ev_dlclose l \<notin> set b"
proof (induction os arbitrary: a)
  case (Cons o' os)
  then show ?case
  proof (cases o' rule: owner_refs.cases)
    case (1 k)
    then show ?thesis using Cons teardown_only_refs(1) [of l x d os] teardown_only_refs(2) [of l os] by (cases a) (auto split: if_splits)
  next
    case (2 k y e)
    then show ?thesis using Cons teardown_only_refs(1) [of l x d os] teardown_only_refs(2) [of l os]
      by (cases a; cases "tl a") (auto split: if_splits)
  qed simp
qed simp

section \<open>Properties\<close>

text \<open>
  A successful \<open>load_dynamic_plugins\<close> leaves nothing unresolved. Afterwards every device's driver type and
  the type of every enabled processor, publisher and control source has a factory, and no
  library was opened twice.
\<close>

theorem load_covers_configuration:
  assumes "load_dynamic_plugins os config r0 = (None, r)"
    and "pr_dynamic_plugin_sources r0 = Map.empty" and "pr_dynamic_plugins r0 = []"
  shows "(\<forall>d \<in> set (gw_devices (ac_gateway config)). has_factory (pr_driver_factories r) (spec_type (dev_driver d))) \<and>
     (\<forall>s \<in> set (ac_processors config). pc_enabled s \<longrightarrow> has_factory (pr_processor_factories r) (pc_type s)) \<and>
     (\<forall>s \<in> set (ac_event_publishers config). pc_enabled s \<longrightarrow> has_factory (pr_event_publisher_factories r) (pc_type s)) \<and>
     (\<forall>s \<in> set (ac_device_control_sources config). pc_enabled s \<longrightarrow>
        has_factory (pr_device_control_source_factories r) (pc_type s)) \<and>
     distinct (map (\<lambda>l. path_key (dl_path l)) (pr_dynamic_plugins r))"
proof -
  note f = loaded_entries(3) [OF assms(1-3)]
  have "\<forall>d \<in> set (gw_devices (ac_gateway config)). has_factory (pr_driver_factories r) (spec_type (dev_driver d))"
    using f [OF plugin_entries_intros(1)] by (simp add: has_factory_def)
  moreover have "\<forall>s \<in> set (ac_processors config). pc_enabled s \<longrightarrow> has_factory (pr_processor_factories r) (pc_type s)"
    using f [OF plugin_entries_intros(2)] by (simp add: has_factory_def)
  moreover have "\<forall>s \<in> set (ac_event_publishers config). pc_enabled s \<longrightarrow>
      has_factory (pr_event_publisher_factories r) (pc_type s)"
    using f [OF plugin_entries_intros(3)] by (simp add: has_factory_def)
  moreover have "\<forall>s \<in> set (ac_device_control_sources config). pc_enabled s \<longrightarrow>
      has_factory (pr_device_control_source_factories r) (pc_type s)"
    using f [OF plugin_entries_intros(4)] by (simp add: has_factory_def)
  moreover have "distinct (map (\<lambda>l. path_key (dl_path l)) (pr_dynamic_plugins r))"
    using loaded_entries(1) [OF assms(1-3)] by (simp add: registry_inv_def)
  ultimately show ?thesis by blast
qed

text \<open>
  C19: one library serves one plugin type. After a successful load, two plugins in use that name a library name the
  same one exactly if they have the same kind and the same type, so no object is ever
  reinterpreted as another interface.
\<close>

theorem libraries_unshared:
  assumes "load_dynamic_plugins os config r0 = (None, r)"
    and "pr_dynamic_plugin_sources r0 = Map.empty" and "pr_dynamic_plugins r0 = []"
    and "(k, t, l) \<in> set (plugin_entries config)" and "(k', t', l') \<in> set (plugin_entries config)"
    and "l \<noteq> []" and "l' \<noteq> []"
  shows "path_key l = path_key l' \<longleftrightarrow> k = k' \<and> t = t'"
proof -
  note inv = loaded_entries(1) [OF assms(1-3)]
  have "entry_loaded (k, t, l) r" "entry_loaded (k', t', l') r"
    using loaded_entries(2) [OF assms(1-3)] assms(4,5) by blast+
  then obtain m m' where m: "pr_dynamic_plugin_sources r (source_key k t) = Some m" "path_key m = path_key l"
    "pr_dynamic_plugin_sources r (source_key k' t') = Some m'" "path_key m' = path_key l'"
    using assms(6,7) by (auto simp: entry_loaded_def)
  then have "pr_dynamic_library_owners r (path_key l) = Some (source_key k t)"
    "pr_dynamic_library_owners r (path_key l') = Some (source_key k' t')"
    using inv unfolding registry_inv_def by metis+
  with m show ?thesis by (metis option.inject source_key_inject)
qed

text \<open>
  C27: creation follows the configuration, in order. With the registry of a successful load, \<open>create\<close> returns one driver per
  device under the device's id and one processor, publisher (under its id) and source per enabled
  entry, each list in configuration order: the n-th of each is what the factory registered for the n-th entry's type returned
  for that entry's settings, and none is null. If it throws, a plugin in
  use has a factory that threw or returned null, never an unknown type.
\<close>

theorem create_after_load:
  assumes "load_dynamic_plugins os config r0 = (None, r)"
    and "pr_dynamic_plugin_sources r0 = Map.empty" and "pr_dynamic_plugins r0 = []"
  shows "case PluginRegistry_create r config of
     Inr i \<Rightarrow> list_all2 (\<lambda>d x. di_device_id x = dev_id d \<and> (\<exists>p. di_driver x = Some p \<and>
           created_as r Driver (spec_type (dev_driver d)) (spec_settings_json (dev_driver d)) p))
         (gw_devices (ac_gateway config)) (in_drivers i) \<and>
       list_all2 (\<lambda>s x. \<exists>p. x = Some p \<and> created_as r Processor_kind (pc_type s) (pc_settings_json s) p)
         (filter pc_enabled (ac_processors config)) (in_processors i) \<and>
       list_all2 (\<lambda>s x. pi_id x = pc_id s \<and> (\<exists>p. pi_publisher x = Some p \<and>
           created_as r EventPublisher (pc_type s) (pc_settings_json s) p))
         (filter pc_enabled (ac_event_publishers config)) (in_event_publishers i) \<and>
       list_all2 (\<lambda>s x. \<exists>p. x = Some p \<and> created_as r DeviceControlSource (pc_type s) (pc_settings_json s) p)
         (filter pc_enabled (ac_device_control_sources config)) (in_sources i) \<and>
       map di_device_id (in_drivers i) = map dev_id (gw_devices (ac_gateway config)) \<and>
       map pi_id (in_event_publishers i) = map pc_id (filter pc_enabled (ac_event_publishers config)) \<and>
       length (in_processors i) = length (filter pc_enabled (ac_processors config)) \<and>
       length (in_sources i) = length (filter pc_enabled (ac_device_control_sources config)) \<and>
       None \<notin> di_driver ` set (in_drivers i) \<and> None \<notin> set (in_processors i) \<and>
       None \<notin> pi_publisher ` set (in_event_publishers i) \<and> None \<notin> set (in_sources i)
   | Inl e \<Rightarrow> \<exists>kind type lib settings f. (kind, type, lib) \<in> set (plugin_entries config) \<and>
       factories kind r type = Some f \<and>
       (f settings = Inl e \<or> (f settings = Inr None \<and>
          e = Runtime_error (category kind @ '' plugin factory returned null: '' @ type)))"
proof (cases "PluginRegistry_create r config")
  case (Inl e)
  from PluginRegistry_create_Inl [OF Inl] obtain kind type lib settings
    where e: "(kind, type, lib) \<in> set (plugin_entries config)" "create_fails r kind type settings e" by blast
  moreover obtain f where "factories kind r type = Some f"
    using loaded_entries(3) [OF assms e(1)] by blast
  ultimately show ?thesis unfolding Inl sum.case create_fails_def by auto
next
  case (Inr i)
  have "None \<notin> di_driver ` set (in_drivers i)" "None \<notin> pi_publisher ` set (in_event_publishers i)"
    using created_shape(5,7) [OF Inr] by (metis (mono_tags) imageE)+
  moreover note PluginRegistry_create_Inr [OF Inr, unfolded made_driver_def [abs_def] made_plugin_def [abs_def] made_publisher_def [abs_def]]
  ultimately show ?thesis using created_shape [OF Inr] by (simp add: Inr)
qed

text \<open>
  C28: a library is never unloaded under a live plugin. Whatever the order in which the registry, its factories and the
  adapters are destroyed, every plugin object is destroyed once in that order, and each library is
  closed exactly once, after the last of its objects.
\<close>

theorem library_outlives_instances:
  "filter (\<lambda>e. case e of Ev_destroy _ _ _ \<Rightarrow> True | _ \<Rightarrow> False) (teardown owners) = concat (map destroy_events owners) \<and>
   (\<forall>l. Ev_dlclose l \<in> set (teardown owners) \<longleftrightarrow> l \<in> set (refs_of owners)) \<and>
   (\<forall>a l b. teardown owners = a @ Ev_dlclose l # b \<longrightarrow>
      Ev_dlclose l \<notin> set b \<and> (\<forall>x d. Ev_destroy l x d \<notin> set b))"
proof -
  let ?destroy = "\<lambda>e. case e of Ev_destroy _ _ _ \<Rightarrow> True | _ \<Rightarrow> False"
  have "filter ?destroy (teardown_events owners) = concat (map destroy_events owners)"
  proof (induction owners)
    case (Cons o' os)
    then show ?case by (cases o' rule: owner_refs.cases) auto
  qed simp
  moreover have "\<forall>l. Ev_dlclose l \<in> set (teardown_events owners) \<longleftrightarrow> l \<in> set (refs_of owners)"
    using teardown_only_refs(2) by blast
  moreover have "\<forall>a l b. teardown_events owners = a @ Ev_dlclose l # b \<longrightarrow>
      Ev_dlclose l \<notin> set b \<and> (\<forall>x d. Ev_destroy l x d \<notin> set b)"
    using teardown_closed_last by fast
  ultimately show ?thesis unfolding teardown_eq by (intro conjI)
qed

section \<open>Witnesses\<close>

definition registry_example_os :: "(string, string, nat) os_loader" where
  "registry_example_os = \<lparr>os_dlopen = (\<lambda>path. Some path), os_dlerror = (\<lambda>_. None),
     os_dlsym = (\<lambda>h name. Some name), os_create = (\<lambda>_ settings. Inr (Some (length settings)))\<rparr>"

definition registry_example_config :: ApplicationConfig where
  "registry_example_config = \<lparr>ac_run_duration = None,
     ac_gateway = \<lparr>raw_queue_capacity = 4, control_queue_capacity = 2,
       gw_devices = [\<lparr>dev_id = ''plc'', dev_driver = \<lparr>spec_type = ''sim'', spec_settings_json = ''{}'', spec_library = ''lib/sim.so''\<rparr>,
         dev_connection = Map.empty, dev_points = []\<rparr>,
         \<lparr>dev_id = ''cam'', dev_driver = \<lparr>spec_type = ''sim'', spec_settings_json = ''{}'', spec_library = ''lib//sim.so''\<rparr>,
         dev_connection = Map.empty, dev_points = []\<rparr>],
       gw_groups = []\<rparr>,
     ac_processors = [], ac_event_publishers = [\<lparr>pc_id = ''mqtt'', pc_type = ''mqtt'', pc_enabled = True,
       pc_settings_json = ''{}'', pc_library = ''lib/mqtt.so''\<rparr>],
     ac_device_control_sources = []\<rparr>"

definition registry_example :: "(string, string, nat) PluginRegistry" where
  "registry_example = snd (load_dynamic_plugins registry_example_os registry_example_config PluginRegistry_new)"

lemma registry_example_loads:
  "load_dynamic_plugins registry_example_os registry_example_config PluginRegistry_new = (None, registry_example)"
proof -
  have "fst (load_dynamic_plugins registry_example_os registry_example_config PluginRegistry_new) = None"
    by code_simp
  then show ?thesis by (simp add: registry_example_def prod_eq_iff)
qed

lemma registry_new_empty: "pr_dynamic_plugin_sources PluginRegistry_new = Map.empty" "pr_dynamic_plugins PluginRegistry_new = []"
  by (simp_all add: PluginRegistry_new_def)

theorem load_covers_configuration_witness:
  "has_factory (pr_driver_factories registry_example) ''sim'' \<and> has_factory (pr_event_publisher_factories registry_example) ''mqtt''"
  using load_covers_configuration [OF registry_example_loads registry_new_empty]
  by (simp add: registry_example_config_def)

theorem libraries_unshared_witness:
  "path_key ''lib/sim.so'' = path_key ''lib//sim.so'' \<and> path_key ''lib/sim.so'' \<noteq> path_key ''lib/mqtt.so''"
proof -
  have e: "(Driver, ''sim'', ''lib/sim.so'') \<in> set (plugin_entries registry_example_config)"
    "(Driver, ''sim'', ''lib//sim.so'') \<in> set (plugin_entries registry_example_config)"
    "(EventPublisher, ''mqtt'', ''lib/mqtt.so'') \<in> set (plugin_entries registry_example_config)"
    by (simp_all add: plugin_entries_def registry_example_config_def)
  show ?thesis
    using libraries_unshared [OF registry_example_loads registry_new_empty e(1) e(2)]
      libraries_unshared [OF registry_example_loads registry_new_empty e(1) e(3)] by simp
qed

theorem create_after_load_witness:
  "\<exists>i. PluginRegistry_create registry_example registry_example_config = Inr i \<and>
     map di_device_id (in_drivers i) = [''plc'', ''cam''] \<and> map pi_id (in_event_publishers i) = [''mqtt''] \<and>
     list_all2 (\<lambda>s x. pi_id x = pc_id s \<and> (\<exists>p. pi_publisher x = Some p \<and>
         created_as registry_example EventPublisher (pc_type s) (pc_settings_json s) p))
       (filter pc_enabled (ac_event_publishers registry_example_config)) (in_event_publishers i)"
proof -
  have "case_sum (\<lambda>_. False) (\<lambda>_. True) (PluginRegistry_create registry_example registry_example_config)"
    by code_simp
  then obtain i where i: "PluginRegistry_create registry_example registry_example_config = Inr i"
    by (auto split: sum.splits)
  then show ?thesis
    using create_after_load [OF registry_example_loads registry_new_empty] by (simp add: registry_example_config_def)
qed

theorem library_outlives_instances_witness:
  "teardown [Table_entry \<lparr>dl_path = ''a.so'', dl_handle = 1\<rparr>, Adapter (Loaded \<lparr>dl_path = ''a.so'', dl_handle = 1\<rparr> (5 :: nat) (2 :: nat))] =
     [Ev_destroy \<lparr>dl_path = ''a.so'', dl_handle = (1 :: nat)\<rparr> 5 2, Ev_dlclose \<lparr>dl_path = ''a.so'', dl_handle = 1\<rparr>] \<and>
   Ev_dlclose \<lparr>dl_path = ''a.so'', dl_handle = (1 :: nat)\<rparr> \<in> set (teardown
     [Table_entry \<lparr>dl_path = ''a.so'', dl_handle = 1\<rparr>, Adapter (Loaded \<lparr>dl_path = ''a.so'', dl_handle = 1\<rparr> (5 :: nat) (2 :: nat))])"
proof -
  let ?o = "[Table_entry \<lparr>dl_path = ''a.so'', dl_handle = 1 :: nat\<rparr>,
     Adapter (Loaded \<lparr>dl_path = ''a.so'', dl_handle = 1\<rparr> (5 :: nat) (2 :: nat))]"
  have "teardown ?o = [Ev_destroy \<lparr>dl_path = ''a.so'', dl_handle = (1 :: nat)\<rparr> 5 2, Ev_dlclose \<lparr>dl_path = ''a.so'', dl_handle = 1\<rparr>]"
    by code_simp
  moreover have "Ev_dlclose \<lparr>dl_path = ''a.so'', dl_handle = (1 :: nat)\<rparr> \<in> set (teardown ?o)"
    using library_outlives_instances [of ?o] by (simp add: refs_of_def)
  ultimately show ?thesis by blast
qed

end
