(* ===== verification/Processors.thy ===== *)
theory Processors
  imports Processing
begin

text \<open>
  The three processor plugins of \<open>src/processor\<close>: threshold, window average and
  inference, their constructors and \<open>process\<close> functions, and their place under the
  processor contract.
\<close>

section \<open>Shared helper\<close>

definition derived_reading :: "string \<Rightarrow> Scalar \<Rightarrow> i64 \<Rightarrow> i64 \<Rightarrow> Reading" where
  "derived_reading point value source_time_ns received_time_ns =
     \<lparr>rd_point = point, rd_value = value, rd_quality = Good, rd_unit = [],
      rd_source_time_ns = source_time_ns, rd_received_time_ns = received_time_ns, rd_derived = True\<rparr>"

definition push_reading :: "Event \<Rightarrow> Reading \<Rightarrow> Event" where
  "push_reading event r = event\<lparr>ev_readings := ev_readings event @ [r]\<rparr>"

section \<open>\<open>ThresholdProcessor\<close>\<close>

record ThresholdProcessor =
  th_input :: string
  th_greater_than :: double
  th_output :: string

definition ThresholdProcessor_new :: "string \<Rightarrow> double \<Rightarrow> string \<Rightarrow> ThresholdProcessor result" where
  "ThresholdProcessor_new input greater_than output =
     (if input = [] \<or> output = []
      then Inl (Invalid_argument ''threshold input and output are required'')
      else Inr \<lparr>th_input = input, th_greater_than = greater_than, th_output = output\<rparr>)"

definition ThresholdProcessor_process :: "ThresholdProcessor \<Rightarrow> Event \<Rightarrow> Event" where
  "ThresholdProcessor_process p event =
     (case find_reading event (th_input p) of
        None \<Rightarrow> event
      | Some input \<Rightarrow>
          if rd_quality input \<noteq> Good then event
          else (case numeric_value (rd_value input) of
                  None \<Rightarrow> event
                | Some v \<Rightarrow>
                    push_reading event
                      (derived_reading (th_output p) (Boolean (dlt (th_greater_than p) v))
                         (rd_source_time_ns input) (rd_received_time_ns input))))"

section \<open>\<open>WindowAverageProcessor\<close>\<close>

record WindowAverageProcessor =
  wa_input :: string
  wa_window :: nat
  wa_output :: string
  wa_windows :: "string \<rightharpoonup> double list"

definition WindowAverageProcessor_new :: "string \<Rightarrow> nat \<Rightarrow> string \<Rightarrow> WindowAverageProcessor result" where
  "WindowAverageProcessor_new input window output =
     (if input = [] \<or> output = [] \<or> window = 0
      then Inl (Invalid_argument ''window rule requires input, output and positive size'')
      else Inr \<lparr>wa_input = input, wa_window = window, wa_output = output, wa_windows = Map.empty\<rparr>)"

text \<open>\<open>windows_[device]\<close> creates an empty deque on first use.\<close>

definition window_of :: "WindowAverageProcessor \<Rightarrow> string \<Rightarrow> double list" where
  "window_of p device = (case wa_windows p device of None \<Rightarrow> [] | Some values \<Rightarrow> values)"

fun trim :: "nat \<Rightarrow> double list \<Rightarrow> double list" where
  "trim window [] = []"
| "trim window (v # values) =
     (if length (v # values) > window then trim window values else v # values)"

definition mean :: "double list \<Rightarrow> double" where
  "mean values = ddiv (fold (\<lambda>v acc. dadd acc v) values (Finite False 0)) (double_of_int (int (length values)))"

definition WindowAverageProcessor_process ::
  "WindowAverageProcessor \<Rightarrow> Event \<Rightarrow> WindowAverageProcessor \<times> Event" where
  "WindowAverageProcessor_process p event =
     (case find_reading event (wa_input p) of
        None \<Rightarrow> (p, event)
      | Some input \<Rightarrow>
          if rd_quality input \<noteq> Good then (p, event)
          else (case numeric_value (rd_value input) of
                  None \<Rightarrow> (p, event)
                | Some v \<Rightarrow>
                    let values = trim (wa_window p) (window_of p (ev_device_id event) @ [v]);
                        p' = p\<lparr>wa_windows := (wa_windows p)(ev_device_id event \<mapsto> values)\<rparr>
                    in if length values \<noteq> wa_window p then (p', event)
                       else (p', push_reading event
                              (derived_reading (wa_output p) (Dbl (mean values))
                                 (rd_source_time_ns input) (rd_received_time_ns input)))))"

section \<open>\<open>InferenceProcessor\<close>\<close>

record InferenceProcessor =
  inf_runner :: string
  inf_inputs :: "string list"
  inf_outputs :: "string list"

definition InferenceProcessor_new :: "string \<Rightarrow> string list \<Rightarrow> string list \<Rightarrow> InferenceProcessor result" where
  "InferenceProcessor_new runner inputs outputs =
     (if runner \<noteq> ''demo_rms''
      then Inl (Invalid_argument (''unsupported inference runner: '' @ runner))
      else if inputs = [] \<or> length outputs \<noteq> 1
      then Inl (Invalid_argument ''demo_rms requires at least one input and exactly one output'')
      else Inr \<lparr>inf_runner = runner, inf_inputs = inputs, inf_outputs = outputs\<rparr>)"

text \<open>The loop over the inputs; \<^const>\<open>None\<close> is the early return.\<close>

fun rms_loop :: "Event \<Rightarrow> string list \<Rightarrow> double \<times> i64 \<times> i64 \<Rightarrow> (double \<times> i64 \<times> i64) option" where
  "rms_loop event [] acc = Some acc"
| "rms_loop event (point # points) (squared_sum, source_time, received_time) =
     (case find_reading event point of
        None \<Rightarrow> None
      | Some reading \<Rightarrow>
          if rd_quality reading \<noteq> Good then None
          else (case numeric_value (rd_value reading) of
                  None \<Rightarrow> None
                | Some v \<Rightarrow>
                    rms_loop event points
                      (dadd squared_sum (dmul v v), rd_source_time_ns reading, rd_received_time_ns reading)))"

definition InferenceProcessor_process :: "i64 \<Rightarrow> InferenceProcessor \<Rightarrow> Event \<Rightarrow> Event" where
  "InferenceProcessor_process now p event =
     (case rms_loop event (inf_inputs p) (Finite False 0, now, now) of
        None \<Rightarrow> event
      | Some (squared_sum, source_time, received_time) \<Rightarrow>
          (push_reading event
             (derived_reading (hd (inf_outputs p))
                (Dbl (dsqrt (ddiv squared_sum (double_of_int (int (length (inf_inputs p)))))))
                source_time received_time))
            \<lparr>ev_model_version := ''demo-rms-v1''\<rparr>)"

section \<open>One type for the three\<close>

datatype Processor =
    Threshold_p ThresholdProcessor
  | Window_p WindowAverageProcessor
  | Inference_p InferenceProcessor

text \<open>Virtual dispatch of \<open>IDataProcessor::process\<close>. None of the three throws or submits controls.\<close>

fun Processor_process :: "(Processor, 'w) process_fn" where
  "Processor_process context (Threshold_p p) event w =
     \<lparr>po_error = None, po_processor = Threshold_p p, po_event = ThresholdProcessor_process p event,
      po_world = w\<rparr>"
| "Processor_process context (Window_p p) event w =
     (let (p', event') = WindowAverageProcessor_process p event
      in \<lparr>po_error = None, po_processor = Window_p p', po_event = event', po_world = w\<rparr>)"
| "Processor_process context (Inference_p p) event w =
     \<lparr>po_error = None, po_processor = Inference_p p,
      po_event = InferenceProcessor_process (ctx_now_ns context) p event, po_world = w\<rparr>"

text \<open>What the constructors establish and \<open>process\<close> keeps.\<close>

fun Processor_ok :: "Processor \<Rightarrow> bool" where
  "Processor_ok (Threshold_p p) \<longleftrightarrow> th_input p \<noteq> [] \<and> th_output p \<noteq> []"
| "Processor_ok (Window_p p) \<longleftrightarrow> wa_input p \<noteq> [] \<and> wa_output p \<noteq> [] \<and> 0 < wa_window p \<and>
     (\<forall>values \<in> ran (wa_windows p). length values \<le> wa_window p)"
| "Processor_ok (Inference_p p) \<longleftrightarrow> inf_inputs p \<noteq> [] \<and> length (inf_outputs p) = 1"

section \<open>Lemmas\<close>

text \<open>The value a processor takes from an event.\<close>

definition good_input :: "Event \<Rightarrow> string \<Rightarrow> (Reading \<times> double) option" where
  "good_input event point =
     (case find_reading event point of
        None \<Rightarrow> None
      | Some r \<Rightarrow> if rd_quality r \<noteq> Good then None
                  else map_option (Pair r) (numeric_value (rd_value r)))"

lemma threshold_via_input:
  "ThresholdProcessor_process p e =
     (case good_input e (th_input p) of
        None \<Rightarrow> e
      | Some (r, v) \<Rightarrow> push_reading e (derived_reading (th_output p) (Boolean (dlt (th_greater_than p) v))
          (rd_source_time_ns r) (rd_received_time_ns r)))"
  by (simp add: ThresholdProcessor_process_def good_input_def split: option.splits)

lemma window_via_input:
  "WindowAverageProcessor_process p e =
     (case good_input e (wa_input p) of
        None \<Rightarrow> (p, e)
      | Some (r, v) \<Rightarrow>
          (let values = trim (wa_window p) (window_of p (ev_device_id e) @ [v])
           in (p\<lparr>wa_windows := (wa_windows p)(ev_device_id e \<mapsto> values)\<rparr>,
               if length values \<noteq> wa_window p then e
               else push_reading e (derived_reading (wa_output p) (Dbl (mean values))
                      (rd_source_time_ns r) (rd_received_time_ns r)))))"
  by (auto simp: WindowAverageProcessor_process_def good_input_def Let_def split: option.splits)

lemma rms_loop_via_input:
  "rms_loop e (point # points) acc =
     (case good_input e point of
        None \<Rightarrow> None
      | Some (r, v) \<Rightarrow> rms_loop e points
          (dadd (fst acc) (dmul v v), rd_source_time_ns r, rd_received_time_ns r))"
  by (cases acc) (simp add: good_input_def split: option.splits)

lemma trim_drop: "trim n xs = drop (length xs - n) xs"
  by (induction xs) (auto simp: Suc_diff_le)

lemma length_trim [simp]: "length (trim n xs) = min n (length xs)"
  by (simp add: trim_drop)

lemma extends_push [simp]: "rd_derived r \<Longrightarrow> extends_event e (push_reading e r)"
  by (simp add: extends_event_def push_reading_def)

lemma derived_reading_derived [simp]: "rd_derived (derived_reading p v s t)"
  by (simp add: derived_reading_def)

lemma extends_model_version [simp]: "extends_event e (e'\<lparr>ev_model_version := v\<rparr>) = extends_event e e'"
  by (simp add: extends_event_def)

interpretation proc: data_processor Processor_process Processor_ok
proof
  fix p e and c :: "'a ProcessingContext" and w :: 'a
  show "Processor_ok p \<Longrightarrow> extends_event e (po_event (Processor_process c p e w))"
    by (cases p)
       (auto simp: threshold_via_input window_via_input InferenceProcessor_process_def Let_def
             split: option.splits prod.splits)
  show "Processor_ok p \<Longrightarrow> Processor_ok (po_processor (Processor_process c p e w))"
    by (cases p) (auto simp: window_via_input Let_def ran_def split: option.splits prod.splits if_splits)
qed

lemma Processor_quiet:
  "process_loop Processor_process c ps e n w = (ps', e', n', w') \<Longrightarrow> w' = w \<and> n' = n"
proof (induction ps arbitrary: e n w ps')
  case (Cons p ps)
  then show ?case by (cases p) (auto simp: Let_def split: prod.splits)
qed simp

text \<open>The sequence of values a device fed into a window, and the window as its tail.\<close>

fun window_values :: "string \<Rightarrow> string \<Rightarrow> Event list \<Rightarrow> double list" where
  "window_values point device [] = []"
| "window_values point device (e # es) =
     (if ev_device_id e = device
      then (case good_input e point of None \<Rightarrow> [] | Some (_, v) \<Rightarrow> [v]) else []) @
     window_values point device es"

definition last_n :: "nat \<Rightarrow> 'a list \<Rightarrow> 'a list" where
  "last_n n xs = drop (length xs - n) xs"

lemma last_n_append: "last_n n (last_n n xs @ ys) = last_n n (xs @ ys)"
  by (cases "length xs \<le> n") (simp_all add: last_n_def add.commute)

lemma window_values_append:
  "window_values p d (es @ fs) = window_values p d es @ window_values p d fs"
  by (induction es) auto

definition window_run :: "WindowAverageProcessor \<Rightarrow> Event list \<Rightarrow> WindowAverageProcessor" where
  "window_run p es = fold (\<lambda>e p. fst (WindowAverageProcessor_process p e)) es p"

lemma window_step_frame:
  "wa_input (fst (WindowAverageProcessor_process p e)) = wa_input p"
  "wa_window (fst (WindowAverageProcessor_process p e)) = wa_window p"
  "wa_output (fst (WindowAverageProcessor_process p e)) = wa_output p"
  by (simp_all add: window_via_input Let_def split: option.splits prod.splits)

lemma window_run_frame:
  "wa_input (window_run p es) = wa_input p" "wa_window (window_run p es) = wa_window p"
  "wa_output (window_run p es) = wa_output p"
  by (induction es arbitrary: p) (simp_all add: window_run_def window_step_frame)

lemma window_step_window:
  assumes "length (window_of p d) \<le> wa_window p"
  shows "window_of (fst (WindowAverageProcessor_process p e)) d =
    last_n (wa_window p) (window_of p d @ window_values (wa_input p) d [e])"
  using assms
  by (auto simp: window_via_input window_of_def Let_def last_n_def trim_drop split: option.splits prod.splits)

lemma window_run_window:
  assumes "length (window_of p d) \<le> wa_window p"
  shows "window_of (window_run p es) d = last_n (wa_window p) (window_of p d @ window_values (wa_input p) d es)"
  using assms
proof (induction es arbitrary: p)
  case Nil
  then show ?case by (simp add: window_run_def last_n_def)
next
  case (Cons e es)
  let ?q = "fst (WindowAverageProcessor_process p e)"
  have q: "window_of ?q d = last_n (wa_window p) (window_of p d @ window_values (wa_input p) d [e])"
    by (rule window_step_window [OF Cons.prems])
  then have "length (window_of ?q d) \<le> wa_window ?q" by (simp add: last_n_def window_step_frame)
  from Cons.IH [OF this] show ?case
    by (simp add: window_run_def q window_step_frame last_n_append)
qed

section \<open>Sign of the root mean square\<close>

fun nonneg_double :: "double \<Rightarrow> bool" where
  "nonneg_double NaN = False"
| "nonneg_double (Infinity s) = (\<not> s)"
| "nonneg_double (Finite s r) = (\<not> s \<and> 0 \<le> r)"

lemma nonneg_round: "nonneg_double (round_double False r)"
  using round_mantissa_bounds(1) [of r] by (auto simp: round_double_def Let_def)

lemma nonneg_ops:
  "x \<noteq> NaN \<Longrightarrow> nonneg_double (dmul x x)"
  "nonneg_double x \<Longrightarrow> nonneg_double y \<Longrightarrow> nonneg_double (dadd x y)"
  "nonneg_double x \<Longrightarrow> 0 < r \<Longrightarrow> nonneg_double (ddiv x (Finite False r))"
  "nonneg_double x \<Longrightarrow> nonneg_double (dsqrt x)"
proof -
  show "x \<noteq> NaN \<Longrightarrow> nonneg_double (dmul x x)" by (cases x) (simp_all add: nonneg_round)
  show "nonneg_double x \<Longrightarrow> nonneg_double y \<Longrightarrow> nonneg_double (dadd x y)"
    by (cases x; cases y) (auto simp: Let_def signed_rat_def nonneg_round)
  show "nonneg_double x \<Longrightarrow> 0 < r \<Longrightarrow> nonneg_double (ddiv x (Finite False r))"
    by (cases x) (auto simp: nonneg_round)
  show "nonneg_double x \<Longrightarrow> nonneg_double (dsqrt x)"
    by (cases x) (auto simp: Let_def nonneg_round)
qed

lemma rms_loop_spec:
  "rms_loop e points acc =
     (if \<forall>point \<in> set points. good_input e point \<noteq> None
      then let inputs = map (\<lambda>point. the (good_input e point)) points in
           Some (fold (\<lambda>(r, v) s. dadd s (dmul v v)) inputs (fst acc),
                 if inputs = [] then snd acc
                 else (rd_source_time_ns (fst (last inputs)), rd_received_time_ns (fst (last inputs))))
      else None)"
proof (induction points arbitrary: acc)
  case Nil
  then show ?case by simp
next
  case (Cons point points)
  show ?case
    unfolding rms_loop_via_input Cons.IH
    by (cases "good_input e point") (auto simp: Let_def split: prod.splits)
qed

lemma sum_squares_nonneg:
  "\<forall>x \<in> set inputs. snd x \<noteq> NaN \<Longrightarrow> nonneg_double s \<Longrightarrow>
     nonneg_double (fold (\<lambda>(r, v) s. dadd s (dmul v v)) inputs s)"
  by (induction inputs arbitrary: s) (auto simp: nonneg_ops)
section \<open>Properties\<close>

text \<open>C34: the gateway's processors only add to an event. Whatever pipeline of well-formed threshold, window
  and inference processors runs, the event keeps its id, device, source and measured readings, everything
  appended is marked derived, a point found before has the same reading afterwards, no error is
  counted, and the processors stay well-formed.\<close>

theorem pipeline_only_appends_derived:
  assumes "ProcessingPipeline_process Processor_process now pl e w = (e', pl', w')"
    and "\<forall>p \<in> set (pl_processors pl). Processor_ok p"
  shows "extends_event e e' \<and> (\<forall>p \<in> set (pl_processors pl'). Processor_ok p) \<and>
    (\<forall>point r. find_reading e point = Some r \<longrightarrow> find_reading e' point = Some r) \<and>
    pl_processor_errors pl' = pl_processor_errors pl \<and> w' = w"
  using proc.pipeline_extends [OF assms(2,1)] proc.pipeline_keeps_found [OF assms(2,1)] assms(1)
  by (auto simp: ProcessingPipeline_process_def Let_def split: prod.splits dest: Processor_quiet)

definition example_reading :: "string \<Rightarrow> int \<Rightarrow> Reading" where
  "example_reading point v = \<lparr>rd_point = point, rd_value = Int64 (word_of_int v), rd_quality = Good, rd_unit = ''C'',
     rd_source_time_ns = 5, rd_received_time_ns = 6, rd_derived = False\<rparr>"

definition example_measured :: "int \<Rightarrow> Event" where
  "example_measured v = example_event\<lparr>ev_readings := [example_reading ''t'' v, example_reading ''u'' 4]\<rparr>"

definition example_window :: WindowAverageProcessor where
  "example_window = \<lparr>wa_input = ''t'', wa_window = 2, wa_output = ''avg'', wa_windows = Map.empty\<rparr>"

definition example_inference :: InferenceProcessor where
  "example_inference = \<lparr>inf_runner = ''demo_rms'', inf_inputs = [''t'', ''u''], inf_outputs = [''rms'']\<rparr>"

definition example_processors :: "(Processor, nat) ProcessingPipeline" where
  "example_processors = \<lparr>pl_processors =
     [Threshold_p \<lparr>th_input = ''t'', th_greater_than = Finite False 2, th_output = ''hot''\<rparr>,
      Window_p example_window, Inference_p example_inference],
     pl_control = None, pl_events = 0, pl_processor_errors = 0\<rparr>"

theorem pipeline_only_appends_derived_witness:
  "\<exists>e' pl' w'. ProcessingPipeline_process Processor_process 9 example_processors (example_measured 3) 0 = (e', pl', w') \<and>
     map rd_point (ev_readings e') = [''t'', ''u'', ''hot'', ''rms''] \<and> extends_event (example_measured 3) e'"
proof -
  obtain e' pl' w' where
    r: "ProcessingPipeline_process Processor_process 9 example_processors (example_measured 3) 0 = (e', pl', w')"
    by (metis prod_cases3)
  have ok: "\<forall>p \<in> set (pl_processors example_processors). Processor_ok p"
    by (simp add: example_processors_def example_window_def example_inference_def)
  have "map rd_point (ev_readings (fst (ProcessingPipeline_process Processor_process 9 example_processors
      (example_measured 3) 0))) = [''t'', ''u'', ''hot'', ''rms'']" by code_simp
  with pipeline_only_appends_derived [OF r ok] r show ?thesis by simp
qed

text \<open>C37: the window average is a sliding mean per device. After any sequence of events the window of a
  device holds the last \<open>window\<close> good numeric values that device delivered for the input point, in order
  and independently of other devices; the next value makes the processor append the floating-point mean of the
  window exactly when the window is full, and nothing otherwise.\<close>

theorem window_average_sliding:
  assumes "WindowAverageProcessor_new input window output = Inr p"
  shows "window_of (window_run p es) device = last_n window (window_values input device es) \<and>
    (let values = last_n window (window_values input (ev_device_id e) (es @ [e]));
         e' = snd (WindowAverageProcessor_process (window_run p es) e)
     in case good_input e input of
          None \<Rightarrow> e' = e
        | Some (r, v) \<Rightarrow>
            e' = (if length values = window
                  then push_reading e (derived_reading output (Dbl (mean values))
                         (rd_source_time_ns r) (rd_received_time_ns r))
                  else e))"
proof -
  have p: "wa_input p = input" "wa_window p = window" "wa_output p = output" "wa_windows p = Map.empty"
    using assms by (auto simp: WindowAverageProcessor_new_def split: if_splits)
  then have w: "window_of (window_run p es) d = last_n window (window_values input d es)" for d
    using window_run_window [of p d es] by (simp add: window_of_def)
  have "trim window (last_n window xs @ [v]) = last_n window (xs @ [v])" for xs v
    using last_n_append [of window xs "[v]"] by (simp add: trim_drop last_n_def)
  then show ?thesis
    using w p by (auto simp: window_via_input window_run_frame window_values_append Let_def split: option.splits)
qed

theorem window_average_sliding_witness:
  "WindowAverageProcessor_new ''t'' 2 ''avg'' = Inr example_window \<and>
   window_of (window_run example_window [example_measured 3, example_measured 4, example_measured 5]) ''plc'' =
     [Finite False 4, Finite False 5]"
proof -
  have n: "WindowAverageProcessor_new ''t'' 2 ''avg'' = Inr example_window"
    by (simp add: WindowAverageProcessor_new_def example_window_def)
  have "last_n 2 (window_values ''t'' ''plc'' [example_measured 3, example_measured 4, example_measured 5]) =
     [Finite False 4, Finite False 5]" by code_simp
  with window_average_sliding [OF n] n show ?thesis by simp
qed

text \<open>The root-mean-square inference fires exactly when every input is present, good and numeric, and
  then appends one reading under the configured output, whose value is the rounded square root of the mean of the
  squares; as long as no input is NaN that value is not NaN and not negative.\<close>

theorem inference_rms:
  assumes "InferenceProcessor_new runner inputs outputs = Inr p" and "length inputs \<le> 2 ^ 53"
  shows "(\<exists>point \<in> set inputs. good_input e point = None) \<and> InferenceProcessor_process now p e = e \<or>
    (\<exists>ins value s t. map (good_input e) inputs = map Some ins \<and>
       value = dsqrt (ddiv (fold (\<lambda>(r, v) acc. dadd acc (dmul v v)) ins (Finite False 0))
                  (double_of_int (int (length inputs)))) \<and>
       ((\<forall>(r, v) \<in> set ins. v \<noteq> NaN) \<longrightarrow> nonneg_double value) \<and>
       InferenceProcessor_process now p e =
         (push_reading e (derived_reading (outputs ! 0) (Dbl value) s t))\<lparr>ev_model_version := ''demo-rms-v1''\<rparr>)"
proof (cases "\<forall>point \<in> set inputs. good_input e point \<noteq> None")
  case False
  moreover have "inf_inputs p = inputs"
    using assms(1) by (auto simp: InferenceProcessor_new_def split: if_splits)
  ultimately have "InferenceProcessor_process now p e = e"
    unfolding InferenceProcessor_process_def rms_loop_spec by (simp only: if_False option.case)
  moreover from False have "\<exists>point \<in> set inputs. good_input e point = None"
    by (simp only: ball_simps not_not)
  ultimately show ?thesis by (intro disjI1 conjI)
next
  case True
  define ins where "ins = map (\<lambda>point. the (good_input e point)) inputs"
  let ?sum = "fold (\<lambda>(r, v) acc. dadd acc (dmul v v)) ins (Finite False 0)"
  let ?rms = "dsqrt (ddiv ?sum (double_of_int (int (length inputs))))"
  have ins: "map (good_input e) inputs = map Some ins" using True by (simp add: ins_def)
  have p: "inf_inputs p = inputs" "hd (inf_outputs p) = outputs ! 0" "0 < length inputs"
    using assms(1) by (auto simp: InferenceProcessor_new_def length_Suc_conv split: if_splits)
  have n: "double_of_int (int (length inputs)) = Finite False (of_nat (length inputs))"
    using assms(2) double_of_int_exact [of "int (length inputs)"] by (simp add: le_nat_iff nat_le_iff)
  have "(\<forall>(r, v) \<in> set ins. v \<noteq> NaN) \<longrightarrow> nonneg_double ?rms"
    unfolding n using p(3) by (auto intro!: nonneg_ops sum_squares_nonneg)
  moreover have "\<exists>s t. InferenceProcessor_process now p e =
      (push_reading e (derived_reading (outputs ! 0) (Dbl ?rms) s t))\<lparr>ev_model_version := ''demo-rms-v1''\<rparr>"
    using True by (auto simp: InferenceProcessor_process_def rms_loop_spec p ins_def [symmetric] Let_def)
  ultimately show ?thesis using ins by blast
qed

theorem inference_rms_witness:
  "InferenceProcessor_new ''demo_rms'' [''t'', ''u''] [''rms''] = Inr example_inference \<and>
   (\<exists>value s t. nonneg_double value \<and> InferenceProcessor_process 9 example_inference (example_measured 3) =
     (push_reading (example_measured 3) (derived_reading ''rms'' (Dbl value) s t))\<lparr>ev_model_version := ''demo-rms-v1''\<rparr>)"
proof -
  have n: "InferenceProcessor_new ''demo_rms'' [''t'', ''u''] [''rms''] = Inr example_inference"
    by (simp add: InferenceProcessor_new_def example_inference_def)
  have g: "good_input (example_measured 3) ''t'' = Some (example_reading ''t'' 3, Finite False 3)"
    "good_input (example_measured 3) ''u'' = Some (example_reading ''u'' 4, Finite False 4)" by code_simp+
  have l: "length [''t'', ''u''] \<le> 2 ^ 53" by simp
  from inference_rms [OF n l, of "example_measured 3" 9] n g show ?thesis
    by (fastforce simp: Cons_eq_map_conv)
qed

text \<open>The threshold processor reports exactly the comparison of a good numeric input with its limit, with
  the input's timestamps; bad, missing or non-numeric inputs produce nothing.\<close>

theorem threshold_reports_comparison:
  "ThresholdProcessor_process p e =
     (case find_reading e (th_input p) of
        Some r \<Rightarrow>
          (case (rd_quality r, numeric_value (rd_value r)) of
             (Good, Some v) \<Rightarrow>
               e\<lparr>ev_readings := ev_readings e @
                  [\<lparr>rd_point = th_output p, rd_value = Boolean (dlt (th_greater_than p) v), rd_quality = Good,
                    rd_unit = [], rd_source_time_ns = rd_source_time_ns r,
                    rd_received_time_ns = rd_received_time_ns r, rd_derived = True\<rparr>]\<rparr>
           | _ \<Rightarrow> e)
      | None \<Rightarrow> e)"
  by (simp add: ThresholdProcessor_process_def push_reading_def derived_reading_def
      split: option.splits Quality.splits)

end
