(* ===== verification/Gateway_Threads.thy ===== *)
theory Gateway_Threads
  imports Runtime Processors
begin

text \<open>
  The running gateway with all its threads: drivers that push, control sources that submit, the
  scheduler that polls, the worker that processes batches, the dispatcher's worker, and the thread inside
  \<open>GatewayRuntime::stop\<close>. An action is what one thread does between two points where it can be
  overtaken; \<open>gateway_act\<close> says whether an action is possible and what it changes. The state begins when
  \<open>start\<close> has returned. Calls into a driver are bracketed by the device's I/O gate, so a poll and a control call of one
  device are seen to exclude each other.
\<close>

section \<open>What a processor may do to controls\<close>

text \<open>One use of the context's control sink.\<close>

definition submission :: "'w ProcessingContext \<Rightarrow> 'w \<Rightarrow> 'w \<Rightarrow> bool" where
  "submission context w w' \<longleftrightarrow> (\<exists>request. w' = snd (ProcessingContext_submit_control context request w))"

text \<open>A processor reaches the dispatcher only through the context it is given.\<close>

locale submitting_processor =
  fixes proc :: "('p, 'w) process_fn"
  assumes only_submits: "(submission context)\<^sup>*\<^sup>* w (po_world (proc context p e w))"
begin

lemma loop_submits:
  "process_loop proc context ps e n w = (ps', e', n', w') \<Longrightarrow> (submission context)\<^sup>*\<^sup>* w w'"
proof (induction ps arbitrary: e n w ps')
  case (Cons p ps)
  let ?out = "proc context p e w"
  obtain qs where "process_loop proc context ps (po_event ?out)
      (if po_error ?out = None then n else n + 1) (po_world ?out) = (qs, e', n', w')"
    using Cons.prems by (auto simp: Let_def split: prod.splits)
  from Cons.IH [OF this] show ?case
    using only_submits [of "context" w p e] by (rule rtranclp_trans [rotated])
qed simp

lemma pipeline_submits:
  "ProcessingPipeline_process proc now pl e w = (e', pl', w') \<Longrightarrow>
     (submission \<lparr>ctx_now_ns = now, ctx_control = pl_control pl\<rparr>)\<^sup>*\<^sup>* w w'"
  by (auto simp: ProcessingPipeline_process_def Let_def split: prod.splits dest: loop_submits)

end

interpretation builtin: submitting_processor Processor_process
proof
  fix c :: "'a ProcessingContext" and w :: 'a and p e
  have "po_world (Processor_process c p e w) = w"
    by (cases p) (auto simp: Let_def split: prod.splits)
  then show "(submission c)\<^sup>*\<^sup>* w (po_world (Processor_process c p e w))" by simp
qed

section \<open>State\<close>

text \<open>Where the thread inside \<open>stop\<close> is; \<open>Ph_running\<close> before the call.\<close>

datatype phase =
    Ph_running | Ph_begun | Ph_asked | Ph_scheduler | Ph_dispatcher | Ph_control_join | Ph_sources
  | Ph_push | Ph_poll | Ph_close | Ph_worker | Ph_publishers | Ph_mark | Ph_stopped

fun rank :: "phase \<Rightarrow> nat" where
  "rank Ph_running = 0"
| "rank Ph_begun = 1"
| "rank Ph_asked = 2"
| "rank Ph_scheduler = 3"
| "rank Ph_dispatcher = 4"
| "rank Ph_control_join = 5"
| "rank Ph_sources = 6"
| "rank Ph_push = 7"
| "rank Ph_poll = 8"
| "rank Ph_close = 9"
| "rank Ph_worker = 10"
| "rank Ph_publishers = 11"
| "rank Ph_mark = 12"
| "rank Ph_stopped = 13"

datatype batch_worker = W_waiting | W_busy RawBatch | W_ended

datatype holder = By_poll | By_control

datatype event = Ev_call call | Ev_poll string | Ev_control string

text \<open>
  Besides the runtime: the worker's position; the task the scheduler has selected, with the clock reading that
  selected it, and, once its poll has taken the gate and is in the driver, the device; the device whose driver executes a
  control; who holds which gate; the threads
  between the check of \<open>accepting_controls_\<close> and the dispatcher's \<open>submit\<close>. The last three
  fields are history: accepted batches, processed batches, calls.
\<close>

record ('d, 'b, 's, 'p, 'c) gateway =
  sy_rt :: "('d, 'b, 's, 'p, 'c) GatewayRuntime"
  sy_phase :: phase
  sy_worker :: batch_worker
  sy_polling :: "(int \<times> nat \<times> string option) option"
  sy_control :: "string option"
  sy_gates :: "string \<rightharpoonup> holder"
  sy_passed :: nat
  sy_accepted :: "RawBatch list"
  sy_processed :: "RawBatch list"
  sy_trace :: "event list"

definition initial_gateway :: "('d, 'b, 's, 'p, 'c) GatewayRuntime \<Rightarrow> ('d, 'b, 's, 'p, 'c) gateway" where
  "initial_gateway rt = \<lparr>sy_rt = rt, sy_phase = Ph_running, sy_worker = W_waiting, sy_polling = None,
     sy_control = None, sy_gates = Map.empty, sy_passed = 0, sy_accepted = [], sy_processed = [],
     sy_trace = map Ev_call (rt_calls rt)\<rparr>"

abbreviation dispatcher_of :: "('d, 'b, 's, 'p, 'c) GatewayRuntime \<Rightarrow> 'c Dispatcher" where
  "dispatcher_of rt \<equiv> cw_dispatcher (rt_control rt)"

abbreviation resolver :: "'d DriverInstance list \<Rightarrow> string \<Rightarrow> 'd option result" where
  "resolver drivers \<equiv> \<lambda>device. Inr (find_driver_ptr drivers device)"

definition with_dispatcher :: "'c Dispatcher \<Rightarrow> ('d, 'b, 's, 'p, 'c) gateway \<Rightarrow> ('d, 'b, 's, 'p, 'c) gateway" where
  "with_dispatcher d s = s\<lparr>sy_rt := with_control (\<lambda>w. w\<lparr>cw_dispatcher := d\<rparr>) (sy_rt s)\<rparr>"

text \<open>A new runtime, with the batches its queue took in and the calls it logged.\<close>

definition observe ::
  "('d, 'b, 's, 'p, 'c) GatewayRuntime \<Rightarrow> ('d, 'b, 's, 'p, 'c) gateway \<Rightarrow> ('d, 'b, 's, 'p, 'c) gateway" where
  "observe rt s = s\<lparr>sy_rt := rt,
     sy_accepted := sy_accepted s @ drop (length (bq_queue (rt_raw_queue (sy_rt s)))) (bq_queue (rt_raw_queue rt)),
     sy_trace := sy_trace s @ map Ev_call (drop (length (rt_calls (sy_rt s))) (rt_calls rt))\<rparr>"

section \<open>Actions\<close>

datatype 'c gateway_action =
    Clock int
  | Driver_push RawBatch
  | Source_check | Source_enter | Source_decide int DeviceControlRequest "'c option"
  | Poll_select int | Poll_begin | Poll_end poll_env round | Poll_skip poll_env round | Scheduler_exit
  | Worker_pop | Worker_process
  | Control_next exec_env | Control_begin | Control_end exec_env | Control_skip exec_env
  | Stop bool

text \<open>
  The turn of the scheduler loop around one poll: the callback is \<open>poll_group\<close>, and whether it threw goes into the
  accounting. The loop tested \<open>stopping_\<close> before it selected the task and released its mutex; a stop requested since then
  is seen at the next turn. The due times are those of \<^const>\<open>policy_on_complete\<close>, without wrap-around.
\<close>

definition polled ::
  "poll_env \<Rightarrow> round \<Rightarrow> ('d, 'b, 's, 'p, 'c) GatewayRuntime \<Rightarrow> ('d, 'b, 's, 'p, 'c) GatewayRuntime option" where
  "polled env r rt =
     (case rt_scheduler rt of
        None \<Rightarrow> None
      | Some e \<Rightarrow>
          (case policy_select_due (se_policy e) (rnd_now r) of
             None \<Rightarrow> None
           | Some i \<Rightarrow>
               let (x, rt1) = poll_group env (se_policy e ! i) rt
               in map_option (\<lambda>(e1, _). rt1\<lparr>rt_scheduler := Some (e1\<lparr>se_stopping := se_stopping e\<rparr>)\<rparr>)
                    (engine_round policy_tasks policy_select_due policy_on_complete
                       (r\<lparr>rnd_failed := (x \<noteq> None)\<rparr>) (e\<lparr>se_stopping := False\<rparr>))))"

text \<open>The device whose driver the poll of a task is going to call.\<close>

definition poll_target :: "nat \<Rightarrow> ('d, 'b, 's, 'p, 'c) GatewayRuntime \<Rightarrow> string option" where
  "poll_target i rt =
     (case rt_scheduler rt of
        None \<Rightarrow> None
      | Some e \<Rightarrow>
          (case find_group (rt_config rt) (task_group_id (se_policy e ! i)) of
             Inl _ \<Rightarrow> None
           | Inr g \<Rightarrow>
               if isl (find_driver (rt_drivers rt) (grp_device_id g)) then None
               else find_io_gate (rt_io_gates rt) (grp_device_id g)))"

definition scheduler_loops :: "('d, 'b, 's, 'p, 'c) GatewayRuntime \<Rightarrow> bool" where
  "scheduler_loops rt = (case rt_scheduler rt of None \<Rightarrow> False | Some e \<Rightarrow> se_running e \<and> \<not> se_stopping e)"

text \<open>The next step of the thread inside \<open>stop\<close>; \<^const>\<open>None\<close> while it waits for another thread.\<close>

definition stop_act :: "bool \<Rightarrow> ('d, 'b, 's, 'p, 'c) gateway \<Rightarrow> ('d, 'b, 's, 'p, 'c) gateway option" where
  "stop_act alloc_ok s =
     (let rt = sy_rt s; d = dispatcher_of rt; dr = resolver (rt_drivers rt);
          sources = rev [0..<length (rt_sources rt)];
          go = (\<lambda>phase rt'. Some ((observe rt' s)\<lparr>sy_phase := phase\<rparr>))
      in case sy_phase s of
           Ph_running \<Rightarrow>
             if \<not> rt_started rt \<or> rt_stopped rt \<or> rt_stopping rt then None
             else go Ph_begun (with_control (\<lambda>w. w\<lparr>cw_accepting := False\<rparr>) (rt\<lparr>rt_stopping := True\<rparr>))
         | Ph_begun \<Rightarrow> go Ph_asked (log_calls (map C_source_request_stop sources) rt)
         | Ph_asked \<Rightarrow> go Ph_scheduler (rt\<lparr>rt_scheduler := map_option SchedulerEngine_request_stop (rt_scheduler rt)\<rparr>)
         | Ph_scheduler \<Rightarrow>
             (case rt_scheduler rt of
                None \<Rightarrow> go Ph_dispatcher rt
              | Some e \<Rightarrow>
                  (case SchedulerEngine_join e of
                     None \<Rightarrow> None
                   | Some e' \<Rightarrow> go Ph_dispatcher (log_calls [C_scheduler_stop] (rt\<lparr>rt_scheduler := Some e'\<rparr>))))
         | Ph_dispatcher \<Rightarrow>
             if \<not> dd_stopping d then map_option (\<lambda>d'. with_dispatcher d' s) (act dr (A_stop_begin alloc_ok) d)
             else if dd_cancelling d = None then go Ph_control_join rt
             else map_option (\<lambda>d'. with_dispatcher d' s) (act dr A_stop d)
         | Ph_control_join \<Rightarrow>
             if dd_joined d then go Ph_sources (log_calls [C_dispatcher_stop] rt)
             else map_option (\<lambda>d'. with_dispatcher d' s) (act dr A_join d)
         | Ph_sources \<Rightarrow> go Ph_push (log_calls (map C_source_stop sources) rt)
         | Ph_push \<Rightarrow> go Ph_poll (log_calls (stop_drivers_of Mode_Push rt) rt)
         | Ph_poll \<Rightarrow> go Ph_close (log_calls (stop_drivers_of Mode_Poll rt) rt)
         | Ph_close \<Rightarrow> go Ph_worker (log_calls [C_queue_close] (rt\<lparr>rt_raw_queue := BoundedQueue_close (rt_raw_queue rt)\<rparr>))
         | Ph_worker \<Rightarrow>
             if sy_worker s = W_ended then go Ph_publishers (log_calls [C_worker_join] (rt\<lparr>rt_worker := False\<rparr>)) else None
         | Ph_publishers \<Rightarrow> go Ph_mark (log_calls (map C_publisher_stop (rev [0..<length (rt_event_publishers rt)])) rt)
         | Ph_mark \<Rightarrow> go Ph_stopped (mark_stopped rt)
         | Ph_stopped \<Rightarrow> None)"

text \<open>
  What an execution learns of the device agrees with the gateway: whether the resolvers find a driver and a gate.
  Locking the gate does not throw, the clock is not at its maximum, and where the gate is acquired it was free.
\<close>

definition device_known :: "('d, 'b, 's, 'p, 'c) GatewayRuntime \<Rightarrow> string \<Rightarrow> bool" where
  "device_known rt device \<longleftrightarrow> find_driver_ptr (rt_drivers rt) device \<noteq> None"

definition answers_agree :: "('d, 'b, 's, 'p, 'c) GatewayRuntime \<Rightarrow> string \<Rightarrow> exec_env \<Rightarrow> bool" where
  "answers_agree rt device env \<longleftrightarrow>
     en_driver env = Inr (device_known rt device) \<and> en_gate env = Inr (find_io_gate (rt_io_gates rt) device \<noteq> None) \<and>
     \<not> isl (en_lock env) \<and> en_now env < time_point_max \<and> en_locked_at env < time_point_max"

definition lock_agrees :: "('d, 'b, 's, 'p, 'c) gateway \<Rightarrow> DeviceControlRequest \<Rightarrow> exec_env \<Rightarrow> bool" where
  "lock_agrees s request env \<longleftrightarrow>
     (case find_io_gate (rt_io_gates (sy_rt s)) (rq_device_id request) of
        None \<Rightarrow> True
      | Some gate \<Rightarrow> en_now env < rq_deadline request \<and> lock_acquired env (rq_deadline request) \<longrightarrow> sy_gates s gate = None)"

text \<open>The dispatcher's worker between two operations, at the gate, and back from the driver.\<close>

definition control_begin :: "('d, 'b, 's, 'p, 'c) gateway \<Rightarrow> ('d, 'b, 's, 'p, 'c) gateway option" where
  "control_begin s =
     (case dd_worker (dispatcher_of (sy_rt s)) of
        Executing operation \<Rightarrow>
          (let device = rq_device_id (op_request operation)
           in case find_io_gate (rt_io_gates (sy_rt s)) device of
                None \<Rightarrow> None
              | Some gate \<Rightarrow>
                  if sy_control s = None \<and> device_known (sy_rt s) device \<and> sy_gates s gate = None
                  then Some (s\<lparr>sy_control := Some gate, sy_gates := (sy_gates s)(gate \<mapsto> By_control),
                               sy_trace := sy_trace s @ [Ev_control gate]\<rparr>)
                  else None)
      | _ \<Rightarrow> None)"

definition control_end :: "exec_env \<Rightarrow> ('d, 'b, 's, 'p, 'c) gateway \<Rightarrow> ('d, 'b, 's, 'p, 'c) gateway option" where
  "control_end env s =
     (case (dd_worker (dispatcher_of (sy_rt s)), sy_control s) of
        (Executing operation, Some gate) \<Rightarrow>
          if answers_agree (sy_rt s) (rq_device_id (op_request operation)) env \<and> en_lock env = Inr True \<and>
             snd (execute_outcome (dd_has_gate (dispatcher_of (sy_rt s))) env (op_request operation))
          then map_option (\<lambda>d. (with_dispatcher d s)\<lparr>sy_control := None, sy_gates := (sy_gates s)(gate := None)\<rparr>)
                 (act (resolver (rt_drivers (sy_rt s))) (A_worker env) (dispatcher_of (sy_rt s)))
          else None
      | _ \<Rightarrow> None)"

definition control_skip :: "exec_env \<Rightarrow> ('d, 'b, 's, 'p, 'c) gateway \<Rightarrow> ('d, 'b, 's, 'p, 'c) gateway option" where
  "control_skip env s =
     (let d = dispatcher_of (sy_rt s)
      in case (dd_worker d, sy_control s) of
           (Executing operation, None) \<Rightarrow>
             if answers_agree (sy_rt s) (rq_device_id (op_request operation)) env \<and>
                lock_agrees s (op_request operation) env \<and>
                \<not> snd (execute_outcome (dd_has_gate d) env (op_request operation))
             then map_option (\<lambda>d'. with_dispatcher d' s) (act (resolver (rt_drivers (sy_rt s))) (A_worker env) d)
             else None
         | _ \<Rightarrow> None)"


text \<open>
  All actions. A push or a poll may be accepted or refused by the queue; a source thread passes the check of
  \<open>accepting_controls_\<close> and then, possibly after the flag was cleared, submits. The scheduler selects a task with its
  mutex held and polls it without, so that a stop may be requested between any two of its actions. The environment of \<open>Control_next\<close>
  plays no role while the dispatcher's worker takes an operation from its queue.
\<close>

fun gateway_act ::
  "('d, 'b, 's) plugins \<Rightarrow> ('p, 'c) worker_env \<Rightarrow> 'c gateway_action \<Rightarrow> ('d, 'b, 's, 'p, 'c) gateway \<Rightarrow>
   ('d, 'b, 's, 'p, 'c) gateway option" where
  "gateway_act pg we (Clock t) s = Some (s\<lparr>sy_rt := with_control (\<lambda>w. w\<lparr>cw_now := t\<rparr>) (sy_rt s)\<rparr>)"
| "gateway_act pg we (Driver_push batch) s =
     Some (observe ((sy_rt s)\<lparr>rt_raw_queue := snd (BoundedQueue_try_push (rt_raw_queue (sy_rt s)) batch)\<rparr>) s)"
| "gateway_act pg we Source_check s =
     (if cw_accepting (rt_control (sy_rt s)) then Some (s\<lparr>sy_passed := sy_passed s + 1\<rparr>) else None)"
| "gateway_act pg we Source_enter s =
     (if 0 < sy_passed s
      then map_option (\<lambda>d. (with_dispatcher d s)\<lparr>sy_passed := sy_passed s - 1\<rparr>)
             (act (resolver (rt_drivers (sy_rt s))) A_enter (dispatcher_of (sy_rt s)))
      else None)"
| "gateway_act pg we (Source_decide now request completion) s =
     map_option (\<lambda>d. with_dispatcher d s)
       (act (resolver (rt_drivers (sy_rt s))) (A_decide now request completion) (dispatcher_of (sy_rt s)))"
| "gateway_act pg we (Poll_select now) s =
     (if scheduler_loops (sy_rt s) \<and> sy_polling s = None
      then (case rt_scheduler (sy_rt s) of
              None \<Rightarrow> None
            | Some e \<Rightarrow> map_option (\<lambda>i. s\<lparr>sy_polling := Some (now, i, None)\<rparr>) (policy_select_due (se_policy e) now))
      else None)"
| "gateway_act pg we Poll_begin s =
     (case sy_polling s of
        Some (now, i, None) \<Rightarrow>
          (case poll_target i (sy_rt s) of
             None \<Rightarrow> None
           | Some gate \<Rightarrow>
               if sy_gates s gate = None
               then Some (s\<lparr>sy_polling := Some (now, i, Some gate), sy_gates := (sy_gates s)(gate \<mapsto> By_poll),
                            sy_trace := sy_trace s @ [Ev_poll gate]\<rparr>)
               else None)
      | _ \<Rightarrow> None)"
| "gateway_act pg we (Poll_end env r) s =
     (case sy_polling s of
        Some (now, i, Some gate) \<Rightarrow>
          if pe_lock env = Inr True
          then map_option (\<lambda>rt. (observe rt s)\<lparr>sy_polling := None, sy_gates := (sy_gates s)(gate := None)\<rparr>)
                 (polled env (r\<lparr>rnd_now := now\<rparr>) (sy_rt s))
          else None
      | _ \<Rightarrow> None)"
| "gateway_act pg we (Poll_skip env r) s =
     (case sy_polling s of
        Some (now, i, None) \<Rightarrow>
          if poll_target i (sy_rt s) = None \<or> pe_lock env \<noteq> Inr True
          then map_option (\<lambda>rt. (observe rt s)\<lparr>sy_polling := None\<rparr>) (polled env (r\<lparr>rnd_now := now\<rparr>) (sy_rt s))
          else None
      | _ \<Rightarrow> None)"
| "gateway_act pg we Scheduler_exit s =
     (case rt_scheduler (sy_rt s) of
        None \<Rightarrow> None
      | Some e \<Rightarrow>
          if se_running e \<and> se_stopping e \<and> sy_polling s = None
          then Some (s\<lparr>sy_rt := (sy_rt s)\<lparr>rt_scheduler := Some (e\<lparr>se_running := False\<rparr>)\<rparr>\<rparr>) else None)"
| "gateway_act pg we Worker_pop s =
     (if sy_worker s = W_waiting
      then (case BoundedQueue_wait_pop (rt_raw_queue (sy_rt s)) of
              None \<Rightarrow> None
            | Some (x, q) \<Rightarrow>
                Some (s\<lparr>sy_rt := (sy_rt s)\<lparr>rt_raw_queue := q\<rparr>,
                        sy_worker := (case x of None \<Rightarrow> W_ended | Some batch \<Rightarrow> W_busy batch)\<rparr>))
      else None)"
| "gateway_act pg we Worker_process s =
     (case sy_worker s of
        W_busy batch \<Rightarrow>
          Some ((observe (process_batch pg we batch (sy_rt s)) s)
                  \<lparr>sy_worker := W_waiting, sy_processed := sy_processed s @ [batch]\<rparr>)
      | _ \<Rightarrow> None)"
| "gateway_act pg we (Control_next env) s =
     (if dd_worker (dispatcher_of (sy_rt s)) = Waiting
      then map_option (\<lambda>d. with_dispatcher d s)
             (act (resolver (rt_drivers (sy_rt s))) (A_worker env) (dispatcher_of (sy_rt s)))
      else None)"
| "gateway_act pg we Control_begin s = control_begin s"
| "gateway_act pg we (Control_end env) s = control_end env s"
| "gateway_act pg we (Control_skip env) s = control_skip env s"
| "gateway_act pg we (Stop alloc_ok) s = stop_act alloc_ok s"

definition gateway_step where
  "gateway_step pg we s s' \<longleftrightarrow> (\<exists>a. gateway_act pg we a s = Some s')"

text \<open>The gateway when \<open>start\<close> has returned.\<close>

definition gateway_init ::
  "('d, 'b, 's) plugins \<Rightarrow> ('p, 'c) worker_env \<Rightarrow> ('d, 'b, 's, 'p, 'c) gateway \<Rightarrow> bool" where
  "gateway_init pg we s \<longleftrightarrow>
     (\<exists>config drivers processors publishers sources env t rt0 rt.
        GatewayRuntime_new pg config drivers processors publishers sources = Inr rt0 \<and>
        GatewayRuntime_start pg we env t rt0 = Some (None, rt) \<and> s = initial_gateway rt)"

section \<open>Invariants\<close>

definition in_progress :: "('d, 'b, 's, 'p, 'c) gateway \<Rightarrow> RawBatch list" where
  "in_progress s = (case sy_worker s of W_busy batch \<Rightarrow> [batch] | _ \<Rightarrow> [])"

abbreviation after :: "phase \<Rightarrow> ('d, 'b, 's, 'p, 'c) gateway \<Rightarrow> bool" where
  "after p s \<equiv> rank p < rank (sy_phase s)"

text \<open>Where the accepted batches are.\<close>

definition batch_inv :: "('d, 'b, 's, 'p, 'c) gateway \<Rightarrow> bool" where
  "batch_inv s \<longleftrightarrow>
     sy_accepted s = sy_processed s @ in_progress s @ bq_queue (rt_raw_queue (sy_rt s)) \<and>
     rt_delivered_events (sy_rt s) = of_nat (length (sy_processed s)) \<and>
     (\<exists>es. filter is_publish (rt_calls (sy_rt s)) = publish_calls (length (rt_event_publishers (sy_rt s))) es \<and>
        length es = length (sy_processed s)) \<and>
     bq_closed (rt_raw_queue (sy_rt s)) = after Ph_close s \<and>
     (sy_worker s = W_ended \<longrightarrow> bq_closed (rt_raw_queue (sy_rt s)) \<and> bq_queue (rt_raw_queue (sy_rt s)) = []) \<and>
     (after Ph_worker s \<longrightarrow> sy_worker s = W_ended)"

text \<open>The scheduler and the poll it is in.\<close>

definition scheduler_inv :: "('d, 'b, 's, 'p, 'c) gateway \<Rightarrow> bool" where
  "scheduler_inv s \<longleftrightarrow>
     (\<exists>e. rt_scheduler (sy_rt s) = Some e \<and> valid_tasks (se_policy e) \<and>
        (se_running e \<longrightarrow> se_joinable e) \<and> (after Ph_asked s \<longrightarrow> se_stopping e) \<and>
        (after Ph_scheduler s \<longrightarrow> \<not> se_running e) \<and> (\<not> se_running e \<longrightarrow> sy_polling s = None) \<and>
        (\<forall>now i g. sy_polling s = Some (now, i, g) \<longrightarrow> policy_select_due (se_policy e) now = Some i))"

text \<open>
  The dispatcher lives as its own step relation allows, and is stopped where \<open>stop\<close> stops it; a control in a driver
  is the operation being executed.
\<close>

definition at_device :: "('d, 'b, 's, 'p, 'c) GatewayRuntime \<Rightarrow> string \<Rightarrow> string \<Rightarrow> bool" where
  "at_device rt device gate \<longleftrightarrow> find_io_gate (rt_io_gates rt) device = Some gate \<and> device_known rt device"

definition control_inv :: "('d, 'b, 's, 'p, 'c) gateway \<Rightarrow> bool" where
  "control_inv s \<longleftrightarrow>
     (let rt = sy_rt s; d = dispatcher_of rt in
      reachable disp_init (disp_steps (resolver (rt_drivers rt))) d \<and> dd_started d \<and>
      pl_control (rt_pipeline rt) = Some (\<lambda>request. submit_control (rt_drivers rt) request None) \<and>
      (after Ph_running s \<longrightarrow> \<not> cw_accepting (rt_control rt)) \<and>
      (dd_stopping d \<longrightarrow> after Ph_scheduler s) \<and> (after Ph_dispatcher s \<longrightarrow> dd_stop_request_complete d) \<and>
      (after Ph_control_join s \<longrightarrow> dd_joined d) \<and>
      (\<forall>gate. sy_control s = Some gate \<longrightarrow> (\<exists>operation. dd_worker d = Executing operation \<and>
         at_device rt (rq_device_id (op_request operation)) gate)))"

text \<open>A gate is held exactly by the thread that is in the device's driver, so by one at most.\<close>

definition gates_held :: "string option \<Rightarrow> string option \<Rightarrow> (string \<rightharpoonup> holder) \<Rightarrow> bool" where
  "gates_held polling control gates \<longleftrightarrow>
     (\<forall>gate. gates gate = (if polling = Some gate then Some By_poll
                          else if control = Some gate then Some By_control else None)) \<and>
     (polling \<noteq> None \<longrightarrow> polling \<noteq> control)"

abbreviation polling_gate :: "('d, 'b, 's, 'p, 'c) gateway \<Rightarrow> string option" where
  "polling_gate s \<equiv> (case sy_polling s of Some (now, i, g) \<Rightarrow> g | None \<Rightarrow> None)"

definition gate_inv :: "('d, 'b, 's, 'p, 'c) gateway \<Rightarrow> bool" where
  "gate_inv s \<longleftrightarrow> gates_held (polling_gate s) (sy_control s) (sy_gates s)"

text \<open>The flags of the runtime, and what the constructor set up for every driver.\<close>

definition stage_inv :: "('d, 'b, 's, 'p, 'c) gateway \<Rightarrow> bool" where
  "stage_inv s \<longleftrightarrow>
     (let rt = sy_rt s in
      rt_started rt \<and> rt_stopping rt = (after Ph_running s \<and> sy_phase s \<noteq> Ph_stopped) \<and>
      rt_stopped rt = (sy_phase s = Ph_stopped) \<and> rt_worker rt = (\<not> after Ph_worker s) \<and>
      (\<forall>i \<in> set (rt_drivers rt). rt_driver_modes rt (di_device_id i) \<noteq> None) \<and>
      rt_io_gates rt = map di_device_id (rt_drivers rt))"

text \<open>
  Once an event has happened, others must not follow: no poll after the scheduler was joined, no control after
  the dispatcher was, neither after a driver was stopped, no publication after the worker was joined or a
  publisher stopped.
\<close>

fun silences :: "event \<Rightarrow> event \<Rightarrow> bool" where
  "silences (Ev_call C_scheduler_stop) (Ev_poll _) = True"
| "silences (Ev_call C_dispatcher_stop) (Ev_control _) = True"
| "silences (Ev_call (C_driver_stop _)) (Ev_poll _) = True"
| "silences (Ev_call (C_driver_stop _)) (Ev_control _) = True"
| "silences (Ev_call C_worker_join) (Ev_call (C_publish _ _)) = True"
| "silences (Ev_call (C_publisher_stop _)) (Ev_call (C_publish _ _)) = True"
| "silences _ _ = False"

text \<open>The phase after which an event is over.\<close>

fun last_phase :: "event \<Rightarrow> phase" where
  "last_phase (Ev_poll _) = Ph_scheduler"
| "last_phase (Ev_control _) = Ph_control_join"
| "last_phase (Ev_call (C_publish _ _)) = Ph_worker"
| "last_phase (Ev_call _) = Ph_stopped"

definition trace_inv :: "('d, 'b, 's, 'p, 'c) gateway \<Rightarrow> bool" where
  "trace_inv s \<longleftrightarrow>
     sorted_wrt (\<lambda>x y. \<not> silences x y) (sy_trace s) \<and>
     (\<forall>x \<in> set (sy_trace s). \<forall>y. silences x y \<longrightarrow> after (last_phase y) s)"

text \<open>The calls of \<open>start\<close>, and of \<open>stop\<close> up to a phase.\<close>

definition start_log :: "('d, 'b, 's, 'p, 'c) GatewayRuntime \<Rightarrow> call list" where
  "start_log rt =
     map C_publisher_start [0..<length (rt_event_publishers rt)] @ map C_driver_start [0..<length (rt_drivers rt)] @
     [C_dispatcher_start, C_worker_start] @ map C_source_start [0..<length (rt_sources rt)] @ [C_scheduler_start]"

fun leaving :: "('d, 'b, 's, 'p, 'c) GatewayRuntime \<Rightarrow> phase \<Rightarrow> call list" where
  "leaving rt Ph_begun = map C_source_request_stop (rev [0..<length (rt_sources rt)])"
| "leaving rt Ph_scheduler = [C_scheduler_stop]"
| "leaving rt Ph_control_join = [C_dispatcher_stop]"
| "leaving rt Ph_sources = map C_source_stop (rev [0..<length (rt_sources rt)])"
| "leaving rt Ph_push = stop_drivers_of Mode_Push rt"
| "leaving rt Ph_poll = stop_drivers_of Mode_Poll rt"
| "leaving rt Ph_close = [C_queue_close]"
| "leaving rt Ph_worker = [C_worker_join]"
| "leaving rt Ph_publishers = map C_publisher_stop (rev [0..<length (rt_event_publishers rt)])"
| "leaving rt _ = []"

definition stop_log :: "('d, 'b, 's, 'p, 'c) GatewayRuntime \<Rightarrow> phase \<Rightarrow> call list" where
  "stop_log rt p = concat (map (leaving rt) (filter (\<lambda>q. rank q < rank p)
     [Ph_begun, Ph_scheduler, Ph_control_join, Ph_sources, Ph_push, Ph_poll, Ph_close, Ph_worker, Ph_publishers]))"

definition log_inv :: "('d, 'b, 's, 'p, 'c) gateway \<Rightarrow> bool" where
  "log_inv s \<longleftrightarrow> filter (\<lambda>c. \<not> is_publish c) (rt_calls (sy_rt s)) = start_log (sy_rt s) @ stop_log (sy_rt s) (sy_phase s)"

definition gateway_inv :: "('d, 'b, 's, 'p, 'c) gateway \<Rightarrow> bool" where
  "gateway_inv s \<longleftrightarrow> batch_inv s \<and> scheduler_inv s \<and> control_inv s \<and> gate_inv s \<and> stage_inv s \<and> trace_inv s \<and> log_inv s"

section \<open>Effects of the actions\<close>

text \<open>What stays the same while the gateway runs.\<close>

definition wiring where
  "wiring rt = (rt_config rt, rt_drivers rt, rt_event_publishers rt, rt_sources rt, rt_driver_modes rt, rt_io_gates rt)"

lemma wiringD:
  assumes "wiring rt = wiring rt'"
  shows "rt_config rt = rt_config rt'" "rt_drivers rt = rt_drivers rt'" "rt_event_publishers rt = rt_event_publishers rt'"
    "rt_sources rt = rt_sources rt'" "rt_driver_modes rt = rt_driver_modes rt'" "rt_io_gates rt = rt_io_gates rt'"
  using assms by (simp_all add: wiring_def)

lemma observe_simps [simp]:
  "sy_rt (observe rt s) = rt" "sy_phase (observe rt s) = sy_phase s" "sy_worker (observe rt s) = sy_worker s"
  "sy_polling (observe rt s) = sy_polling s" "sy_control (observe rt s) = sy_control s"
  "sy_gates (observe rt s) = sy_gates s" "sy_processed (observe rt s) = sy_processed s"
  "sy_passed (observe rt s) = sy_passed s"
  "sy_accepted (observe rt s) = sy_accepted s @ drop (length (bq_queue (rt_raw_queue (sy_rt s)))) (bq_queue (rt_raw_queue rt))"
  "sy_trace (observe rt s) = sy_trace s @ map Ev_call (drop (length (rt_calls (sy_rt s))) (rt_calls rt))"
  by (simp_all add: observe_def)

lemma with_dispatcher_simps [simp]:
  "sy_phase (with_dispatcher d s) = sy_phase s" "sy_worker (with_dispatcher d s) = sy_worker s"
  "sy_polling (with_dispatcher d s) = sy_polling s" "sy_control (with_dispatcher d s) = sy_control s"
  "sy_gates (with_dispatcher d s) = sy_gates s" "sy_processed (with_dispatcher d s) = sy_processed s"
  "sy_accepted (with_dispatcher d s) = sy_accepted s" "sy_trace (with_dispatcher d s) = sy_trace s"
  "sy_rt (with_dispatcher d s) = with_control (\<lambda>w. w\<lparr>cw_dispatcher := d\<rparr>) (sy_rt s)"
  by (simp_all add: with_dispatcher_def)

lemma publish_fold_control:
  "rt_control (fold (publish_one pg e) xs rt) = rt_control rt \<and> rt_pipeline (fold (publish_one pg e) xs rt) = rt_pipeline rt"
proof (induction xs arbitrary: rt)
  case (Cons x xs)
  have "rt_control (publish_one pg e x rt) = rt_control rt \<and> rt_pipeline (publish_one pg e x rt) = rt_pipeline rt"
    by (cases x) (simp add: publish_one_def Let_def split: sum.splits EventPublishResult.splits)
  then show ?case using Cons by simp
qed simp

text \<open>Processing a batch reaches the dispatcher only through the control sink.\<close>

lemma process_batch_control:
  assumes "submitting_processor (we_process we)"
  shows "\<exists>now. (submission \<lparr>ctx_now_ns = now, ctx_control = pl_control (rt_pipeline rt)\<rparr>)\<^sup>*\<^sup>*
      (rt_control rt) (rt_control (process_batch pg we b rt))"
    and "pl_control (rt_pipeline (process_batch pg we b rt)) = pl_control (rt_pipeline rt)"
proof -
  let ?sq = "nz_event_sequence (rt_normalizer rt)"
  obtain e nz where n: "normalize (we_llround we) (we_received_at we ?sq) (rt_normalizer rt) b = (e, nz)" by (metis surj_pair)
  obtain e' pl w where p: "ProcessingPipeline_process (we_process we) (we_now we ?sq) (rt_pipeline rt) e (rt_control rt) = (e', pl, w)"
    by (metis prod_cases3)
  have "rt_control (process_batch pg we b rt) = w" "rt_pipeline (process_batch pg we b rt) = pl"
    by (simp_all add: process_batch_def n p Let_def publish_event_def publish_fold_control)
  moreover have "pl_control pl = pl_control (rt_pipeline rt)"
    using p by (auto simp: ProcessingPipeline_process_def Let_def split: prod.splits)
  ultimately show "\<exists>now. (submission \<lparr>ctx_now_ns = now, ctx_control = pl_control (rt_pipeline rt)\<rparr>)\<^sup>*\<^sup>*
      (rt_control rt) (rt_control (process_batch pg we b rt))"
    and "pl_control (rt_pipeline (process_batch pg we b rt)) = pl_control (rt_pipeline rt)"
    using submitting_processor.pipeline_submits [OF assms p] by auto
qed

text \<open>A whole \<open>submit\<close> is two actions of the dispatcher.\<close>

lemma decide_entered:
  "(snd (Dispatcher_submit_decide dr now request completion (d\<lparr>dd_entered := n\<rparr>)))\<lparr>dd_entered := dd_entered d\<rparr> =
     snd (Dispatcher_submit_decide dr now request completion d)"
  by (cases d) (simp add: Dispatcher_submit_decide_def Let_def split: prod.splits)

lemma submit_acts:
  "acts dr [A_enter, A_decide now request completion] d = Some (snd (Dispatcher_submit dr now request completion d))"
  using decide_entered [where d = "Dispatcher_submit_enter d" and n = "dd_entered d + 1"]
  by (simp add: Dispatcher_submit_def Dispatcher_submit_enter_def)

text \<open>What other threads see of a submission.\<close>

definition same_stage :: "'c Dispatcher \<Rightarrow> 'c Dispatcher \<Rightarrow> bool" where
  "same_stage d d' \<longleftrightarrow> dd_started d' = dd_started d \<and> dd_stopping d' = dd_stopping d \<and> dd_joined d' = dd_joined d \<and>
     dd_join_in_progress d' = dd_join_in_progress d \<and> dd_worker d' = dd_worker d \<and> dd_cancelling d' = dd_cancelling d \<and>
     dd_stop_request_complete d' = dd_stop_request_complete d"

lemma submit_same_stage:
  "same_stage d (snd (Dispatcher_submit_decide dr now request completion d))"
  "same_stage d (Dispatcher_submit_enter d)"
  "same_stage d (snd (Dispatcher_submit dr now request completion d))"
proof -
  show 1: "same_stage d (snd (Dispatcher_submit_decide dr now request completion d))" for d
    by (simp add: same_stage_def Dispatcher_submit_decide_def Let_def split: prod.splits)
  show 2: "same_stage d (Dispatcher_submit_enter d)" by (simp add: same_stage_def Dispatcher_submit_enter_def)
  show "same_stage d (snd (Dispatcher_submit dr now request completion d))"
    using 1 [of "Dispatcher_submit_enter d"] 2 by (simp add: Dispatcher_submit_def same_stage_def)
qed

lemma sink_effect:
  assumes "(submission \<lparr>ctx_now_ns = now, ctx_control = Some (\<lambda>request. submit_control drivers request None)\<rparr>)\<^sup>*\<^sup>* w w'"
    and "reachable disp_init (disp_steps (resolver drivers)) (cw_dispatcher w)"
  shows "reachable disp_init (disp_steps (resolver drivers)) (cw_dispatcher w') \<and>
    same_stage (cw_dispatcher w) (cw_dispatcher w') \<and> cw_accepting w' = cw_accepting w \<and> (\<not> cw_accepting w \<longrightarrow> w' = w)"
  using assms
proof (induction rule: rtranclp_induct)
  case base
  then show ?case by (simp add: same_stage_def)
next
  case (step x y)
  then obtain request where y: "y = snd (submit_control drivers request None x)"
    by (auto simp: submission_def ProcessingContext_submit_control_def)
  note x = step.IH [OF step.prems]
  show ?case
  proof (cases "cw_accepting x")
    case True
    let ?d = "snd (Dispatcher_submit (resolver drivers) (cw_now x) request None (cw_dispatcher x))"
    have d: "cw_dispatcher y = ?d" "cw_accepting y" using y True by (simp_all add: submit_control_def Let_def case_prod_beta)
    have "reachable disp_init (disp_steps (resolver drivers)) ?d"
      by (rule acts_reachable [OF conjunct1 [OF x] submit_acts])
    then show ?thesis
      using x True d submit_same_stage(3) [of "cw_dispatcher x" "resolver drivers" "cw_now x" request None]
      by (auto simp: same_stage_def)
  next
    case False
    then have "y = x" using y by (simp add: submit_control_def)
    then show ?thesis using x by blast
  qed
qed

lemma snd_bq_push: "snd (bq_push q b) = snd (BoundedQueue_try_push q b)"
  by (simp add: bq_push_def Let_def case_prod_beta)

lemma poll_attempt_effect:
  assumes "poll_attempt env task rt = Inr rt'"
  shows "(rt_raw_queue rt' = rt_raw_queue rt \<or> (\<exists>b. rt_raw_queue rt' = snd (bq_push (rt_raw_queue rt) b))) \<and>
    lifecycle_of rt' = lifecycle_of rt \<and> rt_calls rt' = rt_calls rt \<and> rt_control rt' = rt_control rt \<and>
    rt_pipeline rt' = rt_pipeline rt \<and> rt_delivered_events rt' = rt_delivered_events rt"
proof -
  from assms obtain g i gate locked where a: "find_group (rt_config rt) (task_group_id task) = Inr g"
    "find_driver (rt_drivers rt) (grp_device_id g) = Inr i" "find_io_gate (rt_io_gates rt) (grp_device_id g) = Some gate"
    "pe_lock env = Inr locked"
    unfolding poll_attempt_def Let_def rbind_Inr_iff by (force split: option.splits simp: rbind_Inr_iff)
  show ?thesis
  proof (cases locked)
    case False
    then have "rt' = rt\<lparr>rt_deadline_misses := rt_deadline_misses rt + 1\<rparr>"
      using assms a by (simp add: poll_attempt_def Let_def)
    then show ?thesis by (simp add: lifecycle_of_def)
  next
    case True
    then obtain b where "pe_batch env = Inr b"
      using assms a by (cases "pe_batch env") (simp_all add: poll_attempt_def Let_def)
    then have "rt_raw_queue rt' = snd (bq_push (rt_raw_queue rt) b) \<and> lifecycle_of rt' = lifecycle_of rt \<and>
        rt_calls rt' = rt_calls rt \<and> rt_control rt' = rt_control rt \<and> rt_pipeline rt' = rt_pipeline rt \<and>
        rt_delivered_events rt' = rt_delivered_events rt"
      using assms a True
      by (cases "pe_now env + ms (grp_timeout g) < pe_finished env")
         (auto simp: poll_attempt_def Let_def snd_bq_push lifecycle_of_def case_prod_beta)
    then show ?thesis by blast
  qed
qed

lemma poll_group_effect:
  assumes "poll_group env task rt = (x, rt')"
  shows "(rt_raw_queue rt' = rt_raw_queue rt \<or> (\<exists>b. rt_raw_queue rt' = snd (bq_push (rt_raw_queue rt) b))) \<and>
    lifecycle_of rt' = lifecycle_of rt \<and> rt_calls rt' = rt_calls rt \<and> rt_control rt' = rt_control rt \<and>
    rt_pipeline rt' = rt_pipeline rt \<and> rt_delivered_events rt' = rt_delivered_events rt"
  using assms poll_attempt_effect [of env task rt]
  by (auto simp: poll_group_def lifecycle_of_def split: sum.splits)

text \<open>The fields a turn of the scheduler leaves alone.\<close>

definition poll_frame where
  "poll_frame rt rt' \<longleftrightarrow>
     (rt_raw_queue rt' = rt_raw_queue rt \<or> (\<exists>b. rt_raw_queue rt' = snd (bq_push (rt_raw_queue rt) b))) \<and>
     wiring rt' = wiring rt \<and> rt_calls rt' = rt_calls rt \<and> rt_control rt' = rt_control rt \<and>
     rt_pipeline rt' = rt_pipeline rt \<and> rt_delivered_events rt' = rt_delivered_events rt \<and>
     rt_started rt' = rt_started rt \<and> rt_stopping rt' = rt_stopping rt \<and> rt_stopped rt' = rt_stopped rt \<and>
     rt_worker rt' = rt_worker rt"

lemma polled_effect:
  assumes "polled env r rt = Some rt'" and "rt_scheduler rt = Some e" and "valid_tasks (se_policy e)" and "se_running e"
  shows "poll_frame rt rt'" and "\<exists>e'. rt_scheduler rt' = Some e' \<and> valid_tasks (se_policy e') \<and>
    se_running e' \<and> se_joinable e' = se_joinable e \<and> se_stopping e' = se_stopping e"
proof -
  from assms(1,2) obtain i x rt1 e1 j where
    i: "policy_select_due (se_policy e) (rnd_now r) = Some i" and
    g: "poll_group env (se_policy e ! i) rt = (x, rt1)" and
    t: "engine_round policy_tasks policy_select_due policy_on_complete (r\<lparr>rnd_failed := (x \<noteq> None)\<rparr>)
          (e\<lparr>se_stopping := False\<rparr>) = Some (e1, j)" and
    rt': "rt' = rt1\<lparr>rt_scheduler := Some (e1\<lparr>se_stopping := se_stopping e\<rparr>)\<rparr>"
    by (auto simp: polled_def Let_def split: option.splits prod.splits)
  show "poll_frame rt rt'"
    using poll_group_effect [OF g] rt' by (auto simp: poll_frame_def wiring_def lifecycle_of_def)
  have "valid_tasks (se_policy e1)"
    using fixed.round_returns [of "e\<lparr>se_stopping := False\<rparr>" "r\<lparr>rnd_failed := (x \<noteq> None)\<rparr>"] t assms(3) by auto
  moreover have "se_running e1" "se_joinable e1 = se_joinable e"
    using t assms(4) by (auto simp: engine_round_def Let_def split: option.splits)
  ultimately show "\<exists>e'. rt_scheduler rt' = Some e' \<and> valid_tasks (se_policy e') \<and>
      se_running e' \<and> se_joinable e' = se_joinable e \<and> se_stopping e' = se_stopping e"
    using rt' by simp
qed

lemma polled_returns:
  assumes "rt_scheduler rt = Some e" and "valid_tasks (se_policy e)"
    and "policy_select_due (se_policy e) (rnd_now r) = Some i"
  shows "\<exists>rt'. polled env r rt = Some rt'"
proof -
  obtain x rt1 where g: "poll_group env (se_policy e ! i) rt = (x, rt1)" by fastforce
  show ?thesis
    using fixed.round_returns [of "e\<lparr>se_stopping := False\<rparr>" "r\<lparr>rnd_failed := (x \<noteq> None)\<rparr>"] assms g
    by (auto simp: polled_def)
qed

section \<open>The gateway after \<open>start\<close>\<close>

lemma start_running_parts:
  assumes "GatewayRuntime_start pg we env t rt0 = Some (None, rt)" and "\<not> rt_started rt0"
  shows "\<exists>cs d y. Dispatcher_start (dispatcher_of rt0) = Inr d \<and>
    SchedulerEngine_start \<lparr>se_policy = start_tasks t (gw_groups (rt_config rt0)), se_started = False,
      se_stopping = False, se_running = False, se_joinable = False, se_stats = zero_stats\<rparr> = Inr y \<and>
    rt = log_calls cs (rt0\<lparr>rt_started := True, rt_worker := True, rt_scheduler := Some y,
           rt_control := (rt_control rt0)\<lparr>cw_dispatcher := d, cw_accepting := True\<rparr>\<rparr>)"
proof -
  let ?rt = "rt0\<lparr>rt_started := True\<rparr>"
  obtain l where b: "start_body pg t rt0 (no_locals, ?rt) = (None, (l, rt))"
  proof -
    obtain x l rt1 where "start_body pg t rt0 (no_locals, ?rt) = (x, (l, rt1))" by (metis prod_cases3)
    with assms that show thesis
      by (cases x) (auto simp: GatewayRuntime_start_def no_locals_def map_option_case split: option.splits)
  qed
  from b obtain l1 rt1 l2 rt2 l3 rt3 l4 rt4 l5 rt5 where
    s: "run_each (start_publisher pg) (rt_event_publishers rt0) (no_locals, ?rt) = (None, (l1, rt1))"
      "run_each (start_driver pg) (rt_drivers rt0) (l1, rt1) = (None, (l2, rt2))"
      "start_dispatcher pg (l2, rt2) = (None, (l3, rt3))" "start_worker pg (l3, rt3) = (None, (l4, rt4))"
      "run_each (start_source pg) (rt_sources rt0) (l4, rt4) = (None, (l5, rt5))"
      "start_scheduler pg t (l5, rt5) = (None, (l, rt))"
    unfolding start_body_def andthen_def by (auto split: prod.splits option.splits)
  obtain c1 c2 c5 where c: "rt1 = log_calls c1 ?rt" "rt2 = log_calls c2 rt1" "rt5 = log_calls c5 rt4"
    using publishers.each [OF s(1)] drivers.each [OF s(2)] sources.each [OF s(5)] by auto
  obtain d where d: "Dispatcher_start (dispatcher_of rt0) = Inr d"
      "rt3 = log_calls [C_dispatcher_start] (with_control (\<lambda>w. w\<lparr>cw_dispatcher := d\<rparr>) rt2)"
    using s(3) c(1,2) by (auto simp: start_dispatcher_def log_calls_def split: sum.splits option.splits)
  have w: "rt4 = with_control (\<lambda>w. w\<lparr>cw_accepting := True\<rparr>) (log_calls [C_worker_start] (rt3\<lparr>rt_worker := True\<rparr>))"
    using s(4) by (cases rule: start_worker_cases) auto
  from s(6) obtain y where y: "rt = log_calls [C_scheduler_start] (rt5\<lparr>rt_scheduler := Some y\<rparr>)"
      "SchedulerEngine_start \<lparr>se_policy = start_tasks t (gw_groups (rt_config rt5)), se_started = False,
         se_stopping = False, se_running = False, se_joinable = False, se_stats = zero_stats\<rparr> = Inr y"
    by (cases rule: start_scheduler_cases) auto
  show ?thesis
    by (rule exI [of _ "c1 @ c2 @ [C_dispatcher_start, C_worker_start] @ c5 @ [C_scheduler_start]"],
        rule exI [of _ d], rule exI [of _ y])
       (use d(1) y(2) in \<open>simp add: c d(2) w y(1) log_calls_def with_control_def\<close>)
qed

lemma gateway_inv_init:
  assumes "gateway_init pg we s"
  shows "gateway_inv s"
proof -
  from assms obtain config drivers processors publishers sources env t rt0 rt where
    new: "GatewayRuntime_new pg config drivers processors publishers sources = Inr rt0" and
    start: "GatewayRuntime_start pg we env t rt0 = Some (None, rt)" and s: "s = initial_gateway rt"
    unfolding gateway_init_def by blast
  have con: "consistent rt0" and fr: "fresh rt0" using new_consistent [OF new] by blast+
  obtain d0 where d0: "Dispatcher_new (control_queue_capacity config) True True = Inr d0" "dispatcher_of rt0 = d0"
      "pl_control (rt_pipeline rt0) = Some (\<lambda>request. submit_control (rt_drivers rt0) request None)"
      "rt_delivered_events rt0 = 0"
    using new by (auto simp: GatewayRuntime_new_def rbind_Inr_iff set_control_sink_def)
  obtain cs d y where p: "Dispatcher_start d0 = Inr d"
      "SchedulerEngine_start \<lparr>se_policy = start_tasks t (gw_groups (rt_config rt0)), se_started = False,
        se_stopping = False, se_running = False, se_joinable = False, se_stats = zero_stats\<rparr> = Inr y"
      "rt = log_calls cs (rt0\<lparr>rt_started := True, rt_worker := True, rt_scheduler := Some y,
           rt_control := (rt_control rt0)\<lparr>cw_dispatcher := d, cw_accepting := True\<rparr>\<rparr>)"
    using start_running_parts [OF start] fr d0(2) by (auto simp: fresh_def)
  have calls: "rt_calls rt = start_log rt"
    using start_success_running [OF new, of we env t] start new_parts [OF new] p(3)
    by (auto simp: start_log_def log_calls_def)
  have valid: "valid_tasks (start_tasks t (gw_groups (rt_config rt0)))"
    using con start_tasks_intervals by (fastforce simp: valid_tasks_def consistent_def good_group_def)
  have y: "se_policy y = start_tasks t (gw_groups (rt_config rt0))" "se_running y" "se_joinable y" "\<not> se_stopping y"
    using p(2) by (auto simp: SchedulerEngine_start_def)
  have d: "dd_started d" "dd_worker d = Waiting" "\<not> dd_stopping d"
    using p(1) d0(1) by (auto simp: Dispatcher_start_def Dispatcher_new_def rbind_Inr_iff split: if_splits)
  have "disp_init d0" using d0(1) unfolding disp_init_def by blast
  then have "reachable disp_init (disp_steps (resolver (rt_drivers rt0))) d"
    using disp_step.start [OF p(1)] by (blast intro: reachable.intros)
  then have control: "control_inv s"
    using d d0(3) by (simp add: control_inv_def s initial_gateway_def p(3) log_calls_def)
  have nopub: "filter (\<lambda>c. \<not> is_publish c) (start_log rt) = start_log rt" "filter is_publish (start_log rt) = []"
    by (auto simp: start_log_def filter_empty_conv filter_id_conv)
  have f: "rt_delivered_events rt = 0" "bq_queue (rt_raw_queue rt) = []" "\<not> bq_closed (rt_raw_queue rt)"
    "rt_scheduler rt = Some y" "rt_started rt" "\<not> rt_stopping rt" "\<not> rt_stopped rt" "rt_worker rt"
    "\<forall>i \<in> set (rt_drivers rt). rt_driver_modes rt (di_device_id i) \<noteq> None"
    "rt_io_gates rt = map di_device_id (rt_drivers rt)"
    using fr con d0(4) by (simp_all add: p(3) log_calls_def fresh_def consistent_def)
  have "batch_inv s"
    using f nopub(2) by (simp add: batch_inv_def s initial_gateway_def in_progress_def calls publish_calls_def)
  moreover have "scheduler_inv s" using f(4) y valid by (simp add: scheduler_inv_def s initial_gateway_def)
  moreover have "gate_inv s" by (simp add: gate_inv_def gates_held_def s initial_gateway_def)
  moreover have "stage_inv s" using f(5-10) by (simp add: stage_inv_def s initial_gateway_def)
  moreover have "trace_inv s"
  proof -
    have "\<not> silences x y" if "x \<in> set (map Ev_call (start_log rt))" for x y
      using that by (auto simp: start_log_def)
    then show ?thesis
      by (auto simp: trace_inv_def s initial_gateway_def calls sorted_wrt_iff_nth_less)
  qed
  moreover have "log_inv s" using nopub(1) by (simp add: log_inv_def s initial_gateway_def calls stop_log_def)
  ultimately show ?thesis using control by (simp add: gateway_inv_def)
qed


section \<open>Preservation\<close>

lemmas control_act_defs = control_begin_def control_end_def control_skip_def

lemma push_queue:
  "bq_queue (snd (bq_push q b)) = bq_queue q @ (if fst (bq_push q b) then [b] else [])"
  "bq_closed (snd (bq_push q b)) = bq_closed q" "bq_closed q \<Longrightarrow> bq_queue (snd (bq_push q b)) = bq_queue q"
  using bq.push_contents [of q b] bq.push_frame [of q b] bq.push_iff [of q b] by auto

lemma batch_inv_frame:
  assumes "batch_inv s" and "sy_phase s' = sy_phase s" and "sy_worker s' = sy_worker s" and "sy_processed s' = sy_processed s"
    and "rt_calls (sy_rt s') = rt_calls (sy_rt s)" and "rt_event_publishers (sy_rt s') = rt_event_publishers (sy_rt s)"
    and "rt_delivered_events (sy_rt s') = rt_delivered_events (sy_rt s)"
    and "sy_accepted s' = sy_accepted s @ drop (length (bq_queue (rt_raw_queue (sy_rt s)))) (bq_queue (rt_raw_queue (sy_rt s')))"
    and "rt_raw_queue (sy_rt s') = rt_raw_queue (sy_rt s) \<or>
         (\<exists>b. rt_raw_queue (sy_rt s') = snd (bq_push (rt_raw_queue (sy_rt s)) b))"
  shows "batch_inv s'"
proof -
  have q: "bq_closed (rt_raw_queue (sy_rt s')) = bq_closed (rt_raw_queue (sy_rt s))"
    "\<exists>xs. bq_queue (rt_raw_queue (sy_rt s')) = bq_queue (rt_raw_queue (sy_rt s)) @ xs"
    "bq_closed (rt_raw_queue (sy_rt s)) \<Longrightarrow> bq_queue (rt_raw_queue (sy_rt s')) = bq_queue (rt_raw_queue (sy_rt s))"
    using assms(9) push_queue by (metis append_Nil2)+
  show ?thesis
    using assms(1-8) q by (auto simp: batch_inv_def in_progress_def)
qed

lemma batch_inv_stop:
  assumes "stop_act alloc_ok s = Some s'" and "batch_inv s" and "stage_inv s"
  shows "batch_inv s'"
  using assms
  by (cases "sy_phase s")
     (auto simp: stop_act_def Let_def batch_inv_def in_progress_def log_calls_def with_control_def
       mark_stopped_def BoundedQueue_close_def stop_drivers_of_def split: if_splits option.splits)

lemma scheduler_invD:
  assumes "scheduler_inv s"
  obtains e where "rt_scheduler (sy_rt s) = Some e" "valid_tasks (se_policy e)" "se_running e \<longrightarrow> se_joinable e"
    "after Ph_asked s \<longrightarrow> se_stopping e" "after Ph_scheduler s \<longrightarrow> \<not> se_running e" "\<not> se_running e \<longrightarrow> sy_polling s = None"
    "\<forall>now i g. sy_polling s = Some (now, i, g) \<longrightarrow> policy_select_due (se_policy e) now = Some i"
  using assms unfolding scheduler_inv_def by blast

text \<open>A turn of the scheduler that ran its callback, with or without reaching the driver.\<close>

fun poll_action :: "'c gateway_action \<Rightarrow> bool" where
  "poll_action (Poll_end _ _) = True"
| "poll_action (Poll_skip _ _) = True"
| "poll_action _ = False"

lemma poll_turn:
  assumes "gateway_act pg we a s = Some s'" and "poll_action a" and "scheduler_inv s"
  obtains rt e e' where "poll_frame (sy_rt s) rt"
    "rt_scheduler (sy_rt s) = Some e" "rt_scheduler rt = Some e'" "valid_tasks (se_policy e')"
    "se_running e" "se_running e'" "se_joinable e' = se_joinable e" "se_stopping e' = se_stopping e"
    "s' = (observe rt s)\<lparr>sy_polling := None,
       sy_gates := (case polling_gate s of None \<Rightarrow> sy_gates s | Some gate \<Rightarrow> (sy_gates s)(gate := None))\<rparr>"
proof -
  obtain e where e: "rt_scheduler (sy_rt s) = Some e" "valid_tasks (se_policy e)" "\<not> se_running e \<longrightarrow> sy_polling s = None"
    using assms(3) by (rule scheduler_invD)
  from assms(1,2) e obtain env r rt where rt: "polled env r (sy_rt s) = Some rt" "se_running e"
    "s' = (observe rt s)\<lparr>sy_polling := None,
       sy_gates := (case polling_gate s of None \<Rightarrow> sy_gates s | Some gate \<Rightarrow> (sy_gates s)(gate := None))\<rparr>"
    by (cases a) (auto simp: scheduler_loops_def split: option.splits if_splits)
  show thesis using that polled_effect [OF rt(1) e(1,2) rt(2)] rt e(1) by blast
qed

text \<open>Actions of the dispatcher's threads and of submitting threads change only the dispatcher and
  the bookkeeping around it.\<close>

definition control_only where
  "control_only s s' \<longleftrightarrow>
     sy_rt s' = (sy_rt s)\<lparr>rt_control := rt_control (sy_rt s')\<rparr> \<and>
     cw_accepting (rt_control (sy_rt s')) = cw_accepting (rt_control (sy_rt s)) \<and>
     sy_phase s' = sy_phase s \<and> sy_worker s' = sy_worker s \<and> sy_polling s' = sy_polling s \<and>
     sy_accepted s' = sy_accepted s \<and> sy_processed s' = sy_processed s"

fun control_action :: "'c gateway_action \<Rightarrow> bool" where
  "control_action (Clock _) = True"
| "control_action Source_check = True"
| "control_action Source_enter = True"
| "control_action (Source_decide _ _ _) = True"
| "control_action (Control_next _) = True"
| "control_action Control_begin = True"
| "control_action (Control_end _) = True"
| "control_action (Control_skip _) = True"
| "control_action _ = False"

lemma control_only_act:
  assumes "gateway_act pg we a s = Some s'" and "control_action a"
  shows "control_only s s'"
  using assms
  by (cases a)
     (auto simp: control_only_def control_act_defs with_dispatcher_def with_control_def Let_def
       split: if_splits option.splits worker.splits prod.splits)

lemma act_cases:
  assumes "gateway_act pg we a s = Some s'" and "scheduler_inv s"
  obtains (control) w where "control_action a" "control_only s s'" "sy_rt s' = (sy_rt s)\<lparr>rt_control := w\<rparr>"
  | (poll) rt e e' where "poll_action a" "poll_frame (sy_rt s) rt"
      "rt_scheduler (sy_rt s) = Some e" "rt_scheduler rt = Some e'" "valid_tasks (se_policy e')"
      "se_running e" "se_running e'" "se_joinable e' = se_joinable e" "se_stopping e' = se_stopping e"
      "s' = (observe rt s)\<lparr>sy_polling := None,
         sy_gates := (case polling_gate s of None \<Rightarrow> sy_gates s | Some gate \<Rightarrow> (sy_gates s)(gate := None))\<rparr>"
  | (push) batch where "s' = observe ((sy_rt s)\<lparr>rt_raw_queue := snd (bq_push (rt_raw_queue (sy_rt s)) batch)\<rparr>) s" "a = Driver_push batch"
  | (poll_select) e now i where "a = Poll_select now" "rt_scheduler (sy_rt s) = Some e" "se_running e" "\<not> se_stopping e"
      "policy_select_due (se_policy e) now = Some i" "sy_polling s = None" "s' = s\<lparr>sy_polling := Some (now, i, None)\<rparr>"
  | (poll_begin) now i gate where "a = Poll_begin" "sy_polling s = Some (now, i, None)" "sy_gates s gate = None"
      "s' = s\<lparr>sy_polling := Some (now, i, Some gate), sy_gates := (sy_gates s)(gate \<mapsto> By_poll), sy_trace := sy_trace s @ [Ev_poll gate]\<rparr>"
  | (exit) e where "a = Scheduler_exit" "rt_scheduler (sy_rt s) = Some e" "sy_polling s = None"
      "s' = s\<lparr>sy_rt := (sy_rt s)\<lparr>rt_scheduler := Some (e\<lparr>se_running := False\<rparr>)\<rparr>\<rparr>"
  | (pop) x q where "sy_worker s = W_waiting" "BoundedQueue_wait_pop (rt_raw_queue (sy_rt s)) = Some (x, q)"
      "s' = s\<lparr>sy_rt := (sy_rt s)\<lparr>rt_raw_queue := q\<rparr>, sy_worker := (case x of None \<Rightarrow> W_ended | Some batch \<Rightarrow> W_busy batch)\<rparr>" "a = Worker_pop"
  | (process) batch where "sy_worker s = W_busy batch"
      "s' = (observe (process_batch pg we batch (sy_rt s)) s)\<lparr>sy_worker := W_waiting, sy_processed := sy_processed s @ [batch]\<rparr>" "a = Worker_process"
  | (stop) alloc_ok where "a = Stop alloc_ok" "stop_act alloc_ok s = Some s'"
proof -
  consider (c) "control_action a" | (p) "poll_action a" | (other) "\<not> control_action a" "\<not> poll_action a" by blast
  then show thesis
  proof cases
    case c
    then show thesis using control [OF c control_only_act [OF assms(1) c]] control_only_act [OF assms(1) c]
      by (auto simp: control_only_def)
  next
    case p
    then show thesis by (rule poll_turn [OF assms(1) _ assms(2)]) (rule poll [OF p])
  next
    case other
    show thesis
    proof (cases a)
      case (Driver_push batch)
      then show thesis using assms(1) push [of batch] by (simp add: snd_bq_push)
    next
      case (Poll_select now)
      with assms(1) poll_select show thesis
        by (auto simp: scheduler_loops_def split: if_splits option.splits)
    next
      case Poll_begin
      with assms(1) poll_begin show thesis by (auto split: if_splits option.splits)
    next
      case Scheduler_exit
      with assms(1) exit show thesis by (auto split: if_splits option.splits)
    next
      case Worker_pop
      with assms(1) pop show thesis by (auto split: if_splits option.splits)
    next
      case Worker_process
      with assms(1) process show thesis by (auto split: batch_worker.splits)
    next
      case (Stop alloc_ok)
      with assms(1) stop show thesis by simp
    qed (use other in simp_all)
  qed
qed

lemma batch_inv_process:
  assumes "sy_worker s = W_busy batch" and b: "batch_inv s"
  shows "batch_inv ((observe (process_batch pg we batch (sy_rt s)) s)\<lparr>sy_worker := W_waiting, sy_processed := sy_processed s @ [batch]\<rparr>)"
    (is "batch_inv ?s")
proof -
  obtain e where e: "rt_calls (process_batch pg we batch (sy_rt s)) =
      rt_calls (sy_rt s) @ publish_calls (length (rt_event_publishers (sy_rt s))) [e]"
    "lifecycle_of (process_batch pg we batch (sy_rt s)) = lifecycle_of (sy_rt s)"
    "rt_raw_queue (process_batch pg we batch (sy_rt s)) = rt_raw_queue (sy_rt s)"
    "rt_delivered_events (process_batch pg we batch (sy_rt s)) = rt_delivered_events (sy_rt s) + 1"
    using process_batch_effect by blast
  obtain es where es: "filter is_publish (rt_calls (sy_rt s)) = publish_calls (length (rt_event_publishers (sy_rt s))) es"
    "length es = length (sy_processed s)"
    using b by (auto simp: batch_inv_def)
  have "filter is_publish (publish_calls n [e]) = publish_calls n [e]" for n
    using publish_calls_publish by (simp add: filter_id_conv)
  then have "filter is_publish (rt_calls (sy_rt ?s)) = publish_calls (length (rt_event_publishers (sy_rt ?s))) (es @ [e])"
    using e(1) es(1) lifecycle_publishers [OF e(2)] by (simp add: publish_calls_def)
  moreover have "length (es @ [e]) = length (sy_processed ?s)" using es(2) by simp
  ultimately have "\<exists>es. filter is_publish (rt_calls (sy_rt ?s)) = publish_calls (length (rt_event_publishers (sy_rt ?s))) es \<and>
      length es = length (sy_processed ?s)" by blast
  then show ?thesis using assms e(3,4) by (simp add: batch_inv_def in_progress_def algebra_simps)
qed

lemma batch_inv_step:
  assumes "gateway_act pg we a s = Some s'" and "scheduler_inv s" and "batch_inv s" and "stage_inv s"
  shows "batch_inv s'"
  using assms(1,2)
proof (cases rule: act_cases)
  case (pop x q)
  then show ?thesis
    using assms(3)
    by (cases "rt_raw_queue (sy_rt s)" rule: bq.pop_cases) (auto simp: batch_inv_def in_progress_def)
next
  case (process batch)
  then show ?thesis using assms(3) by (simp add: batch_inv_process)
next
  case (stop alloc_ok)
  then show ?thesis using batch_inv_stop assms(3,4) by blast
next
  case (push batch)
  then show ?thesis using batch_inv_frame [OF assms(3), of s'] by auto
next
  case (poll rt e e')
  then show ?thesis by (intro batch_inv_frame [OF assms(3)]) (simp_all add: poll_frame_def wiring_def)
qed (intro batch_inv_frame [OF assms(3)]; simp add: control_only_def)+

lemma scheduler_inv_frame:
  assumes "scheduler_inv s" and "rt_scheduler (sy_rt s') = rt_scheduler (sy_rt s)" and "sy_polling s' = sy_polling s"
    and "sy_phase s' = sy_phase s"
  shows "scheduler_inv s'"
  using assms by (simp add: scheduler_inv_def)

lemma scheduler_inv_stop:
  assumes "stop_act alloc_ok s = Some s'" and "scheduler_inv s"
  shows "scheduler_inv s'"
proof -
  obtain e where e: "rt_scheduler (sy_rt s) = Some e" "valid_tasks (se_policy e)" "se_running e \<longrightarrow> se_joinable e"
    "after Ph_asked s \<longrightarrow> se_stopping e" "after Ph_scheduler s \<longrightarrow> \<not> se_running e" "\<not> se_running e \<longrightarrow> sy_polling s = None"
    "\<forall>now i g. sy_polling s = Some (now, i, g) \<longrightarrow> policy_select_due (se_policy e) now = Some i"
    using assms(2) by (rule scheduler_invD)
  show ?thesis
    using assms(1) e
    by (cases "sy_phase s")
       (auto simp: stop_act_def Let_def scheduler_inv_def log_calls_def with_control_def mark_stopped_def
         SchedulerEngine_request_stop_def SchedulerEngine_join_def split: if_splits option.splits)
qed

lemma scheduler_inv_step:
  assumes "gateway_act pg we a s = Some s'" and "scheduler_inv s"
  shows "scheduler_inv s'"
  using assms
proof (cases rule: act_cases)
  case (poll rt e e')
  then show ?thesis using assms(2) by (auto simp: scheduler_inv_def)
next
  case (poll_select e now i)
  then show ?thesis using assms(2) by (auto simp: scheduler_inv_def)
next
  case (poll_begin now i gate)
  then show ?thesis using assms(2) by (auto simp: scheduler_inv_def)
next
  case (process batch)
  then show ?thesis
    using process_batch_effect [of pg we batch "sy_rt s"] by (auto intro!: scheduler_inv_frame [OF assms(2)] simp: lifecycle_of_def)
next
  case (exit e)
  then show ?thesis using assms(2) by (auto simp: scheduler_inv_def)
next
  case (stop alloc_ok)
  then show ?thesis using assms(2) scheduler_inv_stop by blast
qed (use scheduler_inv_frame [OF assms(2), of s'] in \<open>simp_all add: control_only_def\<close>)

lemma stage_inv_frame:
  assumes "stage_inv s" and "sy_phase s' = sy_phase s" and "lifecycle_of (sy_rt s') = lifecycle_of (sy_rt s)"
  shows "stage_inv s'"
  using assms by (simp add: stage_inv_def lifecycle_of_def Let_def)

lemma gate_inv_frame:
  assumes "gate_inv s" and "sy_polling s' = sy_polling s" and "sy_gates s' = sy_gates s" and "sy_control s' = sy_control s"
  shows "gate_inv s'"
  using assms by (simp add: gate_inv_def)

lemma stage_inv_stop:
  assumes "stop_act alloc_ok s = Some s'" and "stage_inv s"
  shows "stage_inv s'"
  using assms
  by (cases "sy_phase s")
     (auto simp: stop_act_def Let_def stage_inv_def log_calls_def with_control_def mark_stopped_def split: if_splits option.splits)

lemma stage_inv_step:
  assumes "gateway_act pg we a s = Some s'" and "scheduler_inv s" and "stage_inv s"
  shows "stage_inv s'"
  using assms(1,2)
proof (cases rule: act_cases)
  case (process batch)
  then show ?thesis
    using process_batch_effect [of pg we batch "sy_rt s"] by (auto intro!: stage_inv_frame [OF assms(3)])
next
  case (stop alloc_ok)
  then show ?thesis using stage_inv_stop assms(3) by blast
qed (use assms(3) in \<open>simp_all add: stage_inv_def control_only_def poll_frame_def wiring_def Let_def\<close>)

text \<open>Every known device has a gate.\<close>

lemma known_device_gate:
  assumes "rt_io_gates rt = map di_device_id (rt_drivers rt)" and "device_known rt device"
  shows "find_io_gate (rt_io_gates rt) device = Some device"
proof -
  have "find_driver_ptr drivers device \<noteq> None \<Longrightarrow> find_io_gate (map di_device_id drivers) device = Some device"
    for drivers :: "'a DriverInstance list"
    by (induction drivers) (auto split: if_splits)
  then show ?thesis using assms by (simp add: device_known_def)
qed

lemma gates_held_moves:
  "gates_held None c g \<Longrightarrow> g x = None \<Longrightarrow> gates_held (Some x) c (g(x \<mapsto> By_poll))"
  "gates_held (Some x) c g \<Longrightarrow> gates_held None c (g(x := None))"
  "gates_held p None g \<Longrightarrow> g x = None \<Longrightarrow> gates_held p (Some x) (g(x \<mapsto> By_control))"
  "gates_held p (Some x) g \<Longrightarrow> gates_held p None (g(x := None))"
  by (auto simp: gates_held_def split: if_splits)

lemma gate_inv_control:
  assumes "gateway_act pg we a s = Some s'" and "control_action a" and "gate_inv s"
  shows "gate_inv s'"
  using assms
  by (cases a) (auto simp: gate_inv_def control_act_defs Let_def gates_held_moves
      split: if_splits option.splits worker.splits)

lemma gate_inv_step:
  assumes "gateway_act pg we a s = Some s'" and "scheduler_inv s" and "gate_inv s"
  shows "gate_inv s'"
  using assms(1,2)
proof (cases rule: act_cases)
  case control
  then show ?thesis using gate_inv_control assms(1,3) by blast
next
  case (poll rt e e')
  then show ?thesis using assms(3) by (cases "polling_gate s") (auto simp: gate_inv_def gates_held_moves)
next
  case (poll_select e now i)
  then show ?thesis using assms(3) by (simp add: gate_inv_def)
next
  case (poll_begin now i gate)
  then show ?thesis using assms(3) by (simp add: gate_inv_def gates_held_moves)
next
  case (stop alloc_ok)
  then have "sy_polling s' = sy_polling s" "sy_gates s' = sy_gates s" "sy_control s' = sy_control s"
    by (cases "sy_phase s"; auto simp: stop_act_def Let_def split: if_splits option.splits)+
  then show ?thesis by (rule gate_inv_frame [OF assms(3)])
qed (use assms(3) in \<open>simp_all add: gate_inv_def\<close>)

text \<open>A step of \<open>stop\<close> stays in its phase or makes the calls of leaving it.\<close>

lemma stop_act_calls:
  assumes "stop_act alloc_ok s = Some s'" and "rt_scheduler (sy_rt s) = Some e"
  shows "wiring (sy_rt s') = wiring (sy_rt s) \<and> sy_worker s' = sy_worker s \<and>
    sy_trace s' = sy_trace s @ map Ev_call (drop (length (rt_calls (sy_rt s))) (rt_calls (sy_rt s'))) \<and>
    (sy_phase s' = sy_phase s \<and> rt_calls (sy_rt s') = rt_calls (sy_rt s) \<or>
     rank (sy_phase s') = Suc (rank (sy_phase s)) \<and>
       rt_calls (sy_rt s') = rt_calls (sy_rt s) @ leaving (sy_rt s) (sy_phase s))"
  using assms
  by (cases "sy_phase s")
     (auto simp: stop_act_def Let_def wiring_def log_calls_def with_control_def mark_stopped_def split: if_splits option.splits)

lemma stop_log_next: "rank q = Suc (rank p) \<Longrightarrow> stop_log rt q = stop_log rt p @ leaving rt p"
  by (cases p; cases q) (simp_all add: stop_log_def)

lemma leaving_not_publish: "c \<in> set (leaving rt p) \<Longrightarrow> \<not> is_publish c"
  by (cases p) (auto simp: stop_drivers_of_def)

lemma wiring_log:
  assumes "wiring rt' = wiring rt"
  shows "leaving rt' p = leaving rt p" and "start_log rt' = start_log rt" and "stop_log rt' p = stop_log rt p"
proof -
  note w = wiringD [OF assms]
  show l: "leaving rt' p = leaving rt p" for p by (cases p) (simp_all add: w stop_drivers_of_def)
  show "start_log rt' = start_log rt" by (simp add: start_log_def w)
  have "leaving rt' = leaving rt" using l by blast
  then show "stop_log rt' p = stop_log rt p" by (simp only: stop_log_def)
qed

lemma log_inv_frame:
  assumes "log_inv s" and "sy_phase s' = sy_phase s" and "wiring (sy_rt s') = wiring (sy_rt s)"
    and "filter (\<lambda>c. \<not> is_publish c) (rt_calls (sy_rt s')) = filter (\<lambda>c. \<not> is_publish c) (rt_calls (sy_rt s))"
  shows "log_inv s'"
  using assms wiring_log [OF assms(3)] by (simp add: log_inv_def)

lemma log_inv_stop:
  assumes "stop_act alloc_ok s = Some s'" and "scheduler_inv s" and "log_inv s"
  shows "log_inv s'"
proof -
  obtain e where "rt_scheduler (sy_rt s) = Some e" using assms(2) by (rule scheduler_invD)
  note c = stop_act_calls [OF assms(1) this]
  have "filter (\<lambda>c. \<not> is_publish c) (leaving (sy_rt s) p) = leaving (sy_rt s) p" for p
    using leaving_not_publish by (auto simp: filter_id_conv)
  moreover have "start_log (sy_rt s') = start_log (sy_rt s)" and "stop_log (sy_rt s') p = stop_log (sy_rt s) p" for p
    using c wiring_log by blast+
  ultimately show ?thesis
    using c assms(3) stop_log_next [of "sy_phase s'" "sy_phase s" "sy_rt s"] unfolding log_inv_def
    by (elim conjE disjE) simp_all
qed

text \<open>Apart from \<open>stop\<close> and the worker, no action logs a call; none but \<open>stop\<close> changes the wiring or the phase.\<close>

lemma other_act_frame:
  assumes "gateway_act pg we a s = Some s'" and "scheduler_inv s" and "\<forall>alloc_ok. a \<noteq> Stop alloc_ok"
  shows "sy_phase s' = sy_phase s" and "wiring (sy_rt s') = wiring (sy_rt s)"
    and "\<exists>es. rt_calls (sy_rt s') = rt_calls (sy_rt s) @ publish_calls (length (rt_event_publishers (sy_rt s))) es \<and>
      (es \<noteq> [] \<longrightarrow> (\<exists>batch. sy_worker s = W_busy batch))"
proof -
  have none: "\<exists>es. publish_calls n es = [] \<and> (es \<noteq> [] \<longrightarrow> P)" "publish_calls n [] = []" for n and P :: bool
    by (rule exI [of _ "[]"], simp_all add: publish_calls_def)
  have "sy_phase s' = sy_phase s \<and> wiring (sy_rt s') = wiring (sy_rt s) \<and>
    (\<exists>es. rt_calls (sy_rt s') = rt_calls (sy_rt s) @ publish_calls (length (rt_event_publishers (sy_rt s))) es \<and>
      (es \<noteq> [] \<longrightarrow> (\<exists>batch. sy_worker s = W_busy batch)))"
    using assms(1,2)
  proof (cases rule: act_cases)
    case (process batch)
    obtain e where "rt_calls (process_batch pg we batch (sy_rt s)) =
        rt_calls (sy_rt s) @ publish_calls (length (rt_event_publishers (sy_rt s))) [e]"
      "lifecycle_of (process_batch pg we batch (sy_rt s)) = lifecycle_of (sy_rt s)"
      using process_batch_effect by blast
    then show ?thesis using process by (auto simp: lifecycle_of_def wiring_def)
  next
    case (stop alloc_ok)
    then show ?thesis using assms(3) by blast
  next
    case (control w)
    then show ?thesis using none by (simp add: control_only_def wiring_def)
  qed (use none in \<open>simp_all add: poll_frame_def wiring_def\<close>)
  then show "sy_phase s' = sy_phase s" and "wiring (sy_rt s') = wiring (sy_rt s)"
    and "\<exists>es. rt_calls (sy_rt s') = rt_calls (sy_rt s) @ publish_calls (length (rt_event_publishers (sy_rt s))) es \<and>
      (es \<noteq> [] \<longrightarrow> (\<exists>batch. sy_worker s = W_busy batch))" by blast+
qed

lemma log_inv_step:
  assumes "gateway_act pg we a s = Some s'" and "scheduler_inv s" and "log_inv s"
  shows "log_inv s'"
proof (cases "\<exists>alloc_ok. a = Stop alloc_ok")
  case True
  then show ?thesis using assms log_inv_stop by auto
next
  case False
  then show ?thesis
    using other_act_frame [OF assms(1,2)] by (auto intro!: log_inv_frame [OF assms(3)])
qed

lemma trace_inv_append:
  assumes "trace_inv s" and "sy_trace s' = sy_trace s @ ys" and "rank (sy_phase s) \<le> rank (sy_phase s')"
    and "\<forall>y \<in> set ys. \<not> after (last_phase y) s" and "sorted_wrt (\<lambda>x y. \<not> silences x y) ys"
    and "\<forall>x \<in> set ys. \<forall>y. silences x y \<longrightarrow> after (last_phase y) s'"
  shows "trace_inv s'"
  using assms unfolding trace_inv_def by (fastforce simp: sorted_wrt_append intro: less_le_trans)

lemma publish_events:
  assumes "c \<in> set (publish_calls n es)"
  shows "\<not> silences (Ev_call c) y" and "last_phase (Ev_call c) = Ph_worker"
  using assms by (auto simp: publish_calls_def)

lemma leaving_events:
  assumes "c \<in> set (leaving rt p)"
  shows "last_phase (Ev_call c) = Ph_stopped" and "silences (Ev_call c) y \<Longrightarrow> rank (last_phase y) \<le> rank p"
    and "\<not> silences x (Ev_call c)"
proof -
  show "last_phase (Ev_call c) = Ph_stopped" using assms by (cases p) (auto simp: stop_drivers_of_def)
  show "silences (Ev_call c) y \<Longrightarrow> rank (last_phase y) \<le> rank p"
    using assms by (cases p; cases y) (auto simp: stop_drivers_of_def elim: silences.elims)
  show "\<not> silences x (Ev_call c)"
    using assms by (cases p) (auto simp: stop_drivers_of_def elim: silences.elims)
qed

lemma sorted_events:
  "(\<And>x y. x \<in> set xs \<Longrightarrow> y \<in> set xs \<Longrightarrow> \<not> silences x y) \<Longrightarrow> sorted_wrt (\<lambda>x y. \<not> silences x y) xs"
  by (induction xs) auto

lemma trace_inv_stop:
  assumes "stop_act alloc_ok s = Some s'" and "scheduler_inv s" and "trace_inv s"
  shows "trace_inv s'"
proof -
  obtain e where "rt_scheduler (sy_rt s) = Some e" using assms(2) by (rule scheduler_invD)
  note c = stop_act_calls [OF assms(1) this]
  then consider (same) "sy_phase s' = sy_phase s" "sy_trace s' = sy_trace s"
    | (left) "rank (sy_phase s') = Suc (rank (sy_phase s))" "sy_trace s' = sy_trace s @ map Ev_call (leaving (sy_rt s) (sy_phase s))"
    by auto
  then show ?thesis
  proof cases
    case same
    then show ?thesis using assms(3) by (simp add: trace_inv_def)
  next
    case left
    have "rank (sy_phase s) \<le> rank Ph_stopped" by (cases "sy_phase s") simp_all
    with left leaving_events show ?thesis
      by (intro trace_inv_append [OF assms(3) left(2)] sorted_events) (fastforce simp: le_imp_less_Suc)+
  qed
qed

lemma joined_worker:
  assumes "control_inv s" and "after Ph_control_join s"
  shows "dd_worker (dispatcher_of (sy_rt s)) = Exited"
proof -
  have "reachable disp_init (disp_steps (resolver (rt_drivers (sy_rt s)))) (dispatcher_of (sy_rt s))"
    "dd_joined (dispatcher_of (sy_rt s))"
    using assms by (simp_all add: control_inv_def Let_def)
  then show ?thesis using dispatcher.reachable_inv by (auto simp: disp_inv_def life_inv_def)
qed

lemma trace_inv_control:
  assumes "gateway_act pg we a s = Some s'" and "control_action a" and "trace_inv s" and "control_inv s"
  shows "trace_inv s'"
proof (cases "a = Control_begin")
  case True
  then obtain operation gate where b: "dd_worker (dispatcher_of (sy_rt s)) = Executing operation"
    "sy_trace s' = sy_trace s @ [Ev_control gate]" "sy_phase s' = sy_phase s"
    using assms(1) by (auto simp: control_begin_def Let_def split: worker.splits option.splits if_splits)
  have "\<not> after Ph_control_join s" using joined_worker [OF assms(4)] b(1) by auto
  then show ?thesis using b(3) by (intro trace_inv_append [OF assms(3) b(2)]) auto
next
  case False
  then have "sy_trace s' = sy_trace s" "sy_phase s' = sy_phase s"
    using assms(1,2)
    by (cases a; auto simp: control_act_defs Let_def split: worker.splits option.splits if_splits)+
  then show ?thesis using assms(3) by (simp add: trace_inv_def)
qed

lemma trace_inv_step:
  assumes "gateway_act pg we a s = Some s'" and "gateway_inv s"
  shows "trace_inv s'"
proof -
  have t: "trace_inv s" and sc: "scheduler_inv s" and b: "batch_inv s" using assms(2) by (simp_all add: gateway_inv_def)
  have more: "trace_inv s'" if "sy_trace s' = sy_trace s @ [v]" "\<not> after (last_phase v) s" "sy_phase s' = sy_phase s"
    "\<And>y. \<not> silences v y" for v
    using that by (intro trace_inv_append [OF t that(1)]) auto
  have same: "trace_inv s'" if "sy_trace s' = sy_trace s" "sy_phase s' = sy_phase s"
    using that t by (simp add: trace_inv_def)
  from assms(1) sc show ?thesis
  proof (cases rule: act_cases)
    case (control w)
    then show ?thesis using trace_inv_control [OF assms(1)] t assms(2) by (simp add: gateway_inv_def)
  next
    case (poll_begin now i gate)
    then show ?thesis using sc by (intro more [of "Ev_poll gate"]) (auto simp: scheduler_inv_def)
  next
    case (process batch)
    then obtain e where e: "sy_trace s' = sy_trace s @ map Ev_call (publish_calls (length (rt_event_publishers (sy_rt s))) [e])"
      using process_batch_effect [of pg we batch "sy_rt s"] by auto
    have "\<not> after Ph_worker s" using b process(1) by (auto simp: batch_inv_def)
    then show ?thesis
      using process(2) publish_events by (intro trace_inv_append [OF t e] sorted_events) auto
  next
    case (stop alloc_ok)
    then show ?thesis using trace_inv_stop sc t by blast
  qed (use same in \<open>simp_all add: poll_frame_def\<close>)
qed

text \<open>The dispatcher under its own actions.\<close>

lemma act_reachable:
  "reachable disp_init (disp_steps dr) d \<Longrightarrow> act dr a d = Some d' \<Longrightarrow> reachable disp_init (disp_steps dr) d'"
  using act_step by (blast intro: reachable.step)

lemma act_enter_stage: "act dr A_enter d = Some d' \<Longrightarrow> same_stage d d'"
  by (auto simp: same_stage_def Dispatcher_submit_enter_def)

lemma act_decide_stage: "act dr (A_decide now request completion) d = Some d' \<Longrightarrow> same_stage d d'"
proof -
  assume a: "act dr (A_decide now request completion) d = Some d'"
  have "d' = (snd (Dispatcher_submit_decide dr now request completion d))\<lparr>dd_entered := dd_entered d - 1\<rparr>"
    using a by (simp add: case_prod_beta split: if_splits)
  then show ?thesis using submit_same_stage(1) [of d dr now request completion] by (simp add: same_stage_def)
qed

lemma execute_stop_complete: "dd_stop_request_complete (Dispatcher_execute env v d) = dd_stop_request_complete d"
  using execute_effect [of env v d] by auto

lemma act_worker_stage:
  assumes "act dr (A_worker env) d = Some d'"
  shows "dd_started d' = dd_started d" "dd_stopping d' = dd_stopping d" "dd_joined d' = dd_joined d"
    "dd_stop_request_complete d' = dd_stop_request_complete d" "dd_join_in_progress d' = dd_join_in_progress d"
  using assms by (auto simp: execute_stop_complete split: worker.splits option.splits prod.splits)

lemma act_stop_stage:
  assumes "act dr b d = Some d'" and "b \<in> {A_stop_begin alloc_ok, A_stop, A_join}"
  shows "dd_started d' = dd_started d" "dd_worker d' = dd_worker d"
    "dd_stop_request_complete d \<Longrightarrow> dd_stop_request_complete d'" "dd_joined d \<Longrightarrow> dd_joined d'"
  using assms
  by (auto simp: Dispatcher_request_stop_begin_def Dispatcher_complete_def Let_def case_prod_beta
      split: if_splits option.splits list.splits worker.splits)

lemma at_device_frame:
  "rt_drivers rt' = rt_drivers rt \<Longrightarrow> rt_io_gates rt' = rt_io_gates rt \<Longrightarrow> at_device rt' = at_device rt"
  by (intro ext) (simp add: at_device_def device_known_def)

lemma control_inv_disp:
  assumes "control_inv s" and "act (resolver (rt_drivers (sy_rt s))) b (dispatcher_of (sy_rt s)) = Some d"
    and "sy_rt s' = with_control (\<lambda>w. w\<lparr>cw_dispatcher := d\<rparr>) (sy_rt s)" and "sy_phase s' = sy_phase s"
    and "dd_started d" and "dd_stopping d \<longrightarrow> after Ph_scheduler s"
    and "after Ph_dispatcher s \<longrightarrow> dd_stop_request_complete d" and "after Ph_control_join s \<longrightarrow> dd_joined d"
    and "\<forall>gate. sy_control s' = Some gate \<longrightarrow> (\<exists>operation. dd_worker d = Executing operation \<and>
      at_device (sy_rt s) (rq_device_id (op_request operation)) gate)"
  shows "control_inv s'"
proof -
  have rt: "dispatcher_of (sy_rt s') = d" "rt_drivers (sy_rt s') = rt_drivers (sy_rt s)"
    "rt_pipeline (sy_rt s') = rt_pipeline (sy_rt s)" "cw_accepting (rt_control (sy_rt s')) = cw_accepting (rt_control (sy_rt s))"
    by (simp_all add: assms(3) with_control_def)
  have dev: "at_device (sy_rt s') = at_device (sy_rt s)"
    by (rule at_device_frame) (simp_all add: assms(3) with_control_def)
  have i: "reachable disp_init (disp_steps (resolver (rt_drivers (sy_rt s)))) (dispatcher_of (sy_rt s))"
    "pl_control (rt_pipeline (sy_rt s)) = Some (\<lambda>request. submit_control (rt_drivers (sy_rt s)) request None)"
    "after Ph_running s \<longrightarrow> \<not> cw_accepting (rt_control (sy_rt s))"
    using assms(1) by (simp_all add: control_inv_def Let_def)
  show ?thesis
    unfolding control_inv_def Let_def rt dev assms(4)
    using act_reachable [OF i(1) assms(2)] i(2,3) assms(5-9) by (intro conjI)
qed

lemma control_inv_clock:
  "control_inv s \<Longrightarrow> control_inv (s\<lparr>sy_rt := with_control (\<lambda>w. w\<lparr>cw_now := t\<rparr>) (sy_rt s)\<rparr>)"
  unfolding control_inv_def Let_def by (simp add: with_control_def at_device_def device_known_def)

lemma control_inv_begin:
  assumes "control_begin s = Some s'" and "control_inv s"
  shows "control_inv s'"
proof -
  obtain operation gate where "dd_worker (dispatcher_of (sy_rt s)) = Executing operation" "sy_rt s' = sy_rt s" "sy_phase s' = sy_phase s"
    "sy_control s' = Some gate" "at_device (sy_rt s) (rq_device_id (op_request operation)) gate"
    using assms(1) by (auto simp: control_begin_def Let_def at_device_def split: worker.splits option.splits if_splits)
  then show ?thesis using assms(2) unfolding control_inv_def Let_def by simp
qed

lemma control_inv_control:
  assumes "gateway_act pg we a s = Some s'" and "control_action a" and "control_inv s"
  shows "control_inv s'"
proof -
  let ?d = "dispatcher_of (sy_rt s)" and ?dr = "resolver (rt_drivers (sy_rt s))"
  have i: "dd_started ?d" "dd_stopping ?d \<longrightarrow> after Ph_scheduler s" "after Ph_dispatcher s \<longrightarrow> dd_stop_request_complete ?d"
    "after Ph_control_join s \<longrightarrow> dd_joined ?d"
    "\<forall>gate. sy_control s = Some gate \<longrightarrow> (\<exists>operation. dd_worker ?d = Executing operation \<and>
       at_device (sy_rt s) (rq_device_id (op_request operation)) gate)"
    using assms(3) by (simp_all add: control_inv_def Let_def)
  have worker: "control_inv s'" if "act ?dr (A_worker env) ?d = Some d"
    "sy_rt s' = with_control (\<lambda>w. w\<lparr>cw_dispatcher := d\<rparr>) (sy_rt s)" "sy_phase s' = sy_phase s" "sy_control s' = None" for env d
    by (rule control_inv_disp [OF assms(3) that(1,2,3)]) (use act_worker_stage [OF that(1)] i(1-4) that(4) in simp_all)
  show ?thesis
  proof (cases a)
    case (Clock t)
    then show ?thesis using assms(1) control_inv_clock [OF assms(3)] by auto
  next
    case Source_check
    then have "s' = s\<lparr>sy_passed := sy_passed s + 1\<rparr>" using assms(1) by (simp split: if_splits)
    then show ?thesis using assms(3) unfolding control_inv_def Let_def by simp
  next
    case Source_enter
    then obtain d where d: "act ?dr A_enter ?d = Some d" "s' = (with_dispatcher d s)\<lparr>sy_passed := sy_passed s - 1\<rparr>"
      using assms(1) by (simp split: if_splits del: act.simps) blast
    then show ?thesis
      using act_enter_stage [OF d(1)] i by (intro control_inv_disp [OF assms(3) d(1)]) (simp_all add: same_stage_def with_dispatcher_def)
  next
    case (Source_decide now request completion)
    then obtain d where d: "act ?dr (A_decide now request completion) ?d = Some d" "s' = with_dispatcher d s"
      using assms(1) by (auto simp del: act.simps)
    then show ?thesis
      using act_decide_stage [OF d(1)] i by (intro control_inv_disp [OF assms(3) d(1)]) (simp_all add: same_stage_def with_dispatcher_def)
  next
    case (Control_next env)
    then show ?thesis using assms(1) i(5) worker by (auto split: if_splits simp del: act.simps)
  next
    case Control_begin
    then show ?thesis using assms(1) control_inv_begin [OF _ assms(3)] by simp
  next
    case (Control_end env)
    then show ?thesis
      using assms(1) worker by (auto simp: control_end_def split: worker.splits option.splits if_splits simp del: act.simps)
  next
    case (Control_skip env)
    then show ?thesis
      using assms(1) worker by (auto simp: control_skip_def Let_def split: worker.splits option.splits if_splits simp del: act.simps)
  qed (use assms(2) in simp_all)
qed

lemma control_inv_frame:
  assumes "control_inv s" and "rt_control (sy_rt s') = rt_control (sy_rt s)" and "rt_drivers (sy_rt s') = rt_drivers (sy_rt s)"
    and "rt_io_gates (sy_rt s') = rt_io_gates (sy_rt s)"
    and "rt_pipeline (sy_rt s') = rt_pipeline (sy_rt s)" and "sy_control s' = sy_control s" and "rank (sy_phase s) \<le> rank (sy_phase s')"
    and "0 < rank (sy_phase s') \<Longrightarrow> 0 < rank (sy_phase s)"
    and "after Ph_dispatcher s' \<Longrightarrow> dd_stop_request_complete (dispatcher_of (sy_rt s))"
    and "after Ph_control_join s' \<Longrightarrow> dd_joined (dispatcher_of (sy_rt s))"
  shows "control_inv s'"
  using assms at_device_frame [OF assms(3,4)] by (auto simp: control_inv_def Let_def)

lemma control_inv_stop:
  assumes "stop_act alloc_ok s = Some s'" and "control_inv s"
  shows "control_inv s'"
proof -
  let ?d = "dispatcher_of (sy_rt s)" and ?dr = "resolver (rt_drivers (sy_rt s))"
  have i: "dd_started ?d" "dd_stopping ?d \<longrightarrow> after Ph_scheduler s" "after Ph_dispatcher s \<longrightarrow> dd_stop_request_complete ?d"
    "after Ph_control_join s \<longrightarrow> dd_joined ?d"
    "\<forall>gate. sy_control s = Some gate \<longrightarrow> (\<exists>operation. dd_worker ?d = Executing operation \<and>
       at_device (sy_rt s) (rq_device_id (op_request operation)) gate)"
    and r: "disp_inv ?d"
    using assms(2) dispatcher.reachable_inv by (auto simp: control_inv_def Let_def)
  have c: "dd_stopping ?d \<Longrightarrow> dd_cancelling ?d = None \<Longrightarrow> dd_stop_request_complete ?d"
    using r by (auto simp: disp_inv_def life_inv_def)
  have disp: "control_inv s'" if b: "act ?dr b ?d = Some d" "b \<in> {A_stop_begin alloc_ok, A_stop, A_join}" "s' = with_dispatcher d s"
    and p: "sy_phase s = Ph_dispatcher \<or> sy_phase s = Ph_control_join" for b d
  proof (rule control_inv_disp [OF assms(2) b(1)])
    note st = act_stop_stage [OF b(1,2)]
    have q: "after Ph_scheduler s" "\<not> after Ph_control_join s" using p by auto
    show "sy_rt s' = with_control (\<lambda>w. w\<lparr>cw_dispatcher := d\<rparr>) (sy_rt s)" "sy_phase s' = sy_phase s"
      by (simp_all add: b(3) with_dispatcher_def)
    show "dd_started d" using st(1) i(1) by simp
    show "dd_stopping d \<longrightarrow> after Ph_scheduler s" using q(1) by blast
    show "after Ph_dispatcher s \<longrightarrow> dd_stop_request_complete d" using i(3) st(3) by blast
    show "after Ph_control_join s \<longrightarrow> dd_joined d" using q(2) by blast
    show "\<forall>gate. sy_control s' = Some gate \<longrightarrow> (\<exists>operation. dd_worker d = Executing operation \<and>
        at_device (sy_rt s) (rq_device_id (op_request operation)) gate)"
      using i(5) st(2) by (simp add: b(3) with_dispatcher_def)
  qed
  show ?thesis
  proof (cases "sy_phase s")
    case Ph_running
    then show ?thesis using assms
      by (simp add: stop_act_def Let_def control_inv_def with_control_def observe_def at_device_def device_known_def split: if_splits) auto
  next
    case Ph_scheduler
    then show ?thesis using assms(1)
      by (intro control_inv_frame [OF assms(2)])
         (auto simp: stop_act_def Let_def observe_def log_calls_def split: option.splits)
  next
    case Ph_dispatcher
    consider d where "act ?dr (A_stop_begin alloc_ok) ?d = Some d" "s' = with_dispatcher d s"
      | d where "act ?dr A_stop ?d = Some d" "s' = with_dispatcher d s"
      | "dd_stopping ?d" "dd_cancelling ?d = None" "s' = (observe (sy_rt s) s)\<lparr>sy_phase := Ph_control_join\<rparr>"
      using assms(1) Ph_dispatcher by (auto simp: stop_act_def Let_def split: if_splits simp del: act.simps)
    then show ?thesis
    proof cases
      case 3
      then show ?thesis using c Ph_dispatcher
        by (intro control_inv_frame [OF assms(2)]) (simp_all add: observe_def)
    qed (use disp Ph_dispatcher in blast)+
  next
    case Ph_control_join
    consider d where "act ?dr A_join ?d = Some d" "s' = with_dispatcher d s"
      | "dd_joined ?d" "s' = (observe (log_calls [C_dispatcher_stop] (sy_rt s)) s)\<lparr>sy_phase := Ph_sources\<rparr>"
      using assms(1) Ph_control_join by (auto simp: stop_act_def Let_def split: if_splits simp del: act.simps)
    then show ?thesis
    proof cases
      case 2
      then show ?thesis using i(3) Ph_control_join
        by (intro control_inv_frame [OF assms(2)]) (simp_all add: observe_def log_calls_def)
    qed (use disp Ph_control_join in blast)
  qed (use assms(1) i(3,4) in \<open>intro control_inv_frame [OF assms(2)];
        simp add: stop_act_def Let_def observe_def log_calls_def mark_stopped_def split: if_splits; auto\<close>)+
qed

lemma control_inv_step:
  assumes "gateway_act pg we a s = Some s'" and "scheduler_inv s" and "control_inv s" and "submitting_processor (we_process we)"
  shows "control_inv s'"
  using assms(1,2)
proof (cases rule: act_cases)
  case (control w)
  then show ?thesis using control_inv_control assms(1,3) by blast
next
  case (process batch)
  let ?rt = "process_batch pg we batch (sy_rt s)"
  have d: "rt_drivers ?rt = rt_drivers (sy_rt s)" "at_device ?rt = at_device (sy_rt s)"
    using process_batch_effect [of pg we batch "sy_rt s"] by (auto simp: lifecycle_of_def intro!: at_device_frame)
  have c: "reachable disp_init (disp_steps (resolver (rt_drivers (sy_rt s)))) (dispatcher_of (sy_rt s))"
    "pl_control (rt_pipeline (sy_rt s)) = Some (\<lambda>request. submit_control (rt_drivers (sy_rt s)) request None)"
    using assms(3) by (simp_all add: control_inv_def Let_def)
  obtain now where "(submission \<lparr>ctx_now_ns = now, ctx_control = pl_control (rt_pipeline (sy_rt s))\<rparr>)\<^sup>*\<^sup>*
      (rt_control (sy_rt s)) (rt_control ?rt)"
    using process_batch_control(1) [OF assms(4)] by blast
  note e = sink_effect [OF this [unfolded c(2)] c(1)]
  show ?thesis
    using process(2) e c(2) assms(3) process_batch_control(2) [OF assms(4), of pg batch "sy_rt s"]
    by (simp add: control_inv_def Let_def d same_stage_def)
next
  case (stop alloc_ok)
  then show ?thesis using control_inv_stop assms(3) by blast
qed (use assms(3) in \<open>simp_all add: control_inv_def Let_def poll_frame_def wiring_def at_device_def device_known_def\<close>)

section \<open>Reachable states\<close>

text \<open>
  The invariant holds whenever the processors change the dispatcher only by submitting controls, which the built-in
  ones do.
\<close>

locale running_gateway =
  fixes pg :: "('d, 'b, 's) plugins" and we :: "('p, 'c) worker_env"
  assumes submits: "submitting_processor (we_process we)"
begin

lemma gateway_inv_step:
  assumes "gateway_step pg we s s'" and "gateway_inv s"
  shows "gateway_inv s'"
proof -
  obtain a where a: "gateway_act pg we a s = Some s'" using assms(1) by (auto simp: gateway_step_def)
  have "batch_inv s" "scheduler_inv s" "control_inv s" "gate_inv s" "stage_inv s" "log_inv s"
    using assms(2) by (simp_all add: gateway_inv_def)
  then show ?thesis
    using batch_inv_step [OF a] scheduler_inv_step [OF a] control_inv_step [OF a _ _ submits] gate_inv_step [OF a]
      stage_inv_step [OF a] trace_inv_step [OF a assms(2)] log_inv_step [OF a]
    by (simp add: gateway_inv_def)
qed

end

sublocale running_gateway \<subseteq> gateway: state_machine "gateway_init pg we" "gateway_step pg we" gateway_inv
proof
  show "gateway_init pg we s \<Longrightarrow> gateway_inv s" for s by (rule gateway_inv_init)
  show "gateway_step pg we s t \<Longrightarrow> gateway_inv s \<Longrightarrow> gateway_inv t" for s t by (rule gateway_inv_step)
qed

context running_gateway
begin

lemma always_gateway_inv: "reachable (gateway_init pg we) (gateway_step pg we) s \<Longrightarrow> gateway_inv s"
  by (rule gateway.reachable_inv)

end

interpretation builtin_gateway: running_gateway pg "we\<lparr>we_process := Processor_process\<rparr>" for pg :: "('d, 'b, 's) plugins" and we
  by unfold_locales (use builtin.only_submits in simp)

lemma reachable_gateway_inv:
  assumes "submitting_processor (we_process we)" and "reachable (gateway_init pg we) (gateway_step pg we) s"
  shows "gateway_inv s"
proof -
  have "running_gateway we" using assms(1) by unfold_locales (simp add: submitting_processor_def)
  then show ?thesis using assms(2) by (rule running_gateway.always_gateway_inv)
qed

end
