(* ===== verification/Gateway_Shutdown.thy ===== *)
theory Gateway_Shutdown
  imports Gateway_Threads
begin

text \<open>
  The shutdown of the running gateway: whom the stopping thread waits for, a measure of the work that is left, the
  proof that no thread adds to it and that the awaited one can always lessen it, a concrete execution in which a
  push, a poll and a control overlap with the shutdown, and the properties of all executions.
\<close>

section \<open>Who has to move\<close>

datatype thread = T_clock | T_driver | T_source | T_scheduler | T_worker | T_control | T_stop

fun thread_of :: "'c gateway_action \<Rightarrow> thread" where
  "thread_of (Clock _) = T_clock"
| "thread_of (Driver_push _) = T_driver"
| "thread_of Source_check = T_source"
| "thread_of Source_enter = T_source"
| "thread_of (Source_decide _ _ _) = T_source"
| "thread_of (Poll_select _) = T_scheduler"
| "thread_of Poll_begin = T_scheduler"
| "thread_of (Poll_end _ _) = T_scheduler"
| "thread_of (Poll_skip _ _) = T_scheduler"
| "thread_of Scheduler_exit = T_scheduler"
| "thread_of Worker_pop = T_worker"
| "thread_of Worker_process = T_worker"
| "thread_of (Control_next _) = T_control"
| "thread_of Control_begin = T_control"
| "thread_of (Control_end _) = T_control"
| "thread_of (Control_skip _) = T_control"
| "thread_of (Stop _) = T_stop"

definition scheduler_runs :: "('d, 'b, 's, 'p, 'c) GatewayRuntime \<Rightarrow> bool" where
  "scheduler_runs rt = (case rt_scheduler rt of None \<Rightarrow> False | Some e \<Rightarrow> se_running e)"

text \<open>The thread the shutdown waits for: the stopping thread itself, or the one it is about to join.\<close>

definition awaited :: "('d, 'b, 's, 'p, 'c) gateway \<Rightarrow> thread" where
  "awaited s =
     (case sy_phase s of
        Ph_scheduler \<Rightarrow> if scheduler_runs (sy_rt s) then T_scheduler else T_stop
      | Ph_control_join \<Rightarrow>
          if dd_join_in_progress (dispatcher_of (sy_rt s)) \<and> dd_worker (dispatcher_of (sy_rt s)) \<noteq> Exited
          then T_control else T_stop
      | Ph_worker \<Rightarrow> if sy_worker s = W_ended then T_stop else T_worker
      | _ \<Rightarrow> T_stop)"

abbreviation shutting_down :: "('d, 'b, 's, 'p, 'c) gateway \<Rightarrow> bool" where
  "shutting_down s \<equiv> after Ph_running s \<and> sy_phase s \<noteq> Ph_stopped"

text \<open>What is left to do in a phase, and in the whole shutdown.\<close>

definition control_work :: "('d, 'b, 's, 'p, 'c) gateway \<Rightarrow> nat" where
  "control_work s = 2 * shutdown_work (dispatcher_of (sy_rt s)) + (if sy_control s = None then 1 else 0)"

definition batch_work :: "('d, 'b, 's, 'p, 'c) gateway \<Rightarrow> nat" where
  "batch_work s = 2 * length (bq_queue (rt_raw_queue (sy_rt s))) +
     (case sy_worker s of W_waiting \<Rightarrow> 1 | W_busy _ \<Rightarrow> 2 | W_ended \<Rightarrow> 0)"

definition scheduler_work :: "('d, 'b, 's, 'p, 'c) gateway \<Rightarrow> nat" where
  "scheduler_work s = (if scheduler_runs (sy_rt s) then 1 else 0) +
     (case sy_polling s of None \<Rightarrow> 0 | Some (now, i, None) \<Rightarrow> 2 | Some (now, i, Some gate) \<Rightarrow> 1)"

definition phase_work :: "('d, 'b, 's, 'p, 'c) gateway \<Rightarrow> nat \<times> nat" where
  "phase_work s =
     (case sy_phase s of
        Ph_scheduler \<Rightarrow> (0, scheduler_work s)
      | Ph_dispatcher \<Rightarrow> if dd_stopping (dispatcher_of (sy_rt s)) then (0, control_work s) else (1, 0)
      | Ph_control_join \<Rightarrow> (0, control_work s)
      | Ph_worker \<Rightarrow> (0, batch_work s)
      | _ \<Rightarrow> (0, 0))"

definition remaining :: "('d, 'b, 's, 'p, 'c) gateway \<Rightarrow> nat \<times> nat \<times> nat" where
  "remaining s = (13 - rank (sy_phase s), phase_work s)"

definition fewer :: "((nat \<times> nat \<times> nat) \<times> (nat \<times> nat \<times> nat)) set" where
  "fewer = less_than <*lex*> less_than <*lex*> less_than"

lemma wf_fewer: "wf fewer"
  by (auto simp: fewer_def)

lemma fewer_simps [simp]:
  "((a, b, c), (a', b', c')) \<in> fewer \<longleftrightarrow> a < a' \<or> a = a' \<and> (b < b' \<or> b = b' \<and> c < c')"
  by (auto simp: fewer_def)

lemma rank_bound: "rank p \<le> 13"
  by (cases p) simp_all

lemma remaining_phase: "rank (sy_phase s) < rank (sy_phase s') \<Longrightarrow> (remaining s', remaining s) \<in> fewer"
  using rank_bound [of "sy_phase s'"] by (cases "phase_work s"; cases "phase_work s'"; simp add: remaining_def; arith?)

lemma remaining_work:
  "sy_phase s' = sy_phase s \<Longrightarrow> (remaining s', remaining s) \<in> fewer \<longleftrightarrow>
     fst (phase_work s') < fst (phase_work s) \<or> fst (phase_work s') = fst (phase_work s) \<and> snd (phase_work s') < snd (phase_work s)"
  by (cases "phase_work s"; cases "phase_work s'"; simp add: remaining_def; arith?)

section \<open>The dispatcher's part\<close>

lemma act_work:
  assumes "act dr a d = Some d'" and "disp_inv d" and "dd_stopping d"
  shows "dd_stopping d'" and "internal (act_label a) \<Longrightarrow> shutdown_work d' < shutdown_work d"
    and "\<not> internal (act_label a) \<Longrightarrow> shutdown_work d' = shutdown_work d"
proof -
  note step = act_label_step [OF assms(1)]
  have "act_label a \<noteq> L_join_failed" by (cases a) simp_all
  with step assms(2,3) show "dd_stopping d'" "internal (act_label a) \<Longrightarrow> shutdown_work d' < shutdown_work d"
    "\<not> internal (act_label a) \<Longrightarrow> shutdown_work d' = shutdown_work d"
    using internal_step_decreases [OF step] other_step_neutral [OF step] by blast+
qed

lemma control_inv_disp_inv: "control_inv s \<Longrightarrow> disp_inv (dispatcher_of (sy_rt s))"
  using dispatcher.reachable_inv by (auto simp: control_inv_def Let_def)

text \<open>The control actions while the dispatcher is stopping.\<close>

lemma control_action_work:
  assumes "gateway_act pg we a s = Some s'" and "control_action a" and "control_inv s"
    and "dd_stopping (dispatcher_of (sy_rt s))"
  shows "dd_stopping (dispatcher_of (sy_rt s'))"
    and "thread_of a = T_control \<Longrightarrow> control_work s' < control_work s"
    and "thread_of a \<noteq> T_control \<Longrightarrow> control_work s' = control_work s"
proof -
  let ?d = "dispatcher_of (sy_rt s)" and ?dr = "resolver (rt_drivers (sy_rt s))"
  have turn: "dd_stopping (dispatcher_of (sy_rt s'))" "internal (act_label b) \<Longrightarrow> control_work s' < control_work s"
    "\<not> internal (act_label b) \<Longrightarrow> sy_control s' = sy_control s \<Longrightarrow> control_work s' = control_work s"
    if "act ?dr b ?d = Some d" "sy_rt s' = sy_rt (with_dispatcher d s)" for b d
    using act_work [OF that(1) control_inv_disp_inv [OF assms(3)] assms(4)] that(2)
    by (auto simp: control_work_def with_dispatcher_def with_control_def)
  have "dd_stopping (dispatcher_of (sy_rt s')) \<and> (thread_of a = T_control \<longrightarrow> control_work s' < control_work s) \<and>
    (thread_of a \<noteq> T_control \<longrightarrow> control_work s' = control_work s)"
  proof (cases a)
    case (Clock t)
    then show ?thesis using assms(1,4) by (auto simp: with_control_def control_work_def)
  next
    case Source_check
    then show ?thesis using assms(1,4) by (auto simp: control_work_def split: if_splits)
  next
    case Source_enter
    then obtain d where "act ?dr A_enter ?d = Some d" "sy_rt s' = sy_rt (with_dispatcher d s)" "sy_control s' = sy_control s"
      using assms(1) by (auto split: if_splits simp: with_dispatcher_def simp del: act.simps)
    then show ?thesis
      using turn [of A_enter d] Source_enter by (simp add: internal_def del: act.simps)
  next
    case (Source_decide now request completion)
    then obtain d where "act ?dr (A_decide now request completion) ?d = Some d" "sy_rt s' = sy_rt (with_dispatcher d s)" "sy_control s' = sy_control s"
      using assms(1) by (auto simp: with_dispatcher_def simp del: act.simps)
    then show ?thesis
      using turn [of "A_decide now request completion" d] Source_decide by (simp add: internal_def del: act.simps)
  next
    case (Control_next env)
    then obtain d where "act ?dr (A_worker env) ?d = Some d" "sy_rt s' = sy_rt (with_dispatcher d s)" "sy_control s' = sy_control s"
      using assms(1) by (auto split: if_splits simp: with_dispatcher_def simp del: act.simps)
    then show ?thesis
      using turn [of "A_worker env" d] Control_next by (simp add: internal_def del: act.simps)
  next
    case Control_begin
    then show ?thesis
      using assms(1,4) by (auto simp: control_begin_def Let_def control_work_def split: worker.splits option.splits if_splits)
  next
    case (Control_end env)
    then obtain d where "act ?dr (A_worker env) ?d = Some d" "sy_rt s' = sy_rt (with_dispatcher d s)"
      using assms(1) by (auto simp: control_end_def split: worker.splits option.splits if_splits simp: with_dispatcher_def simp del: act.simps)
    then show ?thesis
      using turn [of "A_worker env" d] Control_end by (simp add: internal_def del: act.simps)
  next
    case (Control_skip env)
    then obtain d where "act ?dr (A_worker env) ?d = Some d" "sy_rt s' = sy_rt (with_dispatcher d s)" "sy_control s' = sy_control s"
      using assms(1) by (auto simp: control_skip_def Let_def split: worker.splits option.splits if_splits simp: with_dispatcher_def simp del: act.simps)
    then show ?thesis
      using turn [of "A_worker env" d] Control_skip by (simp add: internal_def del: act.simps)
  qed (use assms(2) in simp_all)
  then show "dd_stopping (dispatcher_of (sy_rt s'))" "thread_of a = T_control \<Longrightarrow> control_work s' < control_work s"
    "thread_of a \<noteq> T_control \<Longrightarrow> control_work s' = control_work s" by blast+
qed

section \<open>Every step counts\<close>

text \<open>Threads other than the stopping one, while the gateway shuts down.\<close>

lemma process_control_unchanged:
  assumes "submitting_processor (we_process we)" and "control_inv s" and "after Ph_running s"
  shows "rt_control (process_batch pg we batch (sy_rt s)) = rt_control (sy_rt s)"
proof -
  have c: "reachable disp_init (disp_steps (resolver (rt_drivers (sy_rt s)))) (dispatcher_of (sy_rt s))"
    "pl_control (rt_pipeline (sy_rt s)) = Some (\<lambda>request. submit_control (rt_drivers (sy_rt s)) request None)"
    "\<not> cw_accepting (rt_control (sy_rt s))"
    using assms(2,3) by (simp_all add: control_inv_def Let_def)
  obtain now where "(submission \<lparr>ctx_now_ns = now, ctx_control = pl_control (rt_pipeline (sy_rt s))\<rparr>)\<^sup>*\<^sup>*
      (rt_control (sy_rt s)) (rt_control (process_batch pg we batch (sy_rt s)))"
    using process_batch_control(1) [OF assms(1)] by blast
  from sink_effect [OF this [unfolded c(2)] c(1)] c(3) show ?thesis by blast
qed

lemma running_act_dispatcher:
  assumes "gateway_act pg we a s = Some s'" and "scheduler_inv s" and "control_inv s" and "after Ph_running s"
    and "submitting_processor (we_process we)" and "thread_of a \<noteq> T_stop" and "\<not> control_action a"
  shows "dispatcher_of (sy_rt s') = dispatcher_of (sy_rt s)" and "sy_control s' = sy_control s"
proof -
  have "dispatcher_of (sy_rt s') = dispatcher_of (sy_rt s) \<and> sy_control s' = sy_control s"
    using assms(1,2)
  proof (cases rule: act_cases)
    case (process batch)
    then show ?thesis
      using process_control_unchanged [OF assms(5,3,4), of pg batch] by (simp add: observe_def)
  qed (use assms(6,7) in \<open>auto simp: observe_def poll_frame_def\<close>)
  then show "dispatcher_of (sy_rt s') = dispatcher_of (sy_rt s)" "sy_control s' = sy_control s" by blast+
qed

lemma control_phase_work:
  assumes "gateway_act pg we a s = Some s'" and "scheduler_inv s" and "control_inv s" and "after Ph_running s"
    and "submitting_processor (we_process we)" and "thread_of a \<noteq> T_stop" and "dd_stopping (dispatcher_of (sy_rt s))"
  shows "dd_stopping (dispatcher_of (sy_rt s'))" and "thread_of a = T_control \<Longrightarrow> control_work s' < control_work s"
    and "thread_of a \<noteq> T_control \<Longrightarrow> control_work s' = control_work s"
proof -
  have "dd_stopping (dispatcher_of (sy_rt s')) \<and> (thread_of a = T_control \<longrightarrow> control_work s' < control_work s) \<and>
    (thread_of a \<noteq> T_control \<longrightarrow> control_work s' = control_work s)"
  proof (cases "control_action a")
    case True
    show ?thesis using control_action_work [OF assms(1) True assms(3,7)] by blast
  next
    case False
    then have "thread_of a \<noteq> T_control" by (cases a) simp_all
    then show ?thesis
      using running_act_dispatcher [OF assms(1-6) False] assms(7) by (simp add: control_work_def)
  qed
  then show "dd_stopping (dispatcher_of (sy_rt s'))" "thread_of a = T_control \<Longrightarrow> control_work s' < control_work s"
    "thread_of a \<noteq> T_control \<Longrightarrow> control_work s' = control_work s" by blast+
qed

lemma scheduler_phase_work:
  assumes "gateway_act pg we a s = Some s'" and "scheduler_inv s" and "after Ph_asked s" and "thread_of a \<noteq> T_stop"
  shows "thread_of a = T_scheduler \<Longrightarrow> scheduler_work s' < scheduler_work s"
    and "thread_of a \<noteq> T_scheduler \<Longrightarrow> scheduler_work s' = scheduler_work s"
proof -
  have "(thread_of a = T_scheduler \<longrightarrow> scheduler_work s' < scheduler_work s) \<and>
    (thread_of a \<noteq> T_scheduler \<longrightarrow> scheduler_work s' = scheduler_work s)"
    using assms(1,2)
  proof (cases rule: act_cases)
    case (control w)
    then have "thread_of a \<noteq> T_scheduler" by (cases a) simp_all
    then show ?thesis
      using control(2) by (simp add: control_only_def scheduler_work_def scheduler_runs_def control(3))
  next
    case (poll rt e e')
    have "thread_of a = T_scheduler" using poll(1) by (cases a) simp_all
    moreover obtain now i g where "sy_polling s = Some (now, i, g)" using poll(1) assms(1) by (cases a) (auto split: option.splits)
    ultimately show ?thesis
      using poll(3,4,6,7,10) by (cases g) (auto simp: scheduler_work_def scheduler_runs_def observe_def)
  next
    case (process batch)
    then show ?thesis
      using process_batch_effect [of pg we batch "sy_rt s"]
      by (auto simp: scheduler_work_def scheduler_runs_def observe_def lifecycle_of_def)
  next
    case (poll_select e now i)
    then show ?thesis using assms(2,3) by (rule_tac scheduler_invD) auto
  next
    case (poll_begin now i gate)
    then show ?thesis by (simp add: scheduler_work_def)
  next
    case (exit e)
    then show ?thesis using assms(1) by (auto simp: scheduler_work_def scheduler_runs_def split: if_splits)
  qed (use assms(4) in \<open>auto simp: scheduler_work_def scheduler_runs_def observe_def\<close>)
  then show "thread_of a = T_scheduler \<Longrightarrow> scheduler_work s' < scheduler_work s"
    "thread_of a \<noteq> T_scheduler \<Longrightarrow> scheduler_work s' = scheduler_work s" by blast+
qed

lemma batch_phase_work:
  assumes "gateway_act pg we a s = Some s'" and "scheduler_inv s" and "batch_inv s" and "after Ph_close s" and "thread_of a \<noteq> T_stop"
  shows "thread_of a = T_worker \<Longrightarrow> batch_work s' < batch_work s"
    and "thread_of a \<noteq> T_worker \<Longrightarrow> batch_work s' = batch_work s"
proof -
  have closed: "bq_closed (rt_raw_queue (sy_rt s))" using assms(3,4) by (simp add: batch_inv_def)
  have "(thread_of a = T_worker \<longrightarrow> batch_work s' < batch_work s) \<and> (thread_of a \<noteq> T_worker \<longrightarrow> batch_work s' = batch_work s)"
    using assms(1,2)
  proof (cases rule: act_cases)
    case (control w)
    then have "thread_of a \<noteq> T_worker" by (cases a) simp_all
    then show ?thesis using control(2) by (simp add: control_only_def batch_work_def control(3))
  next
    case (poll rt e e')
    have "after Ph_scheduler s" using assms(4) by simp
    then show ?thesis using assms(2) poll(3,6) by (rule_tac scheduler_invD) auto
  next
    case (push batch)
    then show ?thesis using push_queue(3) [OF closed] by (simp add: batch_work_def observe_def)
  next
    case (pop x q)
    then show ?thesis
      by (auto simp: batch_work_def BoundedQueue_wait_pop_def split: list.splits if_splits)
  next
    case (process batch)
    then show ?thesis
      using process_batch_effect [of pg we batch "sy_rt s"] by (auto simp: batch_work_def observe_def)
  qed (use assms(5) in \<open>auto simp: batch_work_def\<close>)
  then show "thread_of a = T_worker \<Longrightarrow> batch_work s' < batch_work s"
    "thread_of a \<noteq> T_worker \<Longrightarrow> batch_work s' = batch_work s" by blast+
qed
lemma stop_same_phase:
  assumes "stop_act alloc_ok s = Some s'" and "sy_phase s' = sy_phase s"
  obtains (ask) d where "sy_phase s = Ph_dispatcher" "\<not> dd_stopping (dispatcher_of (sy_rt s))"
      "act (resolver (rt_drivers (sy_rt s))) (A_stop_begin alloc_ok) (dispatcher_of (sy_rt s)) = Some d" "s' = with_dispatcher d s"
  | (sweep) d where "sy_phase s = Ph_dispatcher" "dd_stopping (dispatcher_of (sy_rt s))"
      "act (resolver (rt_drivers (sy_rt s))) A_stop (dispatcher_of (sy_rt s)) = Some d" "s' = with_dispatcher d s"
  | (join) d where "sy_phase s = Ph_control_join"
      "act (resolver (rt_drivers (sy_rt s))) A_join (dispatcher_of (sy_rt s)) = Some d" "s' = with_dispatcher d s"
  using assms
  by (cases "sy_phase s") (auto simp: stop_act_def Let_def split: if_splits option.splits simp del: act.simps)

lemma control_phases_stopping:
  assumes "control_inv s" and "after Ph_dispatcher s"
  shows "dd_stopping (dispatcher_of (sy_rt s))"
  using assms control_inv_disp_inv [OF assms(1)] by (auto simp: control_inv_def Let_def disp_inv_def life_inv_def)

lemma stop_act_remaining:
  assumes "stop_act alloc_ok s = Some s'" and "scheduler_inv s" and "control_inv s"
  shows "(remaining s', remaining s) \<in> fewer"
proof (cases "sy_phase s' = sy_phase s")
  case True
  have i: "disp_inv (dispatcher_of (sy_rt s))" by (rule control_inv_disp_inv [OF assms(3)])
  show ?thesis
    using assms(1) True
  proof (cases rule: stop_same_phase)
    case (ask d)
    then show ?thesis
      using remaining_work [OF True] True
      by (auto simp: phase_work_def with_dispatcher_def with_control_def Dispatcher_request_stop_begin_def Let_def
          split: if_splits prod.splits)
  next
    case (sweep d)
    then show ?thesis
      using remaining_work [OF True] True act_work(1,2) [OF sweep(3) i sweep(2)]
      by (simp add: phase_work_def with_dispatcher_def with_control_def control_work_def internal_def)
  next
    case (join d)
    then show ?thesis
      using remaining_work [OF True] True act_work(2) [OF join(2) i control_phases_stopping [OF assms(3)]]
      by (simp add: phase_work_def with_dispatcher_def with_control_def control_work_def internal_def)
  qed
next
  case False
  obtain e where "rt_scheduler (sy_rt s) = Some e" using assms(2) by (rule scheduler_invD)
  from stop_act_calls [OF assms(1) this] False show ?thesis by (intro remaining_phase) auto
qed

lemma remaining_step:
  assumes "gateway_act pg we a s = Some s'" and "gateway_inv s" and "shutting_down s" and "submitting_processor (we_process we)"
  shows "thread_of a = awaited s \<Longrightarrow> (remaining s', remaining s) \<in> fewer"
    and "(remaining s', remaining s) \<in> fewer \<or> remaining s' = remaining s"
proof -
  have i: "scheduler_inv s" "control_inv s" "batch_inv s" using assms(2) by (simp_all add: gateway_inv_def)
  have "(thread_of a = awaited s \<longrightarrow> (remaining s', remaining s) \<in> fewer) \<and>
    ((remaining s', remaining s) \<in> fewer \<or> remaining s' = remaining s)"
  proof (cases "thread_of a = T_stop")
    case True
    then obtain alloc_ok where "a = Stop alloc_ok" by (cases a) simp_all
    then show ?thesis using stop_act_remaining [OF _ i(1,2)] assms(1) by simp
  next
    case False
    then have p: "sy_phase s' = sy_phase s" using other_act_frame(1) [OF assms(1) i(1)] by (cases a) auto
    note less = remaining_work [OF p]
    show ?thesis
    proof (cases "sy_phase s")
      case Ph_scheduler
      then show ?thesis
        using less p False scheduler_phase_work [OF assms(1) i(1) _ False]
        by (cases "thread_of a = T_scheduler") (simp_all add: awaited_def phase_work_def remaining_def)
    next
      case Ph_dispatcher
      show ?thesis
      proof (cases "dd_stopping (dispatcher_of (sy_rt s))")
        case True
        with Ph_dispatcher show ?thesis
          using less p False control_phase_work [OF assms(1) i(1,2) _ assms(4) False True]
          by (cases "thread_of a = T_control") (simp_all add: awaited_def phase_work_def remaining_def)
      next
        case stop: False
        with Ph_dispatcher p False less show ?thesis
          by (cases "dd_stopping (dispatcher_of (sy_rt s'))") (simp_all add: awaited_def phase_work_def remaining_def)
      qed
    next
      case Ph_control_join
      then have "dd_stopping (dispatcher_of (sy_rt s))" by (simp add: control_phases_stopping [OF i(2)])
      with Ph_control_join show ?thesis
        using less p False control_phase_work [OF assms(1) i(1,2) _ assms(4) False]
        by (cases "thread_of a = T_control") (simp_all add: awaited_def phase_work_def remaining_def)
    next
      case Ph_worker
      then show ?thesis
        using less p False batch_phase_work [OF assms(1) i(1,3) _ False]
        by (cases "thread_of a = T_worker") (simp_all add: awaited_def phase_work_def remaining_def)
    qed (use False p assms(3) in \<open>simp_all add: awaited_def phase_work_def remaining_def\<close>)
  qed
  then show "thread_of a = awaited s \<Longrightarrow> (remaining s', remaining s) \<in> fewer"
    "(remaining s', remaining s) \<in> fewer \<or> remaining s' = remaining s" by blast+
qed
text \<open>The awaited thread can move, whatever the others do.\<close>

text \<open>
  Once the scheduler has ended, no poll holds a gate, so the dispatcher's worker gets the gate of the device it
  executes a control for.
\<close>

lemma gates_free:
  assumes "gate_inv s" and "scheduler_inv s" and "after Ph_scheduler s" and "sy_control s = None"
  shows "sy_gates s gate = None"
proof -
  have "sy_polling s = None" using assms(2,3) by (rule_tac scheduler_invD) auto
  then show ?thesis using assms(1,4) by (simp add: gate_inv_def gates_held_def)
qed

text \<open>Answers that agree with the gateway: a driver and a gate are found, the gate is locked and the deadline is ahead.\<close>

definition good_answers :: "DeviceControlRequest \<Rightarrow> exec_env" where
  "good_answers request =
     (let now = min (rq_deadline request) time_point_max - 1
      in \<lparr>en_started = now, en_driver = Inr True, en_now = now, en_gate = Inr True, en_lock = Inr True, en_locked_at = now,
          en_control = Inl Unknown_exception, en_controlled_at = now, en_finished = now\<rparr>)"

lemma good_answers_call: "snd (execute_outcome has_gate (good_answers request) request)"
  by (auto simp: good_answers_def execute_outcome_def found_def lock_acquired_def Let_def)

lemma device_control_moves:
  assumes "dd_worker (dispatcher_of (sy_rt s)) = Executing operation" and "sy_control s = None"
    and "rt_io_gates (sy_rt s) = map di_device_id (rt_drivers (sy_rt s))" and "\<And>gate. sy_gates s gate = None"
  shows "(if device_known (sy_rt s) (rq_device_id (op_request operation))
     then \<exists>s'. gateway_act pg we Control_begin s = Some s'
     else \<exists>env s'. gateway_act pg we (Control_skip env) s = Some s')"
proof (cases "device_known (sy_rt s) (rq_device_id (op_request operation))")
  case True
  then show ?thesis
    using known_device_gate [OF assms(3) True] assms(1,2,4) by (simp add: control_begin_def Let_def)
next
  case False
  let ?env = "(good_answers (op_request operation))\<lparr>en_driver := Inr False,
    en_gate := Inr (find_io_gate (rt_io_gates (sy_rt s)) (rq_device_id (op_request operation)) \<noteq> None)\<rparr>"
  have "answers_agree (sy_rt s) (rq_device_id (op_request operation)) ?env" "\<not> snd (execute_outcome has_gate ?env (op_request operation))"
    for has_gate
    using False by (simp_all add: answers_agree_def good_answers_def execute_outcome_def found_def Let_def)
  then have "\<exists>s'. gateway_act pg we (Control_skip ?env) s = Some s'"
    using assms(1,2,4) by (simp add: control_skip_def Let_def lock_agrees_def split: option.split)
  then show ?thesis using False by auto
qed

lemma device_control_ends:
  assumes "sy_control s = Some gate" and "dd_worker (dispatcher_of (sy_rt s)) = Executing operation"
    and "at_device (sy_rt s) (rq_device_id (op_request operation)) gate"
  shows "\<exists>s'. gateway_act pg we (Control_end (good_answers (op_request operation))) s = Some s'"
proof -
  have "answers_agree (sy_rt s) (rq_device_id (op_request operation)) (good_answers (op_request operation))"
    using assms(3) by (simp add: answers_agree_def at_device_def good_answers_def Let_def)
  moreover have "en_lock (good_answers (op_request operation)) = Inr True" by (simp add: good_answers_def Let_def)
  ultimately show ?thesis using assms(1,2) good_answers_call by (simp add: control_end_def)
qed

lemma control_can_move:
  assumes "control_inv s" and "gate_inv s" and "scheduler_inv s" and "stage_inv s" and "after Ph_dispatcher s"
    and "dd_stopping (dispatcher_of (sy_rt s))" and "dd_worker (dispatcher_of (sy_rt s)) \<noteq> Exited"
  shows "\<exists>a s'. thread_of a = T_control \<and> gateway_act pg we a s = Some s'"
proof -
  let ?d = "dispatcher_of (sy_rt s)"
  have d: "disp_inv ?d" "dd_started ?d" using assms(1) control_inv_disp_inv by (auto simp: control_inv_def Let_def)
  show ?thesis
  proof (cases "dd_worker ?d")
    case Waiting
    obtain x q where "ControlQueue_wait_pop (dd_queue ?d) = Some (x, q)"
      using d(1) assms(6) cq.pop_blocks [of "dd_queue ?d"] by (fastforce simp: disp_inv_def life_inv_def)
    then have "\<exists>s'. gateway_act pg we (Control_next undefined) s = Some s'" using Waiting by (cases x) simp_all
    then show ?thesis by (metis thread_of.simps(13))
  next
    case (Executing operation)
    show ?thesis
    proof (cases "sy_control s")
      case None
      have "\<And>gate. sy_gates s gate = None" using gates_free [OF assms(2,3) _ None] assms(5) by simp
      moreover have "rt_io_gates (sy_rt s) = map di_device_id (rt_drivers (sy_rt s))"
        using assms(4) by (simp add: stage_inv_def Let_def)
      ultimately have "(if device_known (sy_rt s) (rq_device_id (op_request operation))
         then \<exists>s'. gateway_act pg we Control_begin s = Some s'
         else \<exists>env s'. gateway_act pg we (Control_skip env) s = Some s')"
        by (intro device_control_moves [OF Executing None])
      then show ?thesis by (metis thread_of.simps(14,16))
    next
      case (Some gate)
      then have "at_device (sy_rt s) (rq_device_id (op_request operation)) gate"
        using assms(1) Executing by (auto simp: control_inv_def Let_def)
      from device_control_ends [OF Some Executing this, of pg we] show ?thesis by (metis thread_of.simps(15))
    qed
  qed (use d assms(7) in \<open>auto simp: disp_inv_def life_inv_def\<close>)
qed

lemma scheduler_can_move:
  assumes "scheduler_inv s" and "scheduler_runs (sy_rt s)" and "after Ph_asked s"
  shows "\<exists>a s'. thread_of a = T_scheduler \<and> gateway_act pg we a s = Some s'"
proof -
  obtain e where e: "rt_scheduler (sy_rt s) = Some e" "valid_tasks (se_policy e)" "se_stopping e" "se_running e"
    "\<forall>now i g. sy_polling s = Some (now, i, g) \<longrightarrow> policy_select_due (se_policy e) now = Some i"
    using assms by (auto simp: scheduler_inv_def scheduler_runs_def)
  have turn: "\<exists>rt. polled env (r\<lparr>rnd_now := now\<rparr>) (sy_rt s) = Some rt" if "sy_polling s = Some (now, i, g)" for env r now i g
    using polled_returns [OF e(1,2), of "r\<lparr>rnd_now := now\<rparr>" i] e(5) that by auto
  show ?thesis
  proof (cases "sy_polling s")
    case None
    then have "\<exists>s'. gateway_act pg we Scheduler_exit s = Some s'" using e by simp
    then show ?thesis by (metis thread_of.simps(10))
  next
    case (Some p)
    then obtain now i g where p: "sy_polling s = Some (now, i, g)" by (cases p) auto
    show ?thesis
    proof (cases g)
      case None
      let ?env = "undefined\<lparr>pe_lock := Inr False\<rparr> :: poll_env" and ?r = "undefined :: round"
      have "\<exists>s'. gateway_act pg we (Poll_skip ?env ?r) s = Some s'" using turn [OF p] p None by auto
      then show ?thesis by (metis thread_of.simps(9))
    next
      case (Some gate)
      let ?env = "undefined\<lparr>pe_lock := Inr True\<rparr> :: poll_env" and ?r = "undefined :: round"
      have "\<exists>s'. gateway_act pg we (Poll_end ?env ?r) s = Some s'" using turn [OF p] p Some by auto
      then show ?thesis by (metis thread_of.simps(8))
    qed
  qed
qed

lemma stop_can_move:
  assumes "scheduler_inv s" and "control_inv s" and "shutting_down s" and "awaited s = T_stop"
  shows "\<exists>s'. stop_act alloc_ok s = Some s'"
proof -
  let ?d = "dispatcher_of (sy_rt s)"
  have d: "disp_inv ?d" "dd_started ?d" "after Ph_dispatcher s \<Longrightarrow> dd_stop_request_complete ?d"
    using assms(2) control_inv_disp_inv by (auto simp: control_inv_def Let_def)
  obtain e where e: "rt_scheduler (sy_rt s) = Some e" "se_running e \<longrightarrow> se_joinable e" using assms(1) by (rule scheduler_invD)
  show ?thesis
  proof (cases "sy_phase s")
    case Ph_scheduler
    then show ?thesis using assms(4) e
      by (auto simp: stop_act_def Let_def awaited_def scheduler_runs_def SchedulerEngine_join_def split: if_splits)
  next
    case Ph_dispatcher
    then show ?thesis
      by (cases "dd_cancelling ?d") (auto simp: stop_act_def Let_def split: list.splits)
  next
    case Ph_control_join
    then show ?thesis using assms(4) d
      by (auto simp: stop_act_def Let_def awaited_def split: if_splits worker.splits)
  next
    case Ph_worker
    then show ?thesis using assms(4) by (auto simp: stop_act_def Let_def awaited_def split: if_splits)
  qed (use assms(3) in \<open>auto simp: stop_act_def Let_def\<close>)
qed

lemma worker_can_move:
  assumes "batch_inv s" and "after Ph_close s" and "sy_worker s \<noteq> W_ended"
  shows "\<exists>a s'. thread_of a = T_worker \<and> gateway_act pg we a s = Some s'"
proof (cases "sy_worker s")
  case W_waiting
  have "bq_closed (rt_raw_queue (sy_rt s))" using assms by (simp add: batch_inv_def)
  then have "\<exists>s'. gateway_act pg we Worker_pop s = Some s'"
    using W_waiting by (auto simp: BoundedQueue_wait_pop_def split: list.splits)
  then show ?thesis by (metis thread_of.simps(11))
next
  case (W_busy batch)
  then have "\<exists>s'. gateway_act pg we Worker_process s = Some s'" by simp
  then show ?thesis by (metis thread_of.simps(12))
qed (use assms in simp)

lemma awaited_can_move:
  assumes "gateway_inv s" and "shutting_down s"
  shows "\<exists>a s'. thread_of a = awaited s \<and> gateway_act pg we a s = Some s'"
proof -
  have i: "scheduler_inv s" "control_inv s" "batch_inv s" "gate_inv s" "stage_inv s" using assms(1) by (simp_all add: gateway_inv_def)
  consider "awaited s = T_stop"
    | "sy_phase s = Ph_scheduler" "scheduler_runs (sy_rt s)" "awaited s = T_scheduler"
    | "sy_phase s = Ph_control_join" "dd_worker (dispatcher_of (sy_rt s)) \<noteq> Exited" "awaited s = T_control"
    | "sy_phase s = Ph_worker" "sy_worker s \<noteq> W_ended" "awaited s = T_worker"
    unfolding awaited_def by (cases "sy_phase s") (simp_all, metis+)
  then show ?thesis
  proof cases
    case 1
    then obtain s' where "gateway_act pg we (Stop True) s = Some s'"
      using stop_can_move [OF i(1,2) assms(2)] by auto
    then show ?thesis using 1 by (metis thread_of.simps(17))
  next
    case 2
    then show ?thesis using scheduler_can_move [OF i(1)] by simp
  next
    case 3
    then show ?thesis using control_can_move [OF i(2,4,1,5) _ control_phases_stopping [OF i(2)]] by simp
  next
    case 4
    then show ?thesis using worker_can_move [OF i(3)] by simp
  qed
qed

section \<open>Executions\<close>

text \<open>An execution in which the awaited thread moves again and again reaches the end.\<close>

lemma phase_never_falls:
  assumes "gateway_act pg we a s = Some s'" and "scheduler_inv s"
  shows "rank (sy_phase s) \<le> rank (sy_phase s')"
proof (cases "thread_of a = T_stop")
  case True
  then obtain alloc_ok where a: "stop_act alloc_ok s = Some s'" using assms(1) by (cases a) simp_all
  obtain e where "rt_scheduler (sy_rt s) = Some e" using assms(2) by (rule scheduler_invD)
  from stop_act_calls [OF a this] show ?thesis by auto
next
  case False
  then show ?thesis using other_act_frame(1) [OF assms] by (cases a) auto
qed

lemma fair_run_stops:
  assumes proc: "submitting_processor (we_process we)"
    and start: "reachable (gateway_init pg we) (gateway_step pg we) (run 0)" "after Ph_running (run 0)"
    and run: "\<And>n. gateway_act pg we (moves n) (run n) = Some (run (Suc n))"
    and fair: "\<And>n. \<exists>m \<ge> n. thread_of (moves m) = awaited (run m) \<or> sy_phase (run m) = Ph_stopped"
  shows "\<exists>n. sy_phase (run n) = Ph_stopped"
proof (rule ccontr)
  assume never: "\<not> ?thesis"
  have inv: "gateway_inv (run n) \<and> shutting_down (run n)" for n
  proof -
    have "reachable (gateway_init pg we) (gateway_step pg we) (run n) \<and> after Ph_running (run n)"
    proof (induction n)
      case (Suc n)
      then have "scheduler_inv (run n)" using reachable_gateway_inv [OF proc] gateway_inv_def by blast
      with Suc show ?case
        using run [of n] phase_never_falls [OF run [of n]]
        by (auto simp: gateway_step_def intro: reachable.step)
    qed (use start in simp)
    then show ?thesis using reachable_gateway_inv [OF proc] never by blast
  qed
  have step: "(remaining (run (Suc n)), remaining (run n)) \<in> fewer\<^sup>*" for n
    using remaining_step(2) [OF run] inv proc by (metis r_into_rtrancl rtrancl.rtrancl_refl)
  have chain: "(remaining (run (n + k)), remaining (run n)) \<in> fewer\<^sup>*" for n k
    by (induction k) (use step in \<open>auto intro: rtrancl_trans\<close>)
  have "\<forall>n. remaining (run n) = x \<longrightarrow> False" for x
  proof (induction x rule: wf_induct_rule [OF wf_trancl [OF wf_fewer]])
    case (1 x)
    show ?case
    proof (intro allI impI)
      fix n assume x: "remaining (run n) = x"
      obtain m where m: "m \<ge> n" "thread_of (moves m) = awaited (run m)" using fair [of n] never by blast
      have "(remaining (run (Suc m)), remaining (run m)) \<in> fewer"
        using remaining_step(1) [OF run _ _ proc m(2)] inv by blast
      moreover have "(remaining (run m), x) \<in> fewer\<^sup>*" using chain [of n "m - n"] m(1) x by simp
      ultimately have "(remaining (run (Suc m)), x) \<in> fewer\<^sup>+" by simp
      then show False using 1 by blast
    qed
  qed
  then show False by blast
qed
section \<open>A concrete execution\<close>

text \<open>Comparisons with a constructor, for evaluation.\<close>

lemma worker_tests [code_unfold]:
  "HOL.equal w Waiting \<longleftrightarrow> (case w of Waiting \<Rightarrow> True | _ \<Rightarrow> False)"
  "HOL.equal w Exited \<longleftrightarrow> (case w of Exited \<Rightarrow> True | _ \<Rightarrow> False)"
  by (cases w; simp add: equal)+

lemma batch_worker_tests [code_unfold]:
  "HOL.equal b W_waiting \<longleftrightarrow> (case b of W_waiting \<Rightarrow> True | _ \<Rightarrow> False)"
  "HOL.equal b W_ended \<longleftrightarrow> (case b of W_ended \<Rightarrow> True | _ \<Rightarrow> False)"
  by (cases b; simp add: equal)+

fun gateway_acts ::
  "('d, 'b, 's) plugins \<Rightarrow> ('p, 'c) worker_env \<Rightarrow> 'c gateway_action list \<Rightarrow> ('d, 'b, 's, 'p, 'c) gateway \<Rightarrow>
   ('d, 'b, 's, 'p, 'c) gateway option" where
  "gateway_acts pg we [] s = Some s"
| "gateway_acts pg we (a # as) s = Option.bind (gateway_act pg we a s) (gateway_acts pg we as)"

lemma gateway_acts_reachable:
  "reachable (gateway_init pg we) (gateway_step pg we) s \<Longrightarrow> gateway_acts pg we as s = Some s' \<Longrightarrow>
     reachable (gateway_init pg we) (gateway_step pg we) s'"
proof (induction as arbitrary: s)
  case (Cons a as)
  then obtain t where t: "gateway_act pg we a s = Some t" "gateway_acts pg we as t = Some s'" by (auto simp: bind_eq_Some_conv)
  then have "gateway_step pg we s t" by (auto simp: gateway_step_def)
  then show ?case using Cons.IH [OF reachable.step t(2)] Cons.prems(1) by blast
qed simp

declare catch_up.simps [code]

definition example_gateway :: "(nat, nat, nat, nat, nat) gateway" where
  "example_gateway = initial_gateway example_running"

definition example_poll :: poll_env where
  "example_poll = \<lparr>pe_now = 101, pe_lock = Inr True, pe_batch = Inr (example_batch_of ''plc''), pe_finished = 102\<rparr>"

definition example_turn :: round where
  "example_turn = \<lparr>rnd_now = 111000000, rnd_started_at = 111000000, rnd_failed = False, rnd_finished_at = 112000000\<rparr>"

definition example_command :: DeviceControlRequest where
  "example_command = (example_request ''r'')\<lparr>rq_device_id := ''cam''\<rparr>"

text \<open>
  A push and a control overlap with a task the scheduler has selected; then the shutdown begins, and the poll
  begins after the stop was requested.
\<close>

definition example_overlap :: "nat gateway_action list" where
  "example_overlap = [Driver_push (example_batch_of ''cam''), Source_check, Source_enter,
     Source_decide 5 example_command (Some 3), Control_next example_env, Control_begin, Poll_select 111000000, Worker_pop,
     Stop True, Stop True, Stop True, Poll_begin]"

definition example_finish :: "nat gateway_action list" where
  "example_finish = [Poll_end example_poll example_turn, Scheduler_exit, Stop True, Stop True, Stop True, Stop True, Stop True,
     Control_end example_env, Control_next example_env, Stop True, Stop True, Stop True, Stop True, Stop True, Stop True,
     Worker_process, Worker_pop, Worker_process, Worker_pop, Stop True, Stop True, Stop True]"
lemma gateway_acts_append:
  "gateway_acts pg we (as @ bs) s = Option.bind (gateway_acts pg we as s) (gateway_acts pg we bs)"
proof (induction as arbitrary: s)
  case (Cons a as)
  then show ?case by (cases "gateway_act pg we a s") simp_all
qed simp

lemma example_gateway_reachable:
  "reachable (gateway_init (example_plugins 9) example_worker) (gateway_step (example_plugins 9) example_worker) example_gateway"
  using example_new_ok(2) start_success_running_witness unfolding example_new_def
  by (intro reachable.start) (unfold gateway_init_def example_gateway_def, blast)

lemma example_worker_submits: "submitting_processor (we_process example_worker)"
  by unfold_locales (simp add: example_worker_def)

definition overlapped :: "(nat, nat, nat, nat, nat) gateway" where
  "overlapped = the (gateway_acts (example_plugins 9) example_worker example_overlap example_gateway)"

definition finished :: "(nat, nat, nat, nat, nat) gateway" where
  "finished = the (gateway_acts (example_plugins 9) example_worker example_finish overlapped)"

lemma example_run_ends:
  "gateway_acts (example_plugins 9) example_worker example_overlap example_gateway = Some overlapped"
  "gateway_acts (example_plugins 9) example_worker example_finish overlapped = Some finished"
proof -
  let ?acts = "gateway_acts (example_plugins 9) example_worker"
  have "\<not> Option.is_none (?acts example_overlap example_gateway)" by code_simp
  then show 1: "?acts example_overlap example_gateway = Some overlapped" by (auto simp: overlapped_def Option.is_none_def)
  have "\<not> Option.is_none (?acts (example_overlap @ example_finish) example_gateway)" by code_simp
  then show "?acts example_finish overlapped = Some finished"
    by (auto simp: gateway_acts_append 1 finished_def Option.is_none_def)
qed

lemma example_run_state:
  "awaited overlapped = T_scheduler" "polling_gate overlapped = Some ''plc''" "sy_control overlapped = Some ''cam''"
  "sy_phase overlapped = Ph_scheduler"
  "sy_phase finished = Ph_stopped" "map bat_device_id (sy_accepted finished) = [''cam'', ''plc'']"
  "length (dd_completed (dispatcher_of (sy_rt finished))) = 1" "length (sy_trace finished) = 24"
proof -
  have "let s = overlapped in awaited s = T_scheduler \<and> polling_gate s = Some ''plc'' \<and> sy_control s = Some ''cam'' \<and>
    sy_phase s = Ph_scheduler" by code_simp
  then show "awaited overlapped = T_scheduler" "polling_gate overlapped = Some ''plc''" "sy_control overlapped = Some ''cam''"
    "sy_phase overlapped = Ph_scheduler" unfolding Let_def by blast+
  have "let s = finished in sy_phase s = Ph_stopped \<and> map bat_device_id (sy_accepted s) = [''cam'', ''plc''] \<and>
    length (dd_completed (dispatcher_of (sy_rt s))) = 1 \<and> length (sy_trace s) = 24" by code_simp
  then show "sy_phase finished = Ph_stopped" "map bat_device_id (sy_accepted finished) = [''cam'', ''plc'']"
  "length (dd_completed (dispatcher_of (sy_rt finished))) = 1" "length (sy_trace finished) = 24" unfolding Let_def by blast+
qed

lemmas overlapped_reachable = gateway_acts_reachable [OF example_gateway_reachable example_run_ends(1)]
lemmas finished_reachable = gateway_acts_reachable [OF overlapped_reachable example_run_ends(2)]

text \<open>The concrete execution, continued for ever by ticks of the clock.\<close>

definition example_moves :: "nat \<Rightarrow> nat gateway_action" where
  "example_moves n = (if n < length example_finish then example_finish ! n else Clock 0)"

fun example_run :: "nat \<Rightarrow> (nat, nat, nat, nat, nat) gateway" where
  "example_run 0 = overlapped"
| "example_run (Suc n) = the (gateway_act (example_plugins 9) example_worker (example_moves n) (example_run n))"

lemma example_run_take:
  "n \<le> length example_finish \<Longrightarrow>
     gateway_acts (example_plugins 9) example_worker (take n example_finish) overlapped = Some (example_run n)"
proof (induction n)
  case (Suc n)
  have "take (Suc n) example_finish @ drop (Suc n) example_finish = example_finish" by simp
  then have "gateway_acts (example_plugins 9) example_worker (take (Suc n) example_finish) overlapped \<noteq> None"
    using example_run_ends(2) gateway_acts_append [of "example_plugins 9" example_worker "take (Suc n) example_finish"]
    by (metis Option.bind.simps(1) option.distinct(1))
  then show ?case
    using Suc by (auto simp: take_Suc_conv_app_nth gateway_acts_append example_moves_def split: bind_splits)
qed simp

lemma example_run_step:
  "gateway_act (example_plugins 9) example_worker (example_moves n) (example_run n) = Some (example_run (Suc n))"
proof (cases "n < length example_finish")
  case True
  then show ?thesis
    using example_run_take [of n] example_run_take [of "Suc n"]
    by (auto simp: take_Suc_conv_app_nth gateway_acts_append example_moves_def bind_eq_Some_conv)
qed (simp add: example_moves_def)

lemma example_run_stopped: "sy_phase (example_run (length example_finish + k)) = Ph_stopped"
proof (induction k)
  case 0
  have "example_run (length example_finish) = finished"
    using example_run_take [of "length example_finish"] example_run_ends(2) by simp
  then show ?case using example_run_state by simp
qed (simp add: example_moves_def)
section \<open>What the invariant says\<close>

text \<open>The trace holds the runtime's calls, in their order.\<close>

fun calls_in :: "event list \<Rightarrow> call list" where
  "calls_in [] = []"
| "calls_in (Ev_call c # es) = c # calls_in es"
| "calls_in (_ # es) = calls_in es"

lemma calls_in_append [simp]: "calls_in (xs @ ys) = calls_in xs @ calls_in ys"
  by (induction xs rule: calls_in.induct) simp_all

lemma calls_in_map [simp]: "calls_in (map Ev_call cs) = cs"
  by (induction cs) simp_all

lemma trace_records_calls_step:
  assumes "gateway_act pg we a s = Some s'" and "scheduler_inv s" and "calls_in (sy_trace s) = rt_calls (sy_rt s)"
  shows "calls_in (sy_trace s') = rt_calls (sy_rt s')"
  using assms(1,2)
proof (cases rule: act_cases)
  case (control w)
  have "calls_in (sy_trace s') = calls_in (sy_trace s)"
    using assms(1) control(1)
    by (cases a) (auto simp: control_act_defs with_dispatcher_def Let_def split: if_splits option.splits worker.splits)
  then show ?thesis using assms(3) by (simp add: control(3))
next
  case (process batch)
  then show ?thesis using assms(3) process_batch_effect [of pg we batch "sy_rt s"] by (auto simp: observe_def)
next
  case (stop alloc_ok)
  obtain e where "rt_scheduler (sy_rt s) = Some e" using assms(2) by (rule scheduler_invD)
  from stop_act_calls [OF stop(2) this] show ?thesis using assms(3) by auto
qed (use assms(3) in \<open>simp_all add: observe_def poll_frame_def\<close>)

lemma trace_records_calls:
  assumes "submitting_processor (we_process we)" and "reachable (gateway_init pg we) (gateway_step pg we) s"
  shows "calls_in (sy_trace s) = rt_calls (sy_rt s)"
  using assms(2)
proof (induction rule: reachable.induct)
  case (start s)
  then show ?case by (auto simp: gateway_init_def initial_gateway_def)
next
  case (step s t)
  then obtain a where a: "gateway_act pg we a s = Some t" by (auto simp: gateway_step_def)
  have "scheduler_inv s" using reachable_gateway_inv [OF assms(1) step(1)] by (simp add: gateway_inv_def)
  then show ?case using trace_records_calls_step [OF a] step by blast
qed

lemma stopped_batches:
  assumes "batch_inv s" and "sy_phase s = Ph_stopped"
  shows "sy_processed s = sy_accepted s" and "sy_worker s = W_ended"
  using assms by (auto simp: batch_inv_def in_progress_def)

lemma stopped_control:
  assumes "control_inv s" and "sy_phase s = Ph_stopped"
  shows "dd_worker (dispatcher_of (sy_rt s)) = Exited" and "sy_control s = None"
    and "mset (map fst (dd_completed (dispatcher_of (sy_rt s)))) = mset (dd_accepted (dispatcher_of (sy_rt s)))"
proof -
  show w: "dd_worker (dispatcher_of (sy_rt s)) = Exited" using joined_worker [OF assms(1)] assms(2) by simp
  show "sy_control s = None" using assms(1) w by (auto simp: control_inv_def Let_def)
  show "mset (map fst (dd_completed (dispatcher_of (sy_rt s)))) = mset (dd_accepted (dispatcher_of (sy_rt s)))"
    using assms by (intro joined_all_completed control_inv_disp_inv) (simp_all add: control_inv_def Let_def)
qed

lemma stopped_gates:
  assumes "gateway_inv s" and "sy_phase s = Ph_stopped"
  shows "sy_gates s = Map.empty" and "\<not> scheduler_runs (sy_rt s)"
proof -
  have i: "scheduler_inv s" "control_inv s" "gate_inv s" using assms(1) by (simp_all add: gateway_inv_def)
  obtain e where e: "rt_scheduler (sy_rt s) = Some e" "after Ph_scheduler s \<longrightarrow> \<not> se_running e"
    "\<not> se_running e \<longrightarrow> sy_polling s = None" using i(1) by (rule scheduler_invD)
  then show "\<not> scheduler_runs (sy_rt s)" using assms(2) by (simp add: scheduler_runs_def)
  have "sy_polling s = None" using e assms(2) by simp
  then show "sy_gates s = Map.empty"
    using i(3) stopped_control(2) [OF i(2) assms(2)] by (auto simp: gate_inv_def gates_held_def)
qed
text \<open>The threads that have ended by a phase.\<close>

lemma ended_after:
  assumes "gateway_inv s"
  shows "after Ph_scheduler s \<Longrightarrow> \<not> scheduler_runs (sy_rt s) \<and> sy_polling s = None"
    and "after Ph_control_join s \<Longrightarrow> dd_worker (dispatcher_of (sy_rt s)) = Exited \<and> sy_control s = None"
    and "after Ph_worker s \<Longrightarrow> sy_worker s = W_ended"
proof -
  have i: "scheduler_inv s" "control_inv s" "batch_inv s" using assms by (simp_all add: gateway_inv_def)
  obtain e where e: "rt_scheduler (sy_rt s) = Some e" "after Ph_scheduler s \<longrightarrow> \<not> se_running e"
    "\<not> se_running e \<longrightarrow> sy_polling s = None" using i(1) by (rule scheduler_invD)
  then show "after Ph_scheduler s \<Longrightarrow> \<not> scheduler_runs (sy_rt s) \<and> sy_polling s = None" by (simp add: scheduler_runs_def)
  show "after Ph_worker s \<Longrightarrow> sy_worker s = W_ended" using i(3) by (simp add: batch_inv_def)
  assume p: "after Ph_control_join s"
  have "dd_worker (dispatcher_of (sy_rt s)) = Exited" by (rule joined_worker [OF i(2) p])
  then show "dd_worker (dispatcher_of (sy_rt s)) = Exited \<and> sy_control s = None"
    using i(2) by (auto simp: control_inv_def Let_def)
qed

section \<open>Properties\<close>

text \<open>C1: no accepted batch is lost or duplicated by the threads. At every moment of every execution, the batches the raw
  queue has accepted from driver pushes and polls are, in their order, those processed, the one the worker holds and those
  still queued; every processed batch has been offered once to every publisher and counted; and when \<open>stop\<close>
  has finished, every accepted batch has been processed.\<close>

theorem gateway_loses_no_batch:
  assumes "submitting_processor (we_process we)" and "reachable (gateway_init pg we) (gateway_step pg we) s"
  shows "sy_accepted s = sy_processed s @ in_progress s @ bq_queue (rt_raw_queue (sy_rt s)) \<and>
    rt_delivered_events (sy_rt s) = of_nat (length (sy_processed s)) \<and>
    (\<exists>es. length es = length (sy_processed s) \<and>
       filter is_publish (rt_calls (sy_rt s)) = publish_calls (length (rt_event_publishers (sy_rt s))) es) \<and>
    (sy_phase s = Ph_stopped \<longrightarrow> sy_processed s = sy_accepted s)"
proof -
  have b: "batch_inv s" using reachable_gateway_inv [OF assms] by (simp add: gateway_inv_def)
  then show ?thesis using stopped_batches(1) [OF b] unfolding batch_inv_def by blast
qed

theorem gateway_loses_no_batch_witness:
  "map bat_device_id (sy_accepted finished) = [''cam'', ''plc''] \<and> sy_processed finished = sy_accepted finished"
  using gateway_loses_no_batch [OF example_worker_submits finished_reachable] example_run_state by blast

text \<open>C15: the end of \<open>stop\<close> is the end of everything. In every execution in which \<open>stop\<close> has finished, the scheduler, the
  batch worker and the dispatcher's worker have ended and no device's I/O gate is held; every control the dispatcher accepted
  has been completed exactly once; the flags say stopped; and the calls the runtime made, publications aside, are those of
  \<open>start\<close> followed by those of an orderly \<open>stop\<close>.\<close>

theorem stopped_gateway_is_settled:
  assumes "submitting_processor (we_process we)" and "reachable (gateway_init pg we) (gateway_step pg we) s"
    and "sy_phase s = Ph_stopped"
  shows "\<not> scheduler_runs (sy_rt s) \<and> sy_worker s = W_ended \<and> dd_worker (dispatcher_of (sy_rt s)) = Exited \<and>
    sy_gates s = Map.empty \<and>
    mset (map fst (dd_completed (dispatcher_of (sy_rt s)))) = mset (dd_accepted (dispatcher_of (sy_rt s))) \<and>
    rt_stopped (sy_rt s) \<and> \<not> rt_stopping (sy_rt s) \<and> \<not> rt_worker (sy_rt s) \<and> \<not> cw_accepting (rt_control (sy_rt s)) \<and>
    filter (\<lambda>c. \<not> is_publish c) (rt_calls (sy_rt s)) = start_log (sy_rt s) @ stop_log (sy_rt s) Ph_stopped"
proof -
  have i: "gateway_inv s" by (rule reachable_gateway_inv [OF assms(1,2)])
  then have p: "batch_inv s" "control_inv s" "stage_inv s" "log_inv s" by (simp_all add: gateway_inv_def)
  have "rt_stopped (sy_rt s) \<and> \<not> rt_stopping (sy_rt s) \<and> \<not> rt_worker (sy_rt s) \<and> \<not> cw_accepting (rt_control (sy_rt s))"
    using p(2,3) assms(3) by (simp add: stage_inv_def control_inv_def Let_def)
  then show ?thesis
    using stopped_batches(2) [OF p(1) assms(3)] stopped_control [OF p(2) assms(3)] stopped_gates [OF i assms(3)] p(4) assms(3)
    by (simp add: log_inv_def)
qed

theorem stopped_gateway_is_settled_witness:
  "length (dd_completed (dispatcher_of (sy_rt finished))) = 1 \<and>
   mset (map fst (dd_completed (dispatcher_of (sy_rt finished)))) = mset (dd_accepted (dispatcher_of (sy_rt finished))) \<and>
   sy_gates finished = Map.empty \<and> rt_stopped (sy_rt finished)"
  using stopped_gateway_is_settled [OF example_worker_submits finished_reachable example_run_state(5)] example_run_state by simp

text \<open>C4: shutting down, the gateway falls silent in order. In every execution the calls the runtime made stand in the trace
  together with the polls and controls that reached drivers, and nothing stands behind what must end it: no poll
  after the scheduler was joined, no control after the dispatcher was, neither after any driver was stopped, no
  publication after the worker was joined or any publisher was stopped. Nor is anything under way any more when it is
  logged: behind the join of the scheduler its loop has ended and no task is selected or being polled, behind the join of the
  dispatcher its worker has ended and no control is in a driver, both hold behind the stop of a driver, and behind the join of
  the batch worker that has ended. At every moment a device's I/O gate is held exactly by
  the thread that is in its driver, so a poll and a control of one device never overlap.\<close>

theorem gateway_falls_silent:
  assumes "submitting_processor (we_process we)" and "reachable (gateway_init pg we) (gateway_step pg we) s"
  shows "sorted_wrt (\<lambda>x y. \<not> silences x y) (sy_trace s) \<and> calls_in (sy_trace s) = rt_calls (sy_rt s) \<and>
    (\<forall>gate. (sy_gates s gate = Some By_poll \<longleftrightarrow> polling_gate s = Some gate) \<and>
       (sy_gates s gate = Some By_control \<longleftrightarrow> sy_control s = Some gate)) \<and>
    (\<forall>c. Ev_call c \<in> set (sy_trace s) \<longrightarrow>
       (c = C_scheduler_stop \<or> (\<exists>n. c = C_driver_stop n) \<longrightarrow> \<not> scheduler_runs (sy_rt s) \<and> sy_polling s = None) \<and>
       (c = C_dispatcher_stop \<or> (\<exists>n. c = C_driver_stop n) \<longrightarrow>
          dd_worker (dispatcher_of (sy_rt s)) = Exited \<and> sy_control s = None) \<and>
       (c = C_worker_join \<or> (\<exists>n. c = C_publisher_stop n) \<longrightarrow> sy_worker s = W_ended))"
proof -
  have i: "gateway_inv s" by (rule reachable_gateway_inv [OF assms])
  then have t: "trace_inv s" and "gate_inv s" by (simp_all add: gateway_inv_def)
  then have "sorted_wrt (\<lambda>x y. \<not> silences x y) (sy_trace s) \<and> calls_in (sy_trace s) = rt_calls (sy_rt s) \<and>
    (\<forall>gate. (sy_gates s gate = Some By_poll \<longleftrightarrow> polling_gate s = Some gate) \<and>
       (sy_gates s gate = Some By_control \<longleftrightarrow> sy_control s = Some gate))"
    using trace_records_calls [OF assms] by (auto simp: trace_inv_def gate_inv_def gates_held_def)
  moreover have "after (last_phase y) s" if "Ev_call c \<in> set (sy_trace s)" "silences (Ev_call c) y" for c y
    using t that by (auto simp: trace_inv_def)
  note silent = this [where y = "Ev_poll []"] this [where y = "Ev_control []"] this [where y = "Ev_call (C_publish 0 undefined)"]
  ultimately show ?thesis using ended_after [OF i] silent by (intro conjI allI impI) (auto simp del: split_paired_All)
qed

theorem gateway_falls_silent_witness:
  "length (sy_trace finished) = 24 \<and> sorted_wrt (\<lambda>x y. \<not> silences x y) (sy_trace finished) \<and>
   sy_gates overlapped ''plc'' = Some By_poll \<and> sy_gates overlapped ''cam'' = Some By_control"
  using gateway_falls_silent [OF example_worker_submits finished_reachable]
    gateway_falls_silent [OF example_worker_submits overlapped_reachable] example_run_state by simp



text \<open>C3: \<open>stop\<close> returns. Once \<open>stop\<close> has begun, every infinite execution of all the threads in which the thread
  waited for takes a step again and again reaches the end of \<open>stop\<close>, whatever the drivers push, the sources submit and
  the other threads do in between.\<close>

theorem gateway_shutdown_completes:
  assumes "submitting_processor (we_process we)"
    and "reachable (gateway_init pg we) (gateway_step pg we) (run 0)" and "after Ph_running (run 0)"
    and "\<And>n. gateway_act pg we (moves n) (run n) = Some (run (Suc n))"
    and "\<And>n. \<exists>m \<ge> n. thread_of (moves m) = awaited (run m) \<or> sy_phase (run m) = Ph_stopped"
  shows "\<exists>n. sy_phase (run n) = Ph_stopped"
  using assms by (rule fair_run_stops)

theorem gateway_shutdown_completes_witness:
  "sy_phase (example_run 0) = Ph_scheduler \<and> (\<exists>n. sy_phase (example_run n) = Ph_stopped)"
proof -
  have fair: "\<exists>m \<ge> n. thread_of (example_moves m) = awaited (example_run m) \<or> sy_phase (example_run m) = Ph_stopped" for n
    using example_run_stopped by (metis le_add2)
  have begun: "reachable (gateway_init (example_plugins 9) example_worker) (gateway_step (example_plugins 9) example_worker) (example_run 0)"
    "after Ph_running (example_run 0)"
    using overlapped_reachable example_run_state(4) by simp_all
  show ?thesis
    using gateway_shutdown_completes [OF example_worker_submits begun example_run_step fair] example_run_state(4) by simp
qed

end
