(* ===== verification/Protocol.thy ===== *)
theory Protocol
  imports Gateway_Shutdown
begin

text \<open>
  The protocol between the gateway and its plugins and threads: which of them are alive, and what the gateway may do to
  them then. The lists of calls of \<open>start\<close>, its rollback and \<open>stop\<close> follow it, and so does every execution of
  the threads, polls and controls inside drivers included.
\<close>

section \<open>A protocol for the calls\<close>

text \<open>
  The plugins and threads that are alive, and which calls the gateway may make then. No plugin is
  started twice or stopped unstarted, none is stopped while a thread that calls it lives, the raw queue is closed when no
  driver is left to push, and an event is published by a living worker to a started publisher.
\<close>

datatype resource =
    R_publisher nat | R_driver nat | R_source nat | R_dispatcher | R_worker | R_scheduler

fun is_driver :: "resource \<Rightarrow> bool" where
  "is_driver (R_driver n) = True"
| "is_driver _ = False"

fun allowed :: "call \<Rightarrow> resource set \<Rightarrow> bool" where
  "allowed (C_publisher_start n) rs = (R_publisher n \<notin> rs)"
| "allowed (C_driver_start n) rs = (R_driver n \<notin> rs)"
| "allowed C_dispatcher_start rs = (R_dispatcher \<notin> rs)"
| "allowed C_worker_start rs = (R_worker \<notin> rs)"
| "allowed (C_source_start n) rs = (R_source n \<notin> rs \<and> R_dispatcher \<in> rs)"
| "allowed C_scheduler_start rs = (R_scheduler \<notin> rs \<and> R_worker \<in> rs)"
| "allowed (C_source_request_stop n) rs = (R_source n \<in> rs)"
| "allowed C_scheduler_stop rs = True"
| "allowed C_dispatcher_stop rs = (R_dispatcher \<in> rs)"
| "allowed (C_source_stop n) rs = (R_source n \<in> rs \<and> R_dispatcher \<notin> rs)"
| "allowed (C_driver_stop n) rs = (R_driver n \<in> rs \<and> R_scheduler \<notin> rs \<and> R_dispatcher \<notin> rs)"
| "allowed C_queue_close rs = (\<forall>r \<in> rs. \<not> is_driver r)"
| "allowed C_worker_join rs = (R_worker \<in> rs)"
| "allowed (C_publisher_stop n) rs = (R_publisher n \<in> rs \<and> R_worker \<notin> rs)"
| "allowed (C_publish n e) rs = (R_publisher n \<in> rs \<and> R_worker \<in> rs)"

fun alive_after :: "call \<Rightarrow> resource set \<Rightarrow> resource set" where
  "alive_after (C_publisher_start n) rs = insert (R_publisher n) rs"
| "alive_after (C_driver_start n) rs = insert (R_driver n) rs"
| "alive_after C_dispatcher_start rs = insert R_dispatcher rs"
| "alive_after C_worker_start rs = insert R_worker rs"
| "alive_after (C_source_start n) rs = insert (R_source n) rs"
| "alive_after C_scheduler_start rs = insert R_scheduler rs"
| "alive_after C_scheduler_stop rs = rs - {R_scheduler}"
| "alive_after C_dispatcher_stop rs = rs - {R_dispatcher}"
| "alive_after (C_source_stop n) rs = rs - {R_source n}"
| "alive_after (C_driver_stop n) rs = rs - {R_driver n}"
| "alive_after C_worker_join rs = rs - {R_worker}"
| "alive_after (C_publisher_stop n) rs = rs - {R_publisher n}"
| "alive_after (C_source_request_stop n) rs = rs"
| "alive_after C_queue_close rs = rs"
| "alive_after (C_publish n e) rs = rs"

fun tracks :: "call list \<Rightarrow> resource set \<Rightarrow> resource set option" where
  "tracks [] rs = Some rs"
| "tracks (c # cs) rs = (if allowed c rs then tracks cs (alive_after c rs) else None)"

lemma tracks_append: "tracks (cs @ ds) rs = Option.bind (tracks cs rs) (tracks ds)"
  by (induction cs arbitrary: rs) auto

lemma tracks_adds:
  assumes "distinct ns" and "\<forall>n \<in> set ns. r n \<notin> rs" and "inj r"
    and "\<And>n rs'. rs \<subseteq> rs' \<Longrightarrow> r n \<notin> rs' \<Longrightarrow> n \<in> set ns \<Longrightarrow> allowed (mk n) rs' \<and> alive_after (mk n) rs' = insert (r n) rs'"
  shows "tracks (map mk ns) rs = Some (rs \<union> r ` set ns)"
  using assms(1,2,4)
proof (induction ns arbitrary: rs)
  case (Cons a ns)
  have "tracks (map mk ns) (insert (r a) rs) = Some (insert (r a) rs \<union> r ` set ns)"
  proof (rule Cons.IH)
    show "\<forall>n \<in> set ns. r n \<notin> insert (r a) rs" using Cons.prems(1,2) assms(3) by (auto dest: injD)
  qed (use Cons.prems in auto)
  then show ?case using Cons.prems(2) Cons.prems(3) [of rs a] by simp
qed simp

lemma tracks_removes:
  assumes "distinct ns" and "\<forall>n \<in> set ns. r n \<in> rs" and "inj r"
    and "\<And>n rs'. rs' \<subseteq> rs \<Longrightarrow> r n \<in> rs' \<Longrightarrow> allowed (mk n) rs' \<and> alive_after (mk n) rs' = rs' - {r n}"
  shows "tracks (map mk ns) rs = Some (rs - r ` set ns)"
  using assms(1,2,4)
proof (induction ns arbitrary: rs)
  case (Cons a ns)
  have "tracks (map mk ns) (rs - {r a}) = Some (rs - {r a} - r ` set ns)"
  proof (rule Cons.IH)
    show "\<forall>n \<in> set ns. r n \<in> rs - {r a}" using Cons.prems(1,2) assms(3) by (auto dest: injD)
    show "allowed (mk n) rs' \<and> alive_after (mk n) rs' = rs' - {r n}" if "rs' \<subseteq> rs - {r a}" "r n \<in> rs'" for n rs'
      using that by (intro Cons.prems(3)) auto
  qed (use Cons.prems(1) in simp)
  moreover have "rs - {r a} - r ` set ns = rs - r ` set (a # ns)" by auto
  ultimately show ?case using Cons.prems(2) Cons.prems(3) [of rs a] by simp
qed simp

lemma inj_resources: "inj R_publisher" "inj R_driver" "inj R_source"
  by (simp_all add: inj_def)

lemma tracks_publisher_starts:
  "distinct ns \<Longrightarrow> \<forall>n \<in> set ns. R_publisher n \<notin> rs \<Longrightarrow>
     tracks (map C_publisher_start ns) rs = Some (rs \<union> R_publisher ` set ns)"
  by (rule tracks_adds) (simp_all add: inj_resources)

lemma tracks_driver_starts:
  "distinct ns \<Longrightarrow> \<forall>n \<in> set ns. R_driver n \<notin> rs \<Longrightarrow>
     tracks (map C_driver_start ns) rs = Some (rs \<union> R_driver ` set ns)"
  by (rule tracks_adds) (simp_all add: inj_resources)

lemma tracks_source_starts:
  "distinct ns \<Longrightarrow> \<forall>n \<in> set ns. R_source n \<notin> rs \<Longrightarrow> ns = [] \<or> R_dispatcher \<in> rs \<Longrightarrow>
     tracks (map C_source_start ns) rs = Some (rs \<union> R_source ` set ns)"
  by (rule tracks_adds) (auto simp: inj_resources)

lemma tracks_publisher_stops:
  "distinct ns \<Longrightarrow> \<forall>n \<in> set ns. R_publisher n \<in> rs \<Longrightarrow> R_worker \<notin> rs \<Longrightarrow>
     tracks (map C_publisher_stop ns) rs = Some (rs - R_publisher ` set ns)"
  by (rule tracks_removes) (auto simp: inj_resources)

lemma tracks_driver_stops:
  "distinct ns \<Longrightarrow> \<forall>n \<in> set ns. R_driver n \<in> rs \<Longrightarrow> R_scheduler \<notin> rs \<Longrightarrow> R_dispatcher \<notin> rs \<Longrightarrow>
     tracks (map C_driver_stop ns) rs = Some (rs - R_driver ` set ns)"
  by (rule tracks_removes) (auto simp: inj_resources)

lemma tracks_source_stops:
  "distinct ns \<Longrightarrow> \<forall>n \<in> set ns. R_source n \<in> rs \<Longrightarrow> R_dispatcher \<notin> rs \<Longrightarrow>
     tracks (map C_source_stop ns) rs = Some (rs - R_source ` set ns)"
  by (rule tracks_removes) (auto simp: inj_resources)

lemma tracks_source_requests:
  "\<forall>n \<in> set ns. R_source n \<in> rs \<Longrightarrow> tracks (map C_source_request_stop ns) rs = Some rs"
  by (induction ns) auto

lemmas tracks_starts = tracks_publisher_starts tracks_driver_starts tracks_source_starts

lemmas tracks_stops = tracks_publisher_stops tracks_driver_stops tracks_source_stops tracks_source_requests

lemma tracks_publishing:
  assumes "es = [] \<or> R_worker \<in> rs" and "es = [] \<or> (\<forall>n < k. R_publisher n \<in> rs)"
  shows "tracks (publish_calls k es) rs = Some rs"
proof -
  have "tracks cs rs = Some rs" if "\<forall>c \<in> set cs. \<exists>n e. c = C_publish n e \<and> R_publisher n \<in> rs" "R_worker \<in> rs" for cs
    using that by (induction cs) auto
  then show ?thesis using assms by (cases "es = []") (auto simp: publish_calls_def)
qed

text \<open>What is alive after a start that got as far as \<open>l\<close>.\<close>

definition alive_of :: "start_locals \<Rightarrow> bool \<Rightarrow> bool \<Rightarrow> resource set" where
  "alive_of l worker scheduler =
     R_publisher ` {..<sl_publishers l} \<union> R_driver ` {..<sl_drivers l} \<union> R_source ` {..<sl_sources l} \<union>
     (if sl_dispatcher l then {R_dispatcher} else {}) \<union> (if worker then {R_worker} else {}) \<union>
     (if scheduler then {R_scheduler} else {})"

lemma tracks_start_calls:
  assumes "in_start_order n l worker" and "scheduler \<longrightarrow> worker"
  shows "tracks (start_calls l worker scheduler) {} = Some (alive_of l worker scheduler)"
proof -
  let ?P = "R_publisher ` {..<sl_publishers l}" and ?D = "R_driver ` {..<sl_drivers l}" and ?S = "R_source ` {..<sl_sources l}"
  let ?d = "if sl_dispatcher l then {R_dispatcher} else {}" and ?w = "if worker then {R_worker} else {}"
  have "tracks (map C_publisher_start [0..<sl_publishers l]) {} = Some ?P" by (subst tracks_starts(1)) auto
  moreover have "tracks (map C_driver_start [0..<sl_drivers l]) ?P = Some (?P \<union> ?D)" by (subst tracks_starts(2)) auto
  moreover have "tracks (if sl_dispatcher l then [C_dispatcher_start] else []) (?P \<union> ?D) = Some (?P \<union> ?D \<union> ?d)" by auto
  moreover have "tracks (if worker then [C_worker_start] else []) (?P \<union> ?D \<union> ?d) = Some (?P \<union> ?D \<union> ?d \<union> ?w)" by auto
  moreover have "tracks (map C_source_start [0..<sl_sources l]) (?P \<union> ?D \<union> ?d \<union> ?w) = Some (?P \<union> ?D \<union> ?d \<union> ?w \<union> ?S)"
    using assms(1) by (subst tracks_starts(3)) (auto simp: in_start_order_def)
  moreover have "tracks (if scheduler then [C_scheduler_start] else []) (?P \<union> ?D \<union> ?d \<union> ?w \<union> ?S) =
      Some (alive_of l worker scheduler)"
    using assms(2) by (auto simp: alive_of_def)
  ultimately show ?thesis by (simp only: start_calls_def tracks_append bind.bind_lunit)
qed

text \<open>One list of calls for the ways down: the rollback of \<open>start\<close>, and \<open>stop\<close>.\<close>

lemma tracks_way_down:
  assumes "in_start_order n l worker" and "es \<noteq> [] \<longrightarrow> worker" and "distinct ns" and "set ns = {..<sl_drivers l}"
    and "started \<longrightarrow> scheduler"
  shows "tracks (map C_source_request_stop (rev [0..<sl_sources l]) @
      (if scheduler then [C_scheduler_stop] else []) @
      (if sl_dispatcher l then [C_dispatcher_stop] else []) @
      map C_source_stop (rev [0..<sl_sources l]) @ map C_driver_stop ns @
      [C_queue_close] @ publish_calls n es @ (if worker then [C_worker_join] else []) @
      map C_publisher_stop (rev [0..<sl_publishers l])) (alive_of l worker started) = Some {}"
proof -
  let ?P = "R_publisher ` {..<sl_publishers l}" and ?D = "R_driver ` {..<sl_drivers l}" and ?S = "R_source ` {..<sl_sources l}"
  let ?a = "alive_of l worker started" and ?w = "if worker then {R_worker} else {}"
  let ?d = "if sl_dispatcher l then {R_dispatcher} else {}"
  have a: "?a = ?P \<union> ?D \<union> ?S \<union> ?d \<union> ?w \<union> (if started then {R_scheduler} else {})" by (simp add: alive_of_def)
  have "tracks (map C_source_request_stop (rev [0..<sl_sources l])) ?a = Some ?a"
    by (rule tracks_stops(4)) (auto simp: a)
  moreover have "tracks (if scheduler then [C_scheduler_stop] else []) ?a = Some (?P \<union> ?D \<union> ?S \<union> ?d \<union> ?w)"
    using assms(5) by (auto simp: a)
  moreover have "tracks (if sl_dispatcher l then [C_dispatcher_stop] else []) (?P \<union> ?D \<union> ?S \<union> ?d \<union> ?w) =
      Some (?P \<union> ?D \<union> ?S \<union> ?w)" by auto
  moreover have "tracks (map C_source_stop (rev [0..<sl_sources l])) (?P \<union> ?D \<union> ?S \<union> ?w) = Some (?P \<union> ?D \<union> ?w)"
    by (subst tracks_stops(3)) auto
  moreover have "tracks (map C_driver_stop ns) (?P \<union> ?D \<union> ?w) = Some (?P \<union> ?w)"
    using assms(3,4) by (subst tracks_stops(2)) auto
  moreover have "tracks [C_queue_close] (?P \<union> ?w) = Some (?P \<union> ?w)" by auto
  moreover have "tracks (publish_calls n es) (?P \<union> ?w) = Some (?P \<union> ?w)"
    using assms(1,2) by (intro tracks_publishing) (auto simp: in_start_order_def)
  moreover have "tracks (if worker then [C_worker_join] else []) (?P \<union> ?w) = Some ?P" by auto
  moreover have "tracks (map C_publisher_stop (rev [0..<sl_publishers l])) ?P = Some {}"
    by (subst tracks_stops(1)) auto
  ultimately show ?thesis by (simp only: tracks_append bind.bind_lunit)
qed

section \<open>The running gateway follows the protocol\<close>

text \<open>
  In the trace of the threads polls and controls of drivers stand between the calls. \<open>devices\<close> are the devices of the
  drivers in order: a poll needs its driver and the scheduler alive, a control its driver and the dispatcher.
\<close>

definition serves :: "string list \<Rightarrow> string \<Rightarrow> resource set \<Rightarrow> bool" where
  "serves devices device rs \<longleftrightarrow> (\<exists>n < length devices. devices ! n = device \<and> R_driver n \<in> rs)"

fun permitted :: "string list \<Rightarrow> event \<Rightarrow> resource set \<Rightarrow> bool" where
  "permitted devices (Ev_call c) rs = allowed c rs"
| "permitted devices (Ev_poll device) rs = (R_scheduler \<in> rs \<and> serves devices device rs)"
| "permitted devices (Ev_control device) rs = (R_dispatcher \<in> rs \<and> serves devices device rs)"

fun alive_then :: "event \<Rightarrow> resource set \<Rightarrow> resource set" where
  "alive_then (Ev_call c) rs = alive_after c rs"
| "alive_then _ rs = rs"

fun follows :: "string list \<Rightarrow> event list \<Rightarrow> resource set \<Rightarrow> resource set option" where
  "follows devices [] rs = Some rs"
| "follows devices (x # xs) rs = (if permitted devices x rs then follows devices xs (alive_then x rs) else None)"

lemma follows_append: "follows devices (xs @ ys) rs = Option.bind (follows devices xs rs) (follows devices ys)"
  by (induction xs arbitrary: rs) auto

lemma follows_calls: "follows devices (map Ev_call cs) rs = tracks cs rs"
  by (induction cs arbitrary: rs) auto

text \<open>What is alive in each phase of \<open>stop\<close>.\<close>

definition driver_mode :: "('d, 'b, 's, 'p, 'c) GatewayRuntime \<Rightarrow> nat \<Rightarrow> AcquisitionMode option" where
  "driver_mode rt n = rt_driver_modes rt (di_device_id (rt_drivers rt ! n))"

definition living :: "('d, 'b, 's, 'p, 'c) GatewayRuntime \<Rightarrow> phase \<Rightarrow> resource set" where
  "living rt p =
     (if rank p \<le> rank Ph_publishers then R_publisher ` {..<length (rt_event_publishers rt)} else {}) \<union>
     R_driver ` {n. n < length (rt_drivers rt) \<and>
       rank p \<le> rank (if driver_mode rt n = Some Mode_Push then Ph_push else Ph_poll)} \<union>
     (if rank p \<le> rank Ph_sources then R_source ` {..<length (rt_sources rt)} else {}) \<union>
     (if rank p \<le> rank Ph_scheduler then {R_scheduler} else {}) \<union>
     (if rank p \<le> rank Ph_control_join then {R_dispatcher} else {}) \<union>
     (if rank p \<le> rank Ph_worker then {R_worker} else {})"

lemma stop_drivers_of_list:
  "stop_drivers_of m rt = map C_driver_stop (filter (\<lambda>n. driver_mode rt n = Some m) [0..<length (rt_drivers rt)])"
proof -
  have "enumerate 0 (rt_drivers rt) = map (\<lambda>n. (n, rt_drivers rt ! n)) [0..<length (rt_drivers rt)]"
    by (rule nth_equalityI) (simp_all add: nth_enumerate_eq)
  then show ?thesis by (simp add: stop_drivers_of_def filter_map comp_def driver_mode_def)
qed

lemma mem_living [simp]:
  "R_publisher n \<in> living rt p \<longleftrightarrow> n < length (rt_event_publishers rt) \<and> rank p \<le> 11"
  "R_driver n \<in> living rt p \<longleftrightarrow> n < length (rt_drivers rt) \<and> rank p \<le> (if driver_mode rt n = Some Mode_Push then 7 else 8)"
  "R_source n \<in> living rt p \<longleftrightarrow> n < length (rt_sources rt) \<and> rank p \<le> 6"
  "R_scheduler \<in> living rt p \<longleftrightarrow> rank p \<le> 3"
  "R_dispatcher \<in> living rt p \<longleftrightarrow> rank p \<le> 5"
  "R_worker \<in> living rt p \<longleftrightarrow> rank p \<le> 10"
  by (auto simp: living_def)

lemma resource_set_eqI:
  fixes rs rs' :: "resource set"
  assumes "\<And>n. R_publisher n \<in> rs \<longleftrightarrow> R_publisher n \<in> rs'" and "\<And>n. R_driver n \<in> rs \<longleftrightarrow> R_driver n \<in> rs'"
    and "\<And>n. R_source n \<in> rs \<longleftrightarrow> R_source n \<in> rs'" and "R_scheduler \<in> rs \<longleftrightarrow> R_scheduler \<in> rs'"
    and "R_dispatcher \<in> rs \<longleftrightarrow> R_dispatcher \<in> rs'" and "R_worker \<in> rs \<longleftrightarrow> R_worker \<in> rs'"
  shows "rs = rs'"
proof (rule set_eqI)
  fix r
  show "r \<in> rs \<longleftrightarrow> r \<in> rs'" by (induction r) (rule assms)+
qed

lemma no_living_driver: "8 < rank p \<Longrightarrow> r \<in> living rt p \<Longrightarrow> \<not> is_driver r"
  by (cases r) (auto split: if_splits)

text \<open>The calls with which \<open>stop\<close> leaves a phase are permitted, and end what the next phase lacks.\<close>

lemma leaving_living:
  assumes "rank q = Suc (rank p)" and "\<forall>n < length (rt_drivers rt). driver_mode rt n \<noteq> None"
  shows "tracks (leaving rt p) (living rt p) = Some (living rt q)"
proof -
  have modes: "m = Some Mode_Poll \<longleftrightarrow> m \<noteq> Some Mode_Push" if "m \<noteq> None" for m
    using that by (cases m; cases "the m") auto
  have stops: "tracks (map C_source_stop (rev [0..<length (rt_sources rt)])) (living rt p) =
      Some (living rt p - R_source ` {..<length (rt_sources rt)})" if "p = Ph_sources"
    using that by (subst tracks_source_stops) (auto simp: atLeast0LessThan)
  have drivers: "tracks (map C_driver_stop (filter P [0..<length (rt_drivers rt)])) (living rt p) =
      Some (living rt p - R_driver ` {n. n < length (rt_drivers rt) \<and> P n})"
    if "p = Ph_push \<or> p = Ph_poll \<and> (\<forall>n < length (rt_drivers rt). P n \<longrightarrow> driver_mode rt n \<noteq> Some Mode_Push)" for P
  proof -
    have "{n. n < length (rt_drivers rt) \<and> P n} = set (filter P [0..<length (rt_drivers rt)])" by auto
    then show ?thesis using that by (subst tracks_driver_stops) auto
  qed
  have publishers: "tracks (map C_publisher_stop (rev [0..<length (rt_event_publishers rt)])) (living rt p) =
      Some (living rt p - R_publisher ` {..<length (rt_event_publishers rt)})" if "p = Ph_publishers"
    using that by (subst tracks_publisher_stops) (auto simp: atLeast0LessThan)
  have requests: "tracks (map C_source_request_stop (rev [0..<length (rt_sources rt)])) (living rt p) = Some (living rt p)"
    if "p = Ph_begun"
    using that by (intro tracks_source_requests) auto
  have next_phase: "tracks (leaving rt p) (living rt p) = Some (living rt q)"
    if "tracks (leaving rt p) (living rt p) = Some rs" and "rs = living rt q" for rs
    using that by simp
  show ?thesis
  proof (cases p)
    case Ph_begun
    show ?thesis
      by (rule next_phase, simp add: Ph_begun requests [OF Ph_begun, unfolded Ph_begun], rule resource_set_eqI)
        (use assms(1) Ph_begun in auto)
  next
    case Ph_sources
    show ?thesis
      by (rule next_phase, simp add: Ph_sources stops [OF Ph_sources, unfolded Ph_sources], rule resource_set_eqI)
        (use assms(1) Ph_sources in auto)
  next
    case Ph_push
    show ?thesis
      by (rule next_phase, simp add: Ph_push stop_drivers_of_list drivers [OF disjI1, OF Ph_push, unfolded Ph_push], rule resource_set_eqI)
        (use assms(1) Ph_push in auto)
  next
    case Ph_poll
    have polls: "tracks (leaving rt p) (living rt p) =
        Some (living rt p - R_driver ` {n. n < length (rt_drivers rt) \<and> driver_mode rt n = Some Mode_Poll})"
      using drivers [of "\<lambda>n. driver_mode rt n = Some Mode_Poll"] Ph_poll by (simp add: stop_drivers_of_list)
    show ?thesis
      by (rule next_phase [OF polls], rule resource_set_eqI) (use assms Ph_poll modes in auto)
  next
    case Ph_publishers
    show ?thesis
      by (rule next_phase, simp add: Ph_publishers publishers [OF Ph_publishers, unfolded Ph_publishers], rule resource_set_eqI)
        (use assms(1) Ph_publishers in auto)
  next
    case Ph_close
    have "\<forall>r \<in> living rt Ph_close. \<not> is_driver r" using no_living_driver [of Ph_close _ rt] by auto
    then show ?thesis
      by (intro next_phase, simp add: Ph_close, intro resource_set_eqI) (use assms(1) Ph_close in auto)
  qed (rule next_phase, simp, rule resource_set_eqI; use assms(1) in auto)+
qed

text \<open>The invariant of the threads: the trace follows the protocol and leaves alive what belongs to the phase.\<close>

abbreviation device_ids :: "('d, 'b, 's, 'p, 'c) GatewayRuntime \<Rightarrow> string list" where
  "device_ids rt \<equiv> map di_device_id (rt_drivers rt)"

definition protocol_inv :: "('d, 'b, 's, 'p, 'c) gateway \<Rightarrow> bool" where
  "protocol_inv s \<longleftrightarrow> follows (device_ids (sy_rt s)) (sy_trace s) {} = Some (living (sy_rt s) (sy_phase s))"

lemma living_wiring:
  assumes "wiring rt' = wiring rt"
  shows "living rt' p = living rt p" and "device_ids rt' = device_ids rt"
  using wiringD [OF assms] by (simp_all add: living_def driver_mode_def)

lemma protocol_inv_append:
  assumes "protocol_inv s" and "wiring (sy_rt s') = wiring (sy_rt s)" and "sy_trace s' = sy_trace s @ xs"
    and "follows (device_ids (sy_rt s)) xs (living (sy_rt s) (sy_phase s)) = Some (living (sy_rt s) (sy_phase s'))"
  shows "protocol_inv s'"
  using assms by (simp add: protocol_inv_def follows_append living_wiring [OF assms(2)])

lemma protocol_inv_stop:
  assumes "stop_act alloc_ok s = Some s'" and "scheduler_inv s" and "stage_inv s" and "protocol_inv s"
  shows "protocol_inv s'"
proof -
  obtain e where "rt_scheduler (sy_rt s) = Some e" using assms(2) by (rule scheduler_invD)
  note c = stop_act_calls [OF assms(1) this]
  have modes: "\<forall>n < length (rt_drivers (sy_rt s)). driver_mode (sy_rt s) n \<noteq> None"
    using assms(3) by (simp add: stage_inv_def driver_mode_def Let_def)
  from c consider (same) "sy_phase s' = sy_phase s" "sy_trace s' = sy_trace s"
    | (left) "rank (sy_phase s') = Suc (rank (sy_phase s))" "sy_trace s' = sy_trace s @ map Ev_call (leaving (sy_rt s) (sy_phase s))"
    by auto
  then show ?thesis
  proof cases
    case same
    then show ?thesis using c by (intro protocol_inv_append [OF assms(4), where xs = "[]"]) simp_all
  next
    case left
    then show ?thesis
      using c leaving_living [OF left(1) modes] by (intro protocol_inv_append [OF assms(4) _ left(2)]) (simp_all add: follows_calls)
  qed
qed

lemma serves_living:
  assumes "device \<in> di_device_id ` set (rt_drivers rt)" and "rank p \<le> 7"
  shows "serves (device_ids rt) device (living rt p)"
proof -
  from assms(1) obtain n where "n < length (rt_drivers rt)" "di_device_id (rt_drivers rt ! n) = device"
    by (auto simp: in_set_conv_nth)
  then show ?thesis using assms(2) by (auto simp: serves_def)
qed

lemma poll_target_device:
  assumes "poll_target i rt = Some gate"
  shows "gate \<in> di_device_id ` set (rt_drivers rt)"
proof -
  have "\<exists>g. \<not> isl (find_driver (rt_drivers rt) g) \<and> find_io_gate (rt_io_gates rt) g = Some gate"
    using assms by (auto simp: poll_target_def split: option.splits sum.splits if_splits)
  then obtain g where g: "\<not> isl (find_driver (rt_drivers rt) g)" "find_io_gate (rt_io_gates rt) g = Some gate" by blast
  then have "gate = g" by (auto simp: find_io_gate_iff split: if_splits)
  moreover have "x \<in> set is \<and> di_device_id x = g" if "find (\<lambda>item. di_device_id item = g) is = Some x" for x "is"
    using that by (auto simp: find_Some_iff)
  ultimately show ?thesis using g(1) by (fastforce simp: find_driver_def split: option.splits)
qed

lemma protocol_inv_control:
  assumes "gateway_act pg we a s = Some s'" and "control_action a" and "control_inv s" and "protocol_inv s"
  shows "protocol_inv s'"
proof -
  obtain w where "sy_rt s' = (sy_rt s)\<lparr>rt_control := w\<rparr>" "sy_phase s' = sy_phase s"
    using control_only_act [OF assms(1,2)] by (auto simp: control_only_def)
  then have frame: "wiring (sy_rt s') = wiring (sy_rt s)" "sy_phase s' = sy_phase s" by (simp_all add: wiring_def)
  show ?thesis
  proof (cases "a = Control_begin")
    case True
    then obtain operation gate where g: "dd_worker (dispatcher_of (sy_rt s)) = Executing operation"
      "sy_trace s' = sy_trace s @ [Ev_control gate]" "device_known (sy_rt s) (rq_device_id (op_request operation))"
      "find_io_gate (rt_io_gates (sy_rt s)) (rq_device_id (op_request operation)) = Some gate"
      using assms(1) by (auto simp: control_begin_def Let_def split: worker.splits option.splits if_splits)
    have "rq_device_id (op_request operation) = gate" using g(4) by (simp add: find_io_gate_iff split: if_splits)
    then have "gate \<in> di_device_id ` set (rt_drivers (sy_rt s))" using g(3) [unfolded device_known_def] find_driver_ptr_None [of gate "rt_drivers (sy_rt s)"] by blast
    moreover have "\<not> after Ph_control_join s" using joined_worker [OF assms(3)] g(1) by auto
    ultimately show ?thesis
      using serves_living [of gate "sy_rt s" "sy_phase s"] frame by (intro protocol_inv_append [OF assms(4) frame(1) g(2)]) simp
  next
    case False
    then have "sy_trace s' = sy_trace s"
      using assms(1,2) by (cases a; auto simp: control_act_defs Let_def split: worker.splits option.splits if_splits)+
    then show ?thesis using frame by (intro protocol_inv_append [OF assms(4) frame(1), where xs = "[]"]) simp_all
  qed
qed

lemma protocol_inv_step:
  assumes "gateway_act pg we a s = Some s'" and "gateway_inv s" and "protocol_inv s"
  shows "protocol_inv s'"
proof -
  have sc: "scheduler_inv s" and st: "stage_inv s" and b: "batch_inv s" and ct: "control_inv s"
    using assms(2) by (simp_all add: gateway_inv_def)
  show ?thesis
  proof (cases "\<exists>alloc_ok. a = Stop alloc_ok")
    case True
    then show ?thesis using assms(1) protocol_inv_stop sc st assms(3) by auto
  next
    case False
    then have frame: "sy_phase s' = sy_phase s" "wiring (sy_rt s') = wiring (sy_rt s)"
      using other_act_frame [OF assms(1) sc] by auto
    have more: "protocol_inv s'" if "sy_trace s' = sy_trace s @ xs"
      "follows (device_ids (sy_rt s)) xs (living (sy_rt s) (sy_phase s)) = Some (living (sy_rt s) (sy_phase s))" for xs
      using that frame by (intro protocol_inv_append [OF assms(3)]) simp_all
    have same: "protocol_inv s'" if "sy_trace s' = sy_trace s" using that by (intro more [of "[]"]) simp_all
    from assms(1) sc show ?thesis
    proof (cases rule: act_cases)
      case (control w)
      show ?thesis by (rule protocol_inv_control [OF assms(1) control(1) ct assms(3)])
    next
      case (poll_begin now i gate)
      from poll_begin(1,2) assms(1) obtain device where "poll_target i (sy_rt s) = Some device"
        "sy_polling s' = Some (now, i, Some device)"
        by (auto split: if_splits option.splits)
      moreover have "sy_polling s' = Some (now, i, Some gate)" by (simp add: poll_begin(4))
      ultimately have "poll_target i (sy_rt s) = Some gate" by simp
      moreover have "\<not> after Ph_scheduler s" using sc poll_begin(2) by (auto simp: scheduler_inv_def)
      ultimately show ?thesis
        using serves_living [of gate "sy_rt s" "sy_phase s"] poll_target_device [of i "sy_rt s" gate]
        by (intro more [of "[Ev_poll gate]"]) (auto simp: poll_begin)
    next
      case (process batch)
      then obtain e where e: "sy_trace s' = sy_trace s @ map Ev_call (publish_calls (length (rt_event_publishers (sy_rt s))) [e])"
        using process_batch_effect [of pg we batch "sy_rt s"] by auto
      have "\<not> after Ph_worker s" using b process(1) by (auto simp: batch_inv_def)
      then show ?thesis
        by (intro more [OF e]) (simp add: follows_calls tracks_publishing)
    qed (use same False in \<open>simp_all add: poll_frame_def\<close>)
  qed
qed

lemma protocol_inv_init:
  assumes "gateway_init pg we s"
  shows "protocol_inv s"
proof -
  from assms obtain config drivers processors publishers sources env t rt0 rt where
    new: "GatewayRuntime_new pg config drivers processors publishers sources = Inr rt0" and
    start: "GatewayRuntime_start pg we env t rt0 = Some (None, rt)" and s: "s = initial_gateway rt"
    unfolding gateway_init_def by blast
  obtain x l rt1 where a: "started_as (rt0\<lparr>rt_started := True\<rparr>) x l rt1" and r: "GatewayRuntime_start pg we env t rt0 =
      (case x of None \<Rightarrow> Some (None, rt1) | Some e \<Rightarrow> map_option (Pair (Some e)) (start_rollback pg we env l rt1))"
    using start_decomposes new_consistent [OF new] by blast
  have x: "x = None" "rt1 = rt" using r start start_rollback_returns [of pg we env l rt1] by (cases x; auto)+
  have "rt_calls rt = start_calls l True True" "in_start_order (length (rt_event_publishers rt)) l True"
    "alive_of l True True = living rt Ph_running"
    using a by (auto simp: started_as_def start_frame_def x alive_of_def living_def lessThan_def)
  then have "tracks (rt_calls rt) {} = Some (living rt Ph_running)" using tracks_start_calls by simp
  then show ?thesis by (simp add: protocol_inv_def s initial_gateway_def follows_calls)
qed

lemma reachable_protocol_inv:
  assumes "submitting_processor (we_process we)" and "reachable (gateway_init pg we) (gateway_step pg we) s"
  shows "protocol_inv s"
  using assms(2)
proof (induction rule: reachable.induct)
  case (start s)
  then show ?case by (rule protocol_inv_init)
next
  case (step s t)
  then obtain a where a: "gateway_act pg we a s = Some t" by (auto simp: gateway_step_def)
  show ?case by (rule protocol_inv_step [OF a reachable_gateway_inv [OF assms(1) step(1)] step.IH])
qed

lemma living_stopped: "living rt Ph_stopped = {}"
  by (simp add: living_def)

section \<open>Property\<close>

text \<open>C5: in every execution of all threads the gateway treats its plugins by the protocol. In every reachable state the whole
  trace is permitted: no plugin is started twice or stopped unstarted, a driver is polled only between its start
  and its stop and while the scheduler lives, and controlled only while the dispatcher does, an event is published only
  by the living worker to a started publisher, no plugin is stopped before the threads that call it have ended. What is
  alive is determined by the phase of \<open>stop\<close>, and at its end nothing is. A thread that is no longer alive there has really
  ended: without the scheduler its loop has been left and no task is selected or in a driver, without the dispatcher its worker has
  exited and no control is in a driver, without the worker that has returned.\<close>

theorem gateway_follows_protocol:
  assumes "submitting_processor (we_process we)" and "reachable (gateway_init pg we) (gateway_step pg we) s"
  shows "follows (device_ids (sy_rt s)) (sy_trace s) {} = Some (living (sy_rt s) (sy_phase s)) \<and>
    living (sy_rt s) Ph_stopped = {} \<and>
    (R_scheduler \<notin> living (sy_rt s) (sy_phase s) \<longrightarrow> \<not> scheduler_runs (sy_rt s) \<and> sy_polling s = None) \<and>
    (R_dispatcher \<notin> living (sy_rt s) (sy_phase s) \<longrightarrow>
       dd_worker (dispatcher_of (sy_rt s)) = Exited \<and> sy_control s = None) \<and>
    (R_worker \<notin> living (sy_rt s) (sy_phase s) \<longrightarrow> sy_worker s = W_ended)"
proof -
  have "gateway_inv s" by (rule reachable_gateway_inv [OF assms])
  note ended = ended_after [OF this]
  show ?thesis
    using reachable_protocol_inv [OF assms] living_stopped ended unfolding protocol_inv_def by simp
qed

theorem gateway_follows_protocol_witness:
  "length (sy_trace finished) = 24 \<and> follows (device_ids (sy_rt finished)) (sy_trace finished) {} = Some {} \<and>
   R_dispatcher \<in> living (sy_rt overlapped) (sy_phase overlapped)"
  using gateway_follows_protocol [OF example_worker_submits finished_reachable] example_run_state by simp

end
