(* ===== verification/Lifecycle.thy ===== *)
theory Lifecycle
  imports Protocol
begin

text \<open>
  The gateway over its whole life, as the owner of the object sees it
  (\<open>src/core/runtime.cpp\<close>): what the running threads leave alone between \<open>start\<close> and \<open>stop\<close>,
  and the calls of the owner up to the destructor.
\<close>

section \<open>The frame of running threads\<close>

text \<open>Running threads do not change these; of the rest, the scheduler, the queue and the counters do change.\<close>

definition run_frame where
  "run_frame rt = (rt_drivers rt, rt_driver_modes rt, rt_event_publishers rt, rt_worker rt, rt_started rt, rt_stopping rt,
     rt_stopped rt)"

text \<open>The threads of the gateway between \<open>start\<close> and \<open>stop\<close>, in the order \<open>moves\<close>.\<close>

definition run_threads ::
  "('d, 'b, 's) plugins \<Rightarrow> ('p, 'c) worker_env \<Rightarrow> 'c gateway_action list \<Rightarrow> ('d, 'b, 's, 'p, 'c) GatewayRuntime \<Rightarrow>
   ('d, 'b, 's, 'p, 'c) GatewayRuntime" where
  "run_threads pg we moves rt =
     (case gateway_acts pg we moves (initial_gateway rt) of None \<Rightarrow> rt | Some s \<Rightarrow> sy_rt s)"

lemma polled_frame: "polled env r rt = Some rt' \<Longrightarrow> run_frame rt' = run_frame rt"
  using poll_group_effect
  by (fastforce simp: polled_def run_frame_def lifecycle_of_def Let_def split: option.splits prod.splits)

lemma act_run_frame:
  assumes "gateway_act pg we a s = Some s'" and "thread_of a \<noteq> T_stop"
  shows "run_frame (sy_rt s') = run_frame (sy_rt s)"
proof (cases "control_action a")
  case True
  from control_only_act [OF assms(1) this] obtain w where "sy_rt s' = (sy_rt s)\<lparr>rt_control := w\<rparr>"
    by (auto simp: control_only_def)
  then show ?thesis by (simp add: run_frame_def)
next
  case False
  show ?thesis
  proof (cases a)
    case (Poll_select now)
    then show ?thesis using assms(1) by (auto split: if_splits option.splits)
  next
    case Poll_begin
    then show ?thesis using assms(1) by (auto split: if_splits option.splits)
  next
    case (Poll_end env r)
    then show ?thesis using assms(1) polled_frame by (auto simp: observe_def split: if_splits option.splits prod.splits)
  next
    case (Poll_skip env r)
    then show ?thesis using assms(1) polled_frame by (auto simp: observe_def split: if_splits option.splits prod.splits)
  next
    case Worker_process
    then obtain batch where "sy_rt s' = process_batch pg we batch (sy_rt s)"
      using assms(1) by (auto simp: observe_def split: batch_worker.splits)
    then show ?thesis
      using process_batch_effect [of pg we batch "sy_rt s"] by (auto simp: run_frame_def lifecycle_of_def)
  qed (use assms False in \<open>auto simp: run_frame_def observe_def split: if_splits option.splits\<close>)
qed

lemma acts_run_frame:
  "gateway_acts pg we moves s = Some s' \<Longrightarrow> list_all (\<lambda>a. thread_of a \<noteq> T_stop) moves \<Longrightarrow>
     run_frame (sy_rt s') = run_frame (sy_rt s)"
proof (induction moves arbitrary: s)
  case (Cons a moves)
  then obtain t where t: "gateway_act pg we a s = Some t" "gateway_acts pg we moves t = Some s'"
    by (auto simp: bind_eq_Some_conv)
  have "thread_of a \<noteq> T_stop" using Cons.prems(2) by simp
  then show ?case using Cons.IH [OF t(2)] Cons.prems(2) act_run_frame [OF t(1)] by simp
qed simp


section \<open>The owner's calls\<close>

definition GatewayRuntime_destroy ::
  "('d, 'b, 's) plugins \<Rightarrow> ('p, 'c) worker_env \<Rightarrow> 'c stop_env \<Rightarrow> ('d, 'b, 's, 'p, 'c) GatewayRuntime \<Rightarrow>
   ('d, 'b, 's, 'p, 'c) GatewayRuntime option" where
  "GatewayRuntime_destroy pg we env rt = GatewayRuntime_stop pg we env rt"

text \<open>
  What the owner may do with the object, in any order. An exception of \<open>start\<close> is caught. Between two calls
  the threads run, if there are any, in some order that ends with none of them inside a driver or a batch.
\<close>

datatype 'c owner_call =
    Call_start "'c stop_env" int
  | Call_wait "'c gateway_action list"
  | Call_stop "'c stop_env"

definition at_rest :: "('d, 'b, 's, 'p, 'c) gateway \<Rightarrow> bool" where
  "at_rest s \<longleftrightarrow> sy_worker s = W_waiting \<and> sy_polling s = None \<and> sy_control s = None"

definition wait_threads ::
  "('d, 'b, 's) plugins \<Rightarrow> ('p, 'c) worker_env \<Rightarrow> 'c gateway_action list \<Rightarrow> ('d, 'b, 's, 'p, 'c) GatewayRuntime \<Rightarrow>
   ('d, 'b, 's, 'p, 'c) GatewayRuntime" where
  "wait_threads pg we moves rt =
     (case gateway_acts pg we (filter (\<lambda>a. thread_of a \<noteq> T_stop) moves) (initial_gateway rt) of
        None \<Rightarrow> rt
      | Some s \<Rightarrow> if at_rest s then sy_rt s else rt)"

fun owner_act ::
  "('d, 'b, 's) plugins \<Rightarrow> ('p, 'c) worker_env \<Rightarrow> 'c owner_call \<Rightarrow> ('d, 'b, 's, 'p, 'c) GatewayRuntime \<Rightarrow>
   ('d, 'b, 's, 'p, 'c) GatewayRuntime option" where
  "owner_act pg we (Call_start env t) rt = map_option snd (GatewayRuntime_start pg we env t rt)"
| "owner_act pg we (Call_wait moves) rt = Some (if rt_worker rt then wait_threads pg we moves rt else rt)"
| "owner_act pg we (Call_stop env) rt = GatewayRuntime_stop pg we env rt"

fun lifetime ::
  "('d, 'b, 's) plugins \<Rightarrow> ('p, 'c) worker_env \<Rightarrow> 'c owner_call list \<Rightarrow> 'c stop_env \<Rightarrow>
   ('d, 'b, 's, 'p, 'c) GatewayRuntime \<Rightarrow> ('d, 'b, 's, 'p, 'c) GatewayRuntime option" where
  "lifetime pg we [] env rt = GatewayRuntime_destroy pg we env rt"
| "lifetime pg we (c # cs) env rt = Option.bind (owner_act pg we c rt) (lifetime pg we cs env)"


section \<open>A whole life follows the protocol\<close>

text \<open>A start that worked leaves everything alive; one that failed leaves nothing.\<close>

lemma start_tracked:
  assumes new: "GatewayRuntime_new pg config drivers processors publishers sources = Inr rt0"
    and start: "GatewayRuntime_start pg we env t rt0 = Some (x, rt)"
  shows "rt_started rt" and "\<not> rt_stopping rt" and "rt_stopped rt = (x \<noteq> None)" and "rt_worker rt = (x = None)"
    and "tracks (rt_calls rt) {} = Some (if x = None then living rt Ph_running else {})"
    and "x = None \<Longrightarrow> gateway_inv (initial_gateway rt)"
proof -
  have f: "fresh rt0" using new_consistent [OF new] by blast
  obtain y l rt1 where a: "started_as (rt0\<lparr>rt_started := True\<rparr>) y l rt1" and r: "GatewayRuntime_start pg we env t rt0 =
      (case y of None \<Rightarrow> Some (None, rt1) | Some e \<Rightarrow> map_option (Pair (Some e)) (start_rollback pg we env l rt1))"
    using start_decomposes f by blast
  have started: "rt_started rt1" "\<not> rt_stopping rt1" "\<not> rt_stopped rt1"
    and order: "in_start_order (length (rt_event_publishers rt0)) l (rt_worker rt1)"
    and calls: "rt_calls rt1 = start_calls l (rt_worker rt1) (y = None)"
    and publishers: "rt_event_publishers rt1 = rt_event_publishers rt0"
    using a f by (auto simp: started_as_def start_frame_def fresh_def)
  have "rt_started rt \<and> \<not> rt_stopping rt \<and> rt_stopped rt = (x \<noteq> None) \<and> rt_worker rt = (x = None) \<and>
    tracks (rt_calls rt) {} = Some (if x = None then living rt Ph_running else {}) \<and>
    (x = None \<longrightarrow> gateway_inv (initial_gateway rt))"
  proof (cases y)
    case None
    then have eq: "x = None" "rt = rt1" using r start by simp_all
    have "gateway_init pg we (initial_gateway rt)" unfolding gateway_init_def using new start eq(1) by blast
    then have g: "gateway_inv (initial_gateway rt)" "protocol_inv (initial_gateway rt)"
      by (rule gateway_inv_init, rule protocol_inv_init)
    then show ?thesis
      using eq started a None by (simp add: protocol_inv_def initial_gateway_def follows_calls started_as_def)
  next
    case (Some e)
    obtain rt2 where "start_rollback pg we env l rt1 = Some rt2" using start_rollback_returns by blast
    then have rt2: "start_rollback pg we env l rt1 = Some rt2" "x = Some e" "rt = rt2"
      using r start by (simp_all add: Some)
    obtain scheduler es where roll: "es \<noteq> [] \<longrightarrow> rt_worker rt1"
      "rt_calls rt = start_calls l (rt_worker rt1) False @ map C_source_request_stop (rev [0..<sl_sources l]) @
        (if scheduler then [C_scheduler_stop] else []) @ (if sl_dispatcher l then [C_dispatcher_stop] else []) @
        map C_source_stop (rev [0..<sl_sources l]) @ map C_driver_stop (rev [0..<sl_drivers l]) @
        [C_queue_close] @ publish_calls (length (rt_event_publishers rt0)) es @
        (if rt_worker rt1 then [C_worker_join] else []) @ map C_publisher_stop (rev [0..<sl_publishers l])"
      "rt_started rt" "rt_stopped rt" "\<not> rt_stopping rt" "\<not> rt_worker rt"
      using rollback_calls [OF rt2(1) _ publishers started(1)] calls Some rt2(3) by auto
    have "tracks (rt_calls rt) {} = Some {}"
      unfolding roll(2) tracks_append [of "start_calls l (rt_worker rt1) False"]
      using tracks_start_calls [OF order, of False] tracks_way_down [OF order roll(1), of "rev [0..<sl_drivers l]" False scheduler]
      by (simp add: atLeast0LessThan)
    then show ?thesis using roll(3-6) rt2(2) by simp
  qed
  then show "rt_started rt" and "\<not> rt_stopping rt" and "rt_stopped rt = (x \<noteq> None)" and "rt_worker rt = (x = None)"
    and "tracks (rt_calls rt) {} = Some (if x = None then living rt Ph_running else {})"
    and "x = None \<Longrightarrow> gateway_inv (initial_gateway rt)" by auto
qed

text \<open>The gateway between two calls of its owner: as constructed, running, or over.\<close>

definition running_rt :: "('d, 'b, 's, 'p, 'c) GatewayRuntime \<Rightarrow> bool" where
  "running_rt rt \<longleftrightarrow> rt_started rt \<and> \<not> rt_stopping rt \<and> \<not> rt_stopped rt \<and> rt_worker rt \<and>
     (\<forall>i \<in> set (rt_drivers rt). rt_driver_modes rt (di_device_id i) \<noteq> None) \<and> scheduler_inv (initial_gateway rt) \<and>
     tracks (rt_calls rt) {} = Some (living rt Ph_running)"

definition over :: "('d, 'b, 's, 'p, 'c) GatewayRuntime \<Rightarrow> bool" where
  "over rt \<longleftrightarrow> rt_started rt \<and> \<not> rt_stopping rt \<and> rt_stopped rt \<and> \<not> rt_worker rt \<and> tracks (rt_calls rt) {} = Some {}"

lemma start_owned:
  assumes "GatewayRuntime_new pg config drivers processors publishers sources = Inr rt0"
    and "GatewayRuntime_start pg we env t rt0 = Some (x, rt)"
  shows "if x = None then running_rt rt else over rt"
  using start_tracked [OF assms]
  by (auto simp: running_rt_def over_def gateway_inv_def stage_inv_def initial_gateway_def Let_def)

lemma driver_stops_all:
  assumes "\<forall>i \<in> set (rt_drivers rt). rt_driver_modes rt (di_device_id i) \<noteq> None"
  obtains ns where "stop_drivers_of Mode_Push rt @ stop_drivers_of Mode_Poll rt = map C_driver_stop ns"
    and "distinct ns" and "set ns = {..<length (rt_drivers rt)}"
proof
  let ?ns = "\<lambda>m. filter (\<lambda>n. driver_mode rt n = Some m) [0..<length (rt_drivers rt)]"
  show "stop_drivers_of Mode_Push rt @ stop_drivers_of Mode_Poll rt = map C_driver_stop (?ns Mode_Push @ ?ns Mode_Poll)"
    by (simp add: stop_drivers_of_list)
  show "distinct (?ns Mode_Push @ ?ns Mode_Poll)" by auto
  have modes: "m = Some Mode_Push \<or> m = Some Mode_Poll" if "m \<noteq> None" for m
    using that by (cases m; cases "the m") auto
  have "driver_mode rt n = Some Mode_Push \<or> driver_mode rt n = Some Mode_Poll" if "n < length (rt_drivers rt)" for n
    using assms that by (intro modes) (simp add: driver_mode_def)
  then show "set (?ns Mode_Push @ ?ns Mode_Poll) = {..<length (rt_drivers rt)}" by auto
qed

lemma close_and_join_started: "close_and_join pg we env rt = Some rt' \<Longrightarrow> rt_started rt' = rt_started rt"
  using close_and_join_returns [of pg we env rt] by auto

lemma stop_owned:
  assumes "running_rt rt"
  shows "\<exists>rt'. GatewayRuntime_stop pg we env rt = Some rt' \<and> over rt'"
proof -
  let ?l = "\<lparr>sl_publishers = length (rt_event_publishers rt), sl_drivers = length (rt_drivers rt),
    sl_sources = length (rt_sources rt), sl_dispatcher = True\<rparr>"
  have r: "rt_started rt" "\<not> rt_stopping rt" "\<not> rt_stopped rt" "rt_worker rt"
    "\<forall>i \<in> set (rt_drivers rt). rt_driver_modes rt (di_device_id i) \<noteq> None"
    "tracks (rt_calls rt) {} = Some (living rt Ph_running)" "rt_scheduler rt \<noteq> None"
    using assms by (auto simp: running_rt_def scheduler_inv_def initial_gateway_def)
  obtain ns where ns: "stop_drivers_of Mode_Push rt @ stop_drivers_of Mode_Poll rt = map C_driver_stop ns"
    "distinct ns" "set ns = {..<length (rt_drivers rt)}"
    using driver_stops_all [OF r(5)] .
  have alive: "living rt Ph_running = alive_of ?l True True" by (auto simp: living_def alive_of_def)
  obtain rt' es scheduler where s: "GatewayRuntime_stop pg we env rt = Some rt'"
    "rt_calls rt' = rt_calls rt @ map C_source_request_stop (rev [0..<length (rt_sources rt)]) @
      (if scheduler then [C_scheduler_stop] else []) @ [C_dispatcher_stop] @
      map C_source_stop (rev [0..<length (rt_sources rt)]) @
      stop_drivers_of Mode_Push rt @ stop_drivers_of Mode_Poll rt @
      [C_queue_close] @ publish_calls (length (rt_event_publishers rt)) es @ [C_worker_join] @
      map C_publisher_stop (rev [0..<length (rt_event_publishers rt)])"
    "scheduler \<longleftrightarrow> rt_scheduler rt \<noteq> None" "rt_stopped rt'" "\<not> rt_worker rt'"
    using stop_sequence [OF r(1-5), of pg we env] by blast
  have flags: "rt_started rt'" "\<not> rt_stopping rt'"
    using s(1) r(1-3)
    by (auto simp: GatewayRuntime_stop_def Let_def stop_frame_simps dest!: close_and_join_started)
  have order: "in_start_order (length (rt_event_publishers rt)) ?l True" by (simp add: in_start_order_def)
  have "tracks (rt_calls rt') {} = Some {}"
    using tracks_way_down [OF order, of es ns True scheduler] ns(2,3) r(6,7) s(3)
    by (simp add: s(2) tracks_append [of "rt_calls rt"] alive ns(1) [symmetric])
  then show ?thesis using s(1,4,5) flags by (auto simp: over_def)
qed

text \<open>The threads only add publications, while the publishers and the worker are alive.\<close>

lemma acts_calls:
  "gateway_acts pg we moves s = Some s' \<Longrightarrow> list_all (\<lambda>a. thread_of a \<noteq> T_stop) moves \<Longrightarrow> scheduler_inv s \<Longrightarrow>
     scheduler_inv s' \<and> sy_phase s' = sy_phase s \<and> wiring (sy_rt s') = wiring (sy_rt s) \<and>
     (\<exists>es. rt_calls (sy_rt s') = rt_calls (sy_rt s) @ publish_calls (length (rt_event_publishers (sy_rt s))) es)"
proof (induction moves arbitrary: s)
  case Nil
  then show ?case by (intro conjI exI [of _ "[]"]) (simp_all add: publish_calls_def)
next
  case (Cons a moves)
  then obtain t where t: "gateway_act pg we a s = Some t" "gateway_acts pg we moves t = Some s'"
    by (auto simp: bind_eq_Some_conv)
  have "\<forall>alloc_ok. a \<noteq> Stop alloc_ok" using Cons.prems(2) by auto
  note f = other_act_frame [OF t(1) Cons.prems(3) this]
  from f(3) obtain es where es: "rt_calls (sy_rt t) = rt_calls (sy_rt s) @ publish_calls (length (rt_event_publishers (sy_rt s))) es"
    by blast
  have "scheduler_inv t" by (rule scheduler_inv_step [OF t(1) Cons.prems(3)])
  with Cons.IH [OF t(2)] Cons.prems(2) obtain fs where fs: "scheduler_inv s'" "sy_phase s' = sy_phase t"
    "wiring (sy_rt s') = wiring (sy_rt t)"
    "rt_calls (sy_rt s') = rt_calls (sy_rt t) @ publish_calls (length (rt_event_publishers (sy_rt t))) fs" by auto
  have "rt_calls (sy_rt s') = rt_calls (sy_rt s) @ publish_calls (length (rt_event_publishers (sy_rt s))) (es @ fs)"
    using fs(4) es wiringD(3) [OF f(2)] by (simp add: publish_calls_def)
  then show ?case using fs f by auto
qed

lemma wait_owned:
  assumes "running_rt rt"
  shows "running_rt (wait_threads pg we moves rt)"
proof (cases "gateway_acts pg we (filter (\<lambda>a. thread_of a \<noteq> T_stop) moves) (initial_gateway rt)")
  case None
  then show ?thesis using assms by (simp add: wait_threads_def)
next
  case (Some s)
  have moves: "list_all (\<lambda>a. thread_of a \<noteq> T_stop) (filter (\<lambda>a. thread_of a \<noteq> T_stop) moves)"
    by (simp add: list_all_iff)
  have r: "scheduler_inv (initial_gateway rt)" "tracks (rt_calls rt) {} = Some (living rt Ph_running)"
    using assms by (simp_all add: running_rt_def)
  from acts_calls [OF Some moves r(1)] obtain es where c: "scheduler_inv s" "sy_phase s = Ph_running" "wiring (sy_rt s) = wiring rt"
    "rt_calls (sy_rt s) = rt_calls rt @ publish_calls (length (rt_event_publishers rt)) es"
    by (auto simp: initial_gateway_def)
  have frame: "run_frame (sy_rt s) = run_frame rt" using acts_run_frame [OF Some moves] by (simp add: initial_gateway_def)
  have "tracks (rt_calls (sy_rt s)) {} = Some (living (sy_rt s) Ph_running)"
    using r(2) tracks_publishing [of es "living rt Ph_running" "length (rt_event_publishers rt)"]
    by (simp add: c(4) tracks_append living_wiring(1) [OF c(3)])
  moreover have "scheduler_inv (initial_gateway (sy_rt s))" if "at_rest s"
    using c(1,2) that by (auto simp: scheduler_inv_def initial_gateway_def at_rest_def)
  ultimately have "running_rt (sy_rt s)" if "at_rest s"
    using assms frame that by (simp add: running_rt_def run_frame_def)
  then show ?thesis using assms Some by (simp add: wait_threads_def)
qed

lemma over_stays:
  assumes "over rt"
  shows "GatewayRuntime_stop pg we env rt = Some rt" 
    and "GatewayRuntime_start pg we env t rt = Some (Some (Logic_error ''gateway runtime can only be started once''), rt)"
  using assms by (simp_all add: over_def GatewayRuntime_stop_def GatewayRuntime_start_def)

text \<open>From each of the three states a life ends well.\<close>

lemma over_lifetime: "over rt \<Longrightarrow> lifetime pg we cs env rt = Some rt"
proof (induction cs)
  case (Cons c cs)
  then show ?case using over_stays [OF Cons.prems] by (cases c) (auto simp: over_def)
qed (simp add: GatewayRuntime_destroy_def over_stays)

lemma running_lifetime: "running_rt rt \<Longrightarrow> \<exists>rt'. lifetime pg we cs env rt = Some rt' \<and> over rt'"
proof (induction cs arbitrary: rt)
  case Nil
  then show ?case using stop_owned by (simp add: GatewayRuntime_destroy_def)
next
  case (Cons c cs)
  show ?case
  proof (cases c)
    case (Call_start start_env t)
    have "GatewayRuntime_start pg we start_env t rt = Some (Some (Logic_error ''gateway runtime can only be started once''), rt)"
      using Cons.prems by (simp add: running_rt_def GatewayRuntime_start_def)
    then show ?thesis using Cons.IH [OF Cons.prems] by (simp add: Call_start)
  next
    case (Call_wait moves)
    then show ?thesis using Cons.IH [OF wait_owned [OF Cons.prems]] Cons.prems by (simp add: running_rt_def)
  next
    case (Call_stop stop_env)
    obtain rt1 where "GatewayRuntime_stop pg we stop_env rt = Some rt1" "over rt1" using stop_owned [OF Cons.prems] by blast
    then show ?thesis using over_lifetime [of rt1 pg we cs env] by (simp add: Call_stop)
  qed
qed

lemma new_lifetime:
  assumes "GatewayRuntime_new pg config drivers processors publishers sources = Inr rt0"
  shows "\<exists>rt'. lifetime pg we cs env rt0 = Some rt' \<and> (rt' = rt0 \<or> over rt')"
proof (induction cs)
  case Nil
  then show ?case using new_consistent [OF assms] by (simp add: GatewayRuntime_destroy_def GatewayRuntime_stop_def fresh_def)
next
  case (Cons c cs)
  have f: "fresh rt0" using new_consistent [OF assms] by blast
  show ?case
  proof (cases c)
    case (Call_start start_env t)
    obtain x rt where s: "GatewayRuntime_start pg we start_env t rt0 = Some (x, rt)"
      using start_decomposes [OF f] start_rollback_returns by (smt (verit) option.case_eq_if option.simps(9))
    then show ?thesis
      using start_owned [OF assms s] over_lifetime [of rt pg we cs env] running_lifetime [of rt pg we cs env]
      by (auto simp: Call_start split: if_splits)
  next
    case (Call_wait moves)
    then show ?thesis using Cons.IH f by (simp add: fresh_def)
  next
    case (Call_stop stop_env)
    then show ?thesis using Cons.IH f by (simp add: fresh_def GatewayRuntime_stop_def)
  qed
qed

section \<open>Property\<close>

text \<open>C7: whatever its owner does, a gateway leaves nothing running. For every sequence of calls of \<open>start\<close> and \<open>stop\<close> on a
  constructed gateway, with any work of the threads in between and any failing start, the calls and the destructor at the end
  return; all calls into plugins and threads followed the protocol, and at the end no plugin is left
  started, no thread is left running and none is waiting inside \<open>stop\<close>.\<close>

theorem owner_leaves_nothing_running:
  assumes "GatewayRuntime_new pg config drivers processors publishers sources = Inr rt"
  shows "\<exists>rt'. lifetime pg we calls env rt = Some rt' \<and> tracks (rt_calls rt') {} = Some {} \<and>
    \<not> rt_worker rt' \<and> \<not> rt_stopping rt' \<and> (rt_started rt' \<longrightarrow> rt_stopped rt')"
proof -
  have f: "fresh rt" using new_consistent [OF assms] by blast
  obtain rt' where "lifetime pg we calls env rt = Some rt'" "rt' = rt \<or> over rt'" using new_lifetime [OF assms] by blast
  then show ?thesis using f by (auto simp: fresh_def over_def)
qed

definition owner_moves :: "nat gateway_action list" where
  "owner_moves = [Clock 5, Driver_push (example_batch_of ''cam''), Worker_pop, Worker_process]"

theorem owner_leaves_nothing_running_witness:
  "\<exists>rt'. lifetime (example_plugins 9) example_worker
       [Call_stop example_stop_env, Call_start example_stop_env 100, Call_wait owner_moves, Call_start example_stop_env 200]
       example_stop_env (example_runtime 9) = Some rt' \<and>
     tracks (rt_calls rt') {} = Some {} \<and> rt_stopped rt' \<and> rt_delivered_events rt' = 2"
proof -
  let ?calls = "[Call_stop example_stop_env, Call_start example_stop_env 100, Call_wait owner_moves, Call_start example_stop_env 200]"
  let ?r = "lifetime (example_plugins 9) example_worker ?calls example_stop_env (example_runtime 9)"
  have v: "map_option (\<lambda>rt. (rt_started rt, rt_delivered_events rt)) ?r = Some (True, 2)" by code_simp
  show ?thesis
    using owner_leaves_nothing_running [OF example_new_ok(2) [unfolded example_new_def], of example_worker ?calls example_stop_env] v
    by auto
qed

end
