(* ===== verification/Gateway_Main.thy ===== *)
theory Gateway_Main
  imports Plugin_Registry Lifecycle
begin

text \<open>
  \<open>src/main.cpp\<close>: waiting for a signal or for the configured duration, and the program from
  the command line to its exit status. Everything outside the process is the record
  \<open>main_env\<close>: files, the JSON library, the loader, plugin answers, the shutdown flag and the
  clock as read at the turns of the waiting loop, and what the running threads do to the gateway
  meanwhile.
\<close>

section \<open>Waiting\<close>

text \<open>\<open>check_interval\<close> in nanoseconds.\<close>

definition check_interval :: int where
  "check_interval = ms 100"

text \<open>Until when turn \<open>i\<close> of the loop sleeps.\<close>

definition sleep_target :: "int \<Rightarrow> int \<Rightarrow> int" where
  "sleep_target now deadline = (let next_check = now + check_interval in if next_check < deadline then next_check else deadline)"

text \<open>
  The loops return the turn they ended at; \<^const>\<open>None\<close> means that the fuel is spent. \<open>shutdown i\<close> is the
  flag as turn \<open>i\<close> reads it, \<open>clock i\<close> the time.
\<close>

fun wait_for_signal :: "nat \<Rightarrow> (nat \<Rightarrow> bool) \<Rightarrow> nat \<Rightarrow> nat option" where
  "wait_for_signal 0 shutdown i = None"
| "wait_for_signal (Suc n) shutdown i = (if shutdown i then Some i else wait_for_signal n shutdown (Suc i))"

fun wait_until :: "nat \<Rightarrow> (nat \<Rightarrow> bool) \<Rightarrow> (nat \<Rightarrow> int) \<Rightarrow> int \<Rightarrow> nat \<Rightarrow> nat option" where
  "wait_until 0 shutdown clock deadline i = None"
| "wait_until (Suc n) shutdown clock deadline i =
     (if shutdown i then Some i
      else if clock i \<ge> deadline then Some i
      else wait_until n shutdown clock deadline (Suc i))"

definition wait_for_shutdown :: "nat \<Rightarrow> (nat \<Rightarrow> bool) \<Rightarrow> (nat \<Rightarrow> int) \<Rightarrow> int \<Rightarrow> int option \<Rightarrow> nat option" where
  "wait_for_shutdown fuel shutdown clock start run_duration =
     (case run_duration of
        None \<Rightarrow> wait_for_signal fuel shutdown 0
      | Some d \<Rightarrow> wait_until fuel shutdown clock (start + ms d) 0)"

section \<open>The program\<close>

type_synonym ('h, 'a, 'x, 'c) runtime =
  "(('h, 'a, 'x) plugin, ('h, 'a, 'x) plugin, ('h, 'a, 'x) plugin, ('h, 'a, 'x) plugin, 'c) GatewayRuntime"

record ('j, 'h, 'a, 'x, 'c) main_env =
  me_files :: "string \<Rightarrow> file_state"
  me_json :: "'j json_ops"
  me_loader :: "('h, 'a, 'x) os_loader"
  me_plugins :: "('x, 'x, 'x) plugins"
  me_worker :: "('x, 'c) worker_env"
  me_stop :: "'c stop_env"
  me_start_time :: int
  me_running :: "('h, 'a, 'x, 'c) runtime \<Rightarrow> ('h, 'a, 'x, 'c) runtime"
  me_shutdown :: "nat \<Rightarrow> bool"
  me_wait_start :: int
  me_clock :: "nat \<Rightarrow> int"

text \<open>The exit status with what is printed; an exception that is no \<open>std::exception\<close> is not caught.\<close>

datatype exit = Exit_failure string | Exit_success string | Terminated

definition newline :: string where
  "newline = [CHR 0x0A]"

definition gateway_failed :: "exn \<Rightarrow> exit" where
  "gateway_failed e = (case what e of Some m \<Rightarrow> Exit_failure (''gateway failed: '' @ m @ newline) | None \<Rightarrow> Terminated)"

definition summary :: "RuntimeStats \<Rightarrow> string" where
  "summary s = newline @ ''summary: events='' @ to_string_u64 (rst_delivered_events s) @
     '' queue_full='' @ to_string_u64 (qs_rejected_full (rst_raw_queue s)) @
     '' polls='' @ to_string_u64 (as_polls (rst_acquisition s)) @
     '' poll_errors='' @ to_string_u64 (as_errors (rst_acquisition s)) @
     '' deadline_misses='' @ to_string_u64 (as_deadline_misses (rst_acquisition s)) @
     '' skipped='' @ to_string_u64 (ss_skipped_cycles (rst_scheduler s)) @
     '' processor_errors='' @ to_string_u64 (ps_processor_errors (rst_processing s)) @
     '' publish_accepted='' @ to_string_u64 (eps_accepted (rst_event_publishers s)) @
     '' publish_unavailable='' @ to_string_u64 (eps_unavailable (rst_event_publishers s)) @
     '' publish_errors='' @ to_string_u64 (eps_errors (rst_event_publishers s)) @
     '' control_accepted='' @ to_string_u64 (cs_accepted (rst_control s)) @
     '' control_succeeded='' @ to_string_u64 (cs_succeeded (rst_control s)) @
     '' control_failed='' @ to_string_u64 (cs_failed (rst_control s)) @
     '' control_cancelled='' @ to_string_u64 (cs_cancelled (rst_control s)) @ newline"

text \<open>Loading the configuration, assembling the plugins and constructing the gateway.\<close>

definition assemble ::
  "('j, 'h, 'a, 'x, 'c) main_env \<Rightarrow> string \<Rightarrow> (ApplicationConfig \<times> ('h, 'a, 'x, 'c) runtime) result" where
  "assemble me path =
     rbind (load_config (me_json me) (me_files me) path) (\<lambda>config.
       case load_dynamic_plugins (me_loader me) config PluginRegistry_new of
         (Some e, _) \<Rightarrow> Inl e
       | (None, registry) \<Rightarrow>
           rbind (PluginRegistry_create registry config) (\<lambda>plugins.
           rbind (GatewayRuntime_new (adapters (me_plugins me)) (ac_gateway config) (in_drivers plugins)
                    (in_processors plugins) (in_event_publishers plugins) (in_sources plugins)) (\<lambda>rt.
           Inr (config, rt))))"

text \<open>
  The exit status and the gateway at the end, if one was constructed; \<^const>\<open>None\<close> while the program
  has not returned.
\<close>

definition gateway_main ::
  "nat \<Rightarrow> ('j, 'h, 'a, 'x, 'c) main_env \<Rightarrow> string list \<Rightarrow> (exit \<times> ('h, 'a, 'x, 'c) runtime option) option" where
  "gateway_main fuel me argv =
     (if length argv > 2 then Some (Exit_failure (''usage: gateway_example [config_path]'' @ newline), None)
      else
        let pg = adapters (me_plugins me); we = loaded_worker (me_worker me)
        in case assemble me (if length argv = 2 then argv ! 1 else ''config.json'') of
             Inl e \<Rightarrow> Some (gateway_failed e, None)
           | Inr (config, rt) \<Rightarrow>
               (case GatewayRuntime_start pg we (me_stop me) (me_start_time me) rt of
                  None \<Rightarrow> None
                | Some (Some e, rt1) \<Rightarrow> Some (gateway_failed e, Some rt1)
                | Some (None, rt1) \<Rightarrow>
                    (case wait_for_shutdown fuel (me_shutdown me) (me_clock me) (me_wait_start me)
                            (ac_run_duration config) of
                       None \<Rightarrow> None
                     | Some _ \<Rightarrow>
                         map_option (\<lambda>rt2. (Exit_success (summary (GatewayRuntime_stats rt2)), Some rt2))
                           (GatewayRuntime_stop pg we (me_stop me) (me_running me rt1)))))"

section \<open>Lemmas\<close>

lemma wait_for_signal_iff:
  "wait_for_signal n s i = Some k \<longleftrightarrow> i \<le> k \<and> k < i + n \<and> s k \<and> (\<forall>j. i \<le> j \<and> j < k \<longrightarrow> \<not> s j)"
proof (induction n arbitrary: i)
  case (Suc n)
  show ?case
  proof (cases "s i")
    case True
    then show ?thesis by (auto simp: not_less_eq_eq)
  next
    case False
    then have "(i \<le> k \<and> k < i + Suc n \<and> s k \<and> (\<forall>j. i \<le> j \<and> j < k \<longrightarrow> \<not> s j)) \<longleftrightarrow>
        (Suc i \<le> k \<and> k < Suc i + n \<and> s k \<and> (\<forall>j. Suc i \<le> j \<and> j < k \<longrightarrow> \<not> s j))"
      by (metis Suc_leD Suc_leI add_Suc_shift le_neq_implies_less)
    with False Suc.IH show ?thesis by simp
  qed
qed auto

text \<open>Waiting with a deadline is waiting for the signal or the deadline, whichever is seen first.\<close>

lemma wait_until_signal: "wait_until n s c d i = wait_for_signal n (\<lambda>j. s j \<or> d \<le> c j) i"
  by (induction n arbitrary: i) simp_all

lemma clock_progress:
  assumes "\<forall>i. sleep_target (clock i) deadline \<le> clock (Suc i)" "start \<le> clock 0"
  shows "min (start + int i * check_interval) deadline \<le> clock i"
proof (induction i)
  case (Suc i)
  have "int (Suc i) * check_interval = int i * check_interval + check_interval" by (simp add: algebra_simps)
  moreover have "sleep_target (clock i) deadline \<le> clock (Suc i)" using assms(1) by blast
  ultimately show ?case
    using Suc by (auto simp: sleep_target_def Let_def min_def check_interval_def ms_def split: if_splits)
qed (use assms(2) in simp)

lemma first_turn:
  fixes P :: "nat \<Rightarrow> bool"
  assumes "P n"
  obtains k where "k \<le> n" "P k" "\<forall>j < k. \<not> P j"
  using assms LeastI [of P n] Least_le [of P n] not_less_Least [of _ P] by blast

lemma wait_until_returns:
  assumes "\<forall>i. sleep_target (clock i) (start + ms d) \<le> clock (Suc i)" "start \<le> clock 0" "0 < d"
  shows "\<exists>k \<le> nat d div 100 + 1. wait_until (nat d div 100 + 2) s clock (start + ms d) 0 = Some k"
proof -
  let ?n = "nat d div 100 + 1"
  have "nat d < ?n * 100"
    using div_mult_mod_eq [of "nat d" 100] mod_less_divisor [of 100 "nat d"] by simp
  then have "d \<le> int ?n * 100" using assms(3) by linarith
  then have "start + ms d \<le> clock ?n"
    using clock_progress [OF assms(1,2), of ?n] by (simp add: check_interval_def ms_def min_def split: if_splits)
  then obtain k where "k \<le> ?n" "s k \<or> start + ms d \<le> clock k" "\<forall>j < k. \<not> (s j \<or> start + ms d \<le> clock j)"
    by (rule first_turn [of "\<lambda>j. s j \<or> start + ms d \<le> clock j" ?n, OF disjI2])
  then show ?thesis
    unfolding wait_until_signal wait_for_signal_iff by (intro exI [of _ k]) simp
qed

text \<open>What the running threads leave alone.\<close>

definition keeps_lifecycle :: "('j, 'h, 'a, 'x, 'c) main_env \<Rightarrow> bool" where
  "keeps_lifecycle me \<longleftrightarrow> (\<forall>rt. run_frame (me_running me rt) = run_frame rt)"

text \<open>Behind its adapter a processor reaches the dispatcher only by submitting, as before.\<close>

lemma loaded_submits:
  assumes "submitting_processor proc"
  shows "submitting_processor (LoadedProcessor_process proc)"
  using assms by (simp add: submitting_processor_def LoadedProcessor_process_def Let_def)

interpretation loaded_builtin: submitting_processor "LoadedProcessor_process Processor_process"
  by (rule loaded_submits [OF builtin.submitting_processor_axioms])

lemma threads_keep_lifecycle:
  assumes "me_running me = run_threads pg we moves" and "list_all (\<lambda>a. thread_of a \<noteq> T_stop) moves"
  shows "keeps_lifecycle me"
  unfolding keeps_lifecycle_def
proof
  fix rt
  show "run_frame (me_running me rt) = run_frame rt"
  proof (cases "gateway_acts pg we moves (initial_gateway rt)")
    case (Some s)
    then show ?thesis
      using acts_run_frame [OF Some assms(2)] by (simp add: assms(1) run_threads_def initial_gateway_def)
  qed (simp add: assms(1) run_threads_def)
qed

lemma assemble_new:
  fixes me :: "('j, 'h, 'a, 'x, 'c) main_env"
  assumes "assemble me path = Inr (config, rt)"
  shows "\<exists>plugins :: ('h, 'a, 'x) PluginInstances. GatewayRuntime_new (adapters (me_plugins me)) (ac_gateway config) (in_drivers plugins)
    (in_processors plugins) (in_event_publishers plugins) (in_sources plugins) = Inr rt"
proof -
  from assms obtain c where c: "(case load_dynamic_plugins (me_loader me) c PluginRegistry_new of
         (Some e, _) \<Rightarrow> Inl e
       | (None, registry) \<Rightarrow>
           rbind (PluginRegistry_create registry c) (\<lambda>plugins.
           rbind (GatewayRuntime_new (adapters (me_plugins me)) (ac_gateway c) (in_drivers plugins)
                    (in_processors plugins) (in_event_publishers plugins) (in_sources plugins)) (\<lambda>rt.
           Inr (c, rt)))) = Inr (config, rt)"
    by (auto simp: assemble_def rbind_Inr_iff simp del: split_paired_All split_paired_Ex)
  obtain x r where l: "load_dynamic_plugins (me_loader me) c PluginRegistry_new = (x, r)" by fastforce
  with c have "x = None" by (cases x) auto
  with c l obtain plugins :: "('h, 'a, 'x) PluginInstances"
    where "GatewayRuntime_new (adapters (me_plugins me)) (ac_gateway c) (in_drivers plugins)
      (in_processors plugins) (in_event_publishers plugins) (in_sources plugins) = Inr rt" "c = config"
    by (auto simp: rbind_Inr_iff)
  then show ?thesis by blast
qed

text \<open>After a successful start the gateway can be stopped, whatever the running threads did.\<close>

lemma stop_keeps_publishers:
  assumes "GatewayRuntime_stop pg we env rt = Some rt'"
  shows "rt_event_publishers rt' = rt_event_publishers rt"
proof (cases "\<not> rt_started rt \<or> rt_stopped rt")
  case True
  then show ?thesis using assms by (simp add: GatewayRuntime_stop_def)
next
  case False
  then have "\<not> rt_stopping rt" using assms by (auto simp: GatewayRuntime_stop_def split: if_splits)
  with False assms obtain rt6 rt7 where "close_and_join pg we env rt6 = Some rt7" "rt_event_publishers rt6 = rt_event_publishers rt"
    "rt_event_publishers rt' = rt_event_publishers rt7"
    unfolding GatewayRuntime_stop_def Let_def by (auto simp: stop_frame_simps)
  moreover from this(1) have "rt_event_publishers rt7 = rt_event_publishers rt6"
    using close_and_join_returns [of pg we env rt6] by auto
  ultimately show ?thesis by simp
qed

lemma failed_start_stopped:
  assumes "fresh rt" and "GatewayRuntime_start pg we env t rt = Some (Some e, rt1)"
  shows "rt_stopped rt1 \<and> \<not> rt_worker rt1 \<and> bq_closed (rt_raw_queue rt1)"
proof -
  obtain x l rt' where s: "started_as (rt\<lparr>rt_started := True\<rparr>) x l rt'" and r: "GatewayRuntime_start pg we env t rt =
      (case x of None \<Rightarrow> Some (None, rt') | Some e \<Rightarrow> map_option (Pair (Some e)) (start_rollback pg we env l rt'))"
    using start_decomposes [OF assms(1)] by blast
  obtain rt2 where b: "start_rollback pg we env l rt' = Some rt2" using start_rollback_returns by blast
  with r assms(2) obtain y where x: "x = Some y" "rt2 = rt1" by (cases x) auto
  then have "rt_calls rt' = start_calls l (rt_worker rt') False" "rt_started rt'"
    using s by (simp_all add: started_as_def start_frame_def)
  then show ?thesis using rollback_calls [OF b] x(2) by blast
qed

lemma failed_start_tracked:
  fixes me :: "('j, 'h, 'a, 'x, 'c) main_env"
  assumes "assemble me path = Inr (config, rt)"
    and "GatewayRuntime_start (adapters (me_plugins me)) we env t rt = Some (Some e, rt1)"
  shows "tracks (rt_calls rt1) {} = Some {}"
proof -
  obtain plugins :: "('h, 'a, 'x) PluginInstances" where new: "GatewayRuntime_new (adapters (me_plugins me)) (ac_gateway config)
      (in_drivers plugins) (in_processors plugins) (in_event_publishers plugins) (in_sources plugins) = Inr rt"
    using assemble_new [OF assms(1)] by blast
  from start_tracked(5) [OF new assms(2)] show ?thesis by simp
qed

lemma running_stops:
  fixes me :: "('j, 'h, 'a, 'x, 'c) main_env"
  assumes "assemble me path = Inr (config, rt)"
    and "GatewayRuntime_start pg we env t rt = Some (None, rt1)" and "keeps_lifecycle me"
  shows "\<exists>rt2. GatewayRuntime_stop pg' we' env' (me_running me rt1) = Some rt2 \<and> rt_stopped rt2 \<and> \<not> rt_worker rt2 \<and>
    bq_closed (rt_raw_queue rt2) \<and> bq_queue (rt_raw_queue rt2) = [] \<and>
    rt_delivered_events rt2 = rt_delivered_events (me_running me rt1) +
      of_nat (length (bq_queue (late_pushes env' (rt_raw_queue (me_running me rt1))))) \<and>
    (\<exists>cs. rt_calls rt2 = rt_calls (me_running me rt1) @ cs \<and>
       (\<forall>n < length (rt_event_publishers (me_running me rt1)). C_publisher_stop n \<in> set cs))"
proof -
  obtain plugins :: "('h, 'a, 'x) PluginInstances" where new: "GatewayRuntime_new (adapters (me_plugins me)) (ac_gateway config) (in_drivers plugins)
      (in_processors plugins) (in_event_publishers plugins) (in_sources plugins) = Inr rt"
    using assemble_new [OF assms(1)] by blast
  then have c: "consistent rt" and f: "fresh rt" using new_consistent by blast+
  obtain x l rt' where s: "started_as (rt\<lparr>rt_started := True\<rparr>) x l rt'" and r: "GatewayRuntime_start pg we env t rt =
      (case x of None \<Rightarrow> Some (None, rt') | Some e \<Rightarrow> map_option (Pair (Some e)) (start_rollback pg we env l rt'))"
    using start_decomposes [OF f] by blast
  have s1: "started_as (rt\<lparr>rt_started := True\<rparr>) (None :: exn option) l rt1"
    using r s assms(2) start_rollback_returns [of pg we env l rt'] by (cases x) auto
  have life: "run_frame (me_running me rt1) = run_frame rt1" using assms(3) by (simp add: keeps_lifecycle_def)
  have run: "rt_started (me_running me rt1)" "\<not> rt_stopping (me_running me rt1)" "\<not> rt_stopped (me_running me rt1)"
    "rt_worker (me_running me rt1)"
    "\<forall>i \<in> set (rt_drivers (me_running me rt1)). rt_driver_modes (me_running me rt1) (di_device_id i) \<noteq> None"
    using s1 f c life by (simp_all add: started_as_def start_frame_def fresh_def run_frame_def consistent_def)
  show ?thesis
    using stop_sequence [OF run(1-4,5), of pg' we' env'] by auto
qed

section \<open>Properties\<close>

text \<open>
  Waiting ends. With a run duration of \<open>d\<close> milliseconds, whatever the signal does, \<open>wait_for_shutdown\<close> returns
  after at most \<open>d / 100 + 2\<close> turns, at the first turn that sees the signal or the deadline, and no sleep is
  longer than the check interval or goes past the deadline; without a duration it returns exactly at the first turn that sees
  the signal. The clock is only assumed not to run backwards at the start and \<open>sleep_until\<close> not to return early.
\<close>

theorem wait_for_shutdown_returns:
  assumes "\<forall>i. sleep_target (clock i) (start + ms d) \<le> clock (Suc i)" and "start \<le> clock 0" and "0 < d"
  shows "\<exists>k < nat d div 100 + 2. wait_for_shutdown (nat d div 100 + 2) shutdown clock start (Some d) = Some k \<and>
     (shutdown k \<or> start + ms d \<le> clock k) \<and> (\<forall>j < k. \<not> shutdown j \<and> clock j < start + ms d \<and>
        sleep_target (clock j) (start + ms d) \<le> start + ms d \<and>
        sleep_target (clock j) (start + ms d) \<le> clock j + check_interval) \<and>
     (\<forall>fuel m. wait_for_shutdown fuel shutdown clock start None = Some m \<longleftrightarrow>
        m < fuel \<and> shutdown m \<and> (\<forall>j < m. \<not> shutdown j))"
proof -
  obtain k where k: "k \<le> nat d div 100 + 1" "wait_until (nat d div 100 + 2) shutdown clock (start + ms d) 0 = Some k"
    using wait_until_returns [OF assms] by blast
  then have "shutdown k \<or> start + ms d \<le> clock k" "\<forall>j < k. \<not> shutdown j \<and> clock j < start + ms d"
    unfolding wait_until_signal wait_for_signal_iff by auto
  then show ?thesis
    using k by (auto simp: wait_for_shutdown_def wait_for_signal_iff sleep_target_def Let_def simp del: wait_until.simps)
qed

lemma wait_sees_signal: "shutdown n \<Longrightarrow> \<exists>k. wait_for_shutdown (Suc n) shutdown clock start duration = Some k"
proof -
  assume s: "shutdown n"
  have "\<exists>k. wait_for_signal (Suc n) P 0 = Some k" if "P n" for P
    using that by (rule first_turn) (unfold wait_for_signal_iff, auto simp: less_Suc_eq_le)
  then show ?thesis
    using s by (auto simp: wait_for_shutdown_def wait_until_signal simp del: wait_for_signal.simps wait_until.simps
        split: option.splits)
qed


section \<open>Witnesses\<close>

theorem wait_for_shutdown_returns_witness:
  "\<exists>k < 4. wait_for_shutdown 4 (\<lambda>_. False) (\<lambda>i. ms (100 * int i)) 0 (Some 250) = Some k"
proof -
  have "\<forall>i. sleep_target (ms (100 * int i)) (0 + ms 250) \<le> ms (100 * int (Suc i))"
    by (auto simp: sleep_target_def check_interval_def ms_def Let_def)
  from wait_for_shutdown_returns [OF this, where shutdown = "\<lambda>_. False"] show ?thesis by (auto simp: ms_def)
qed

text \<open>One polled device whose driver comes from a library; the signal is seen at once.\<close>

definition main_example_doc :: json_tree where
  "main_example_doc = J_object
     [(''runtime'', J_object [(''raw_queue_capacity'', J_unsigned 8)]),
      (''devices'', J_array [J_object
         [(''id'', J_string ''plc''), (''driver'', J_string ''sim''), (''library'', J_string ''lib/sim.so''),
          (''driver_config'', J_object []), (''connection'', J_object []),
          (''points'', J_array [J_object
             [(''name'', J_string ''t''), (''type'', J_string ''double''), (''unit'', J_string ''C''),
              (''address'', J_object []), (''scale'', J_unsigned 1), (''offset'', J_unsigned 0)]])]]),
      (''groups'', J_array [J_object
         [(''id'', J_string ''fast''), (''device_id'', J_string ''plc''), (''interval_ms'', J_unsigned 10),
          (''timeout_ms'', J_unsigned 50), (''points'', J_array [J_string ''t''])]]),
      (''processors'', J_array []),
      (''event_publishers'', J_array [J_object
         [(''id'', J_string ''p''), (''type'', J_string ''print''), (''library'', J_string ''lib/print.so''),
          (''config'', J_object [])]])]"

definition main_example_worker :: "(nat, nat) worker_env" where
  "main_example_worker =
     \<lparr>we_process = (\<lambda>context p e w. \<lparr>po_error = None, po_processor = p, po_event = e, po_world = w\<rparr>),
      we_llround = (\<lambda>_. 0), we_received_at = (\<lambda>_. 0), we_now = (\<lambda>_. 0)\<rparr>"

text \<open>A poll, and the worker processes what it read.\<close>

definition main_example_moves :: "nat gateway_action list" where
  "main_example_moves = [Poll_select 111000000, Poll_begin, Poll_end example_poll example_turn, Worker_pop, Worker_process]"

definition main_example :: "(json_tree, string, string, nat, nat) main_env" where
  "main_example = \<lparr>me_files = (\<lambda>_. Contents ''{...}''), me_json = tree_ops (\<lambda>_. Inr main_example_doc),
     me_loader = registry_example_os, me_plugins = example_plugins 9,
     me_worker = main_example_worker,
     me_stop = example_stop_env, me_start_time = 100, me_running = run_threads (adapters (example_plugins 9)) (loaded_worker main_example_worker) main_example_moves, me_shutdown = (\<lambda>_. True),
     me_wait_start = 0, me_clock = (\<lambda>_. 0)\<rparr>"


end
