(* ===== verification/Plugin_Json.thy ===== *)
theory Plugin_Json
  imports Json_Interface Processors
begin

text \<open>
  \<open>include/plugin_support/plugin_json.hpp\<close>, the checked accessors plugins read their
  settings with, and the \<open>create_plugin\<close> entry points of the three processors. An accessor
  that calls \<open>fail\<close> throws \<open>std::invalid_argument\<close>.
\<close>

section \<open>Accessors\<close>

definition pj_fail :: "string \<Rightarrow> string \<Rightarrow> string \<Rightarrow> 'a result" where
  "pj_fail plugin field message =
     Inl (Invalid_argument (''invalid '' @ plugin @ '' configuration'' @
       (if field = [] then [] else ''.'' @ field) @ '': '' @ message))"

definition pj_parse_object :: "'j json_ops \<Rightarrow> string \<Rightarrow> string \<Rightarrow> 'j result" where
  "pj_parse_object J settings_json plugin =
     (case js_parse J settings_json of
        Inl err \<Rightarrow> pj_fail plugin [] (''contains invalid JSON: '' @ err)
      | Inr v \<Rightarrow> if \<not> js_is_object J v then pj_fail plugin [] ''must be an object'' else Inr v)"

definition pj_member :: "'j json_ops \<Rightarrow> 'j \<Rightarrow> string \<Rightarrow> string \<Rightarrow> 'j result" where
  "pj_member J obj key plugin =
     (case js_find J obj key of None \<Rightarrow> pj_fail plugin key ''is required'' | Some item \<Rightarrow> Inr item)"

definition pj_string_member :: "'j json_ops \<Rightarrow> 'j \<Rightarrow> string \<Rightarrow> string \<Rightarrow> bool \<Rightarrow> string result" where
  "pj_string_member J obj key plugin allow_empty =
     rbind (pj_member J obj key plugin) (\<lambda>v.
       if \<not> js_is_string J v then pj_fail plugin key ''must be a string''
       else if \<not> allow_empty \<and> js_get_string J v = [] then pj_fail plugin key ''must not be empty''
       else Inr (js_get_string J v))"

definition pj_bool_member :: "'j json_ops \<Rightarrow> 'j \<Rightarrow> string \<Rightarrow> string \<Rightarrow> bool result" where
  "pj_bool_member J obj key plugin =
     rbind (pj_member J obj key plugin) (\<lambda>v.
       if \<not> js_is_boolean J v then pj_fail plugin key ''must be a boolean'' else Inr (js_get_bool J v))"

definition pj_unsigned_integer_member :: "'j json_ops \<Rightarrow> 'j \<Rightarrow> string \<Rightarrow> string \<Rightarrow> u64 result" where
  "pj_unsigned_integer_member J obj key plugin =
     rbind (pj_member J obj key plugin) (\<lambda>v.
       if \<not> js_is_number_integer J v then pj_fail plugin key ''must be a non-negative integer''
       else if js_is_number_unsigned J v then Inr (js_get_uint64 J v)
       else let result = js_get_int64 J v
            in if sint result < 0 then pj_fail plugin key ''must be a non-negative integer''
               else Inr result)"

definition pj_size_member :: "'j json_ops \<Rightarrow> 'j \<Rightarrow> string \<Rightarrow> string \<Rightarrow> bool \<Rightarrow> nat result" where
  "pj_size_member J obj key plugin positive =
     rbind (pj_unsigned_integer_member J obj key plugin) (\<lambda>v.
       if (positive \<and> v = 0) \<or> v > u64_max
       then pj_fail plugin key (if positive then ''must be positive'' else ''is too large'')
       else Inr (unat v))"

definition pj_milliseconds_member :: "'j json_ops \<Rightarrow> 'j \<Rightarrow> string \<Rightarrow> string \<Rightarrow> bool \<Rightarrow> int result" where
  "pj_milliseconds_member J obj key plugin positive =
     rbind (pj_unsigned_integer_member J obj key plugin) (\<lambda>v.
       if (positive \<and> v = 0) \<or> uint v > 2 ^ 63 - 1
       then pj_fail plugin key (if positive then ''must be positive'' else ''is too large'')
       else Inr (uint v))"

text \<open>\<open>minimum\<close> and \<open>maximum\<close> are converted to \<open>std::uint64_t\<close> before the comparison.\<close>

definition pj_int_member :: "'j json_ops \<Rightarrow> 'j \<Rightarrow> string \<Rightarrow> string \<Rightarrow> int \<Rightarrow> int \<Rightarrow> int result" where
  "pj_int_member J obj key plugin minimum maximum =
     rbind (pj_unsigned_integer_member J obj key plugin) (\<lambda>v.
       if v < word_of_int minimum \<or> v > word_of_int maximum
       then pj_fail plugin key (''must be in range '' @ dec_int minimum @ ''..'' @ dec_int maximum)
       else Inr (uint v))"

definition pj_unsigned_member :: "'j json_ops \<Rightarrow> 'j \<Rightarrow> string \<Rightarrow> string \<Rightarrow> int result" where
  "pj_unsigned_member J obj key plugin =
     rbind (pj_unsigned_integer_member J obj key plugin) (\<lambda>v.
       if uint v > 2 ^ 32 - 1 then pj_fail plugin key ''is too large'' else Inr (uint v))"

definition pj_number_member :: "'j json_ops \<Rightarrow> 'j \<Rightarrow> string \<Rightarrow> string \<Rightarrow> double result" where
  "pj_number_member J obj key plugin =
     rbind (pj_member J obj key plugin) (\<lambda>v.
       if \<not> js_is_number J v then pj_fail plugin key ''must be a number''
       else if \<not> isfinite (js_get_double J v) then pj_fail plugin key ''must be finite''
       else Inr (js_get_double J v))"

definition pj_string_array_item ::
  "'j json_ops \<Rightarrow> string \<Rightarrow> string \<Rightarrow> string list \<Rightarrow> 'j \<Rightarrow> string list result" where
  "pj_string_array_item J key plugin result item =
     (if \<not> js_is_string J item then pj_fail plugin key ''must contain only strings''
      else let s = js_get_string J item
           in if s = [] \<or> s \<in> set result then pj_fail plugin key ''must contain unique non-empty strings''
              else Inr (result @ [s]))"

definition pj_string_array_member :: "'j json_ops \<Rightarrow> 'j \<Rightarrow> string \<Rightarrow> string \<Rightarrow> bool \<Rightarrow> string list result" where
  "pj_string_array_member J obj key plugin require_non_empty =
     rbind (pj_member J obj key plugin) (\<lambda>v.
       if \<not> js_is_array J v \<or> (require_non_empty \<and> js_elements J v = [])
       then pj_fail plugin key (if require_non_empty then ''must be a non-empty array'' else ''must be an array'')
       else rfold (pj_string_array_item J key plugin) [] (js_elements J v))"

section \<open>Processor factories\<close>

definition make_threshold_processor :: "'j json_ops \<Rightarrow> string \<Rightarrow> ThresholdProcessor result" where
  "make_threshold_processor J settings_json =
     (let plugin = ''threshold processor'' in
      rbind (pj_parse_object J settings_json plugin) (\<lambda>settings.
      rbind (pj_string_member J settings ''input'' plugin False) (\<lambda>input.
      rbind (pj_number_member J settings ''greater_than'' plugin) (\<lambda>greater_than.
      rbind (pj_string_member J settings ''output'' plugin False) (\<lambda>output.
        ThresholdProcessor_new input greater_than output)))))"

definition make_window_average_processor :: "'j json_ops \<Rightarrow> string \<Rightarrow> WindowAverageProcessor result" where
  "make_window_average_processor J settings_json =
     (let plugin = ''window average processor'' in
      rbind (pj_parse_object J settings_json plugin) (\<lambda>settings.
      rbind (pj_string_member J settings ''input'' plugin False) (\<lambda>input.
      rbind (pj_size_member J settings ''window'' plugin True) (\<lambda>window.
      rbind (pj_string_member J settings ''output'' plugin False) (\<lambda>output.
        WindowAverageProcessor_new input window output)))))"

definition make_inference_processor :: "'j json_ops \<Rightarrow> string \<Rightarrow> InferenceProcessor result" where
  "make_inference_processor J settings_json =
     (let plugin = ''inference processor'' in
      rbind (pj_parse_object J settings_json plugin) (\<lambda>settings.
      rbind (pj_string_member J settings ''runner'' plugin False) (\<lambda>runner.
      rbind (pj_string_array_member J settings ''inputs'' plugin True) (\<lambda>inputs.
      rbind (pj_string_array_member J settings ''outputs'' plugin True) (\<lambda>outputs.
        InferenceProcessor_new runner inputs outputs)))))"

text \<open>
  The C entry points: a null settings pointer (\<^const>\<open>None\<close>) reads as \<open>{}\<close>, and every exception
  becomes a null result.
\<close>

definition settings_text :: "string option \<Rightarrow> string" where
  "settings_text settings = (case settings of None \<Rightarrow> ''{}'' | Some s \<Rightarrow> s)"

definition null_on_throw :: "'a result \<Rightarrow> 'a option" where
  "null_on_throw r = (case r of Inl _ \<Rightarrow> None | Inr a \<Rightarrow> Some a)"

definition create_threshold :: "'j json_ops \<Rightarrow> string option \<Rightarrow> Processor option" where
  "create_threshold J settings =
     map_option Threshold_p (null_on_throw (make_threshold_processor J (settings_text settings)))"

definition create_window_average :: "'j json_ops \<Rightarrow> string option \<Rightarrow> Processor option" where
  "create_window_average J settings =
     map_option Window_p (null_on_throw (make_window_average_processor J (settings_text settings)))"

definition create_inference :: "'j json_ops \<Rightarrow> string option \<Rightarrow> Processor option" where
  "create_inference J settings =
     map_option Inference_p (null_on_throw (make_inference_processor J (settings_text settings)))"

section \<open>Properties\<close>

text \<open>A created processor is well-formed. Whatever the settings text and the JSON library, each of the three
  \<open>create_plugin\<close> functions returns null or a processor that satisfies the invariant the pipeline relies on.\<close>

theorem created_processors_ok:
  "pred_option Processor_ok (create_threshold J settings) \<and>
   pred_option Processor_ok (create_window_average J settings) \<and>
   pred_option Processor_ok (create_inference J settings)"
  by (auto simp: create_threshold_def create_window_average_def create_inference_def null_on_throw_def
      make_threshold_processor_def make_window_average_processor_def make_inference_processor_def Let_def
      ThresholdProcessor_new_def WindowAverageProcessor_new_def InferenceProcessor_new_def pred_option_def
      rbind_Inr_iff split: sum.splits if_splits)

text \<open>Integer settings are range-checked without wrap-around. For bounds that are non-negative 64-bit integers
  \<open>int_member\<close> succeeds exactly if the member is an integer within the bounds, and returns it unchanged.\<close>

theorem int_member_in_range:
  assumes "0 \<le> minimum" and "minimum < 2 ^ 64" and "0 \<le> maximum" and "maximum < 2 ^ 64"
  shows "pj_int_member J obj key plugin minimum maximum = Inr n \<longleftrightarrow>
     minimum \<le> n \<and> n \<le> maximum \<and>
     pj_unsigned_integer_member J obj key plugin = Inr (word_of_int n)"
proof -
  have w: "uint (word_of_int k :: u64) = k" if "0 \<le> k" "k < 2 ^ 64" for k :: int
    using that by (simp add: uint_word_of_int take_bit_int_eq_self)
  have "pj_int_member J obj key plugin minimum maximum = Inr n \<longleftrightarrow>
      (\<exists>v. pj_unsigned_integer_member J obj key plugin = Inr v \<and> minimum \<le> uint v \<and> uint v \<le> maximum \<and> n = uint v)"
    using w [OF assms(1,2)] w [OF assms(3,4)]
    by (auto simp: pj_int_member_def rbind_Inr_iff pj_fail_def word_less_def not_less split: if_splits)
  also have "\<dots> \<longleftrightarrow> minimum \<le> n \<and> n \<le> maximum \<and>
      pj_unsigned_integer_member J obj key plugin = Inr (word_of_int n)"
    using w [of n] assms by auto
  finally show ?thesis .
qed

definition example_settings :: json_tree where
  "example_settings = J_object [(''port'', J_unsigned 1883)]"

theorem int_member_in_range_witness:
  "pj_int_member (tree_ops Inl) example_settings ''port'' ''MQTT event publisher'' 1 65535 = Inr 1883"
proof -
  have "pj_unsigned_integer_member (tree_ops Inl) example_settings ''port'' ''MQTT event publisher'' =
      Inr (word_of_int 1883)" by code_simp
  then show ?thesis
    using int_member_in_range [of 1 65535 "tree_ops Inl" example_settings "''port''" "''MQTT event publisher''" 1883]
    by simp
qed

end
