(* ===== verification/Json_Text.thy ===== *)
theory Json_Text
  imports Data_Model
begin

text \<open>
  The hand-written JSON encoder of \<open>src/publisher/mqtt/mqtt_event_publisher.cpp\<close>
  (\<open>append_json_string\<close>, \<open>append_json_scalar\<close>, \<open>event_to_json\<close>), the JSON grammar as
  inductive predicates, and a decoder for strings: the encoder always emits
  JSON and its strings decode to what was encoded.
\<close>

section \<open>The encoder\<close>

abbreviation dquote :: char where
  "dquote \<equiv> CHR 0x22"

abbreviation bslash :: char where
  "bslash \<equiv> CHR 0x5C"

definition hex_digits :: string where
  "hex_digits = ''0123456789abcdef''"

definition json_char :: "char \<Rightarrow> string" where
  "json_char c =
     (if c = dquote then [bslash, dquote]
      else if c = bslash then [bslash, bslash]
      else if c = CHR 0x08 then [bslash, CHR ''b'']
      else if c = CHR 0x0C then [bslash, CHR ''f'']
      else if c = CHR 0x0A then [bslash, CHR ''n'']
      else if c = CHR 0x0D then [bslash, CHR ''r'']
      else if c = CHR 0x09 then [bslash, CHR ''t'']
      else if (of_char c :: nat) < 32
      then [bslash] @ ''u00'' @ [hex_digits ! (of_char c div 16 mod 16), hex_digits ! (of_char c mod 16)]
      else [c])"

definition append_json_string :: "string \<Rightarrow> string" where
  "append_json_string s = [dquote] @ concat (map json_char s) @ [dquote]"

fun join_comma :: "string list \<Rightarrow> string" where
  "join_comma [] = []"
| "join_comma [x] = x"
| "join_comma (x # xs) = x @ '','' @ join_comma xs"

fun append_json_scalar :: "Scalar \<Rightarrow> string" where
  "append_json_scalar (Int64 i) = to_string_i64 i"
| "append_json_scalar (Dbl d) = (if isfinite d then format_general17 d else ''null'')"
| "append_json_scalar (Boolean b) = (if b then ''true'' else ''false'')"
| "append_json_scalar (Bytes bs) = ''['' @ join_comma (map (\<lambda>b. dec_digits (uint b)) bs) @ '']''"
| "append_json_scalar (Str s) = append_json_string s"

definition json_key :: "string \<Rightarrow> string" where
  "json_key k = [dquote] @ k @ [dquote] @ '':''"

definition reading_to_json :: "Reading \<Rightarrow> string" where
  "reading_to_json r =
     ''{'' @ json_key ''point'' @ append_json_string (rd_point r) @
     '','' @ json_key ''value'' @ append_json_scalar (rd_value r) @
     '','' @ json_key ''quality'' @ append_json_string (quality_name (rd_quality r)) @
     '','' @ json_key ''unit'' @ append_json_string (rd_unit r) @
     '','' @ json_key ''source_time_ns'' @ to_string_i64 (rd_source_time_ns r) @
     '','' @ json_key ''received_time_ns'' @ to_string_i64 (rd_received_time_ns r) @
     '','' @ json_key ''derived'' @ (if rd_derived r then ''true'' else ''false'') @ ''}''"

definition event_to_json :: "Event \<Rightarrow> string" where
  "event_to_json e =
     ''{'' @ json_key ''event_id'' @ append_json_string (ev_id e) @
     '','' @ json_key ''device_id'' @ append_json_string (ev_device_id e) @
     '','' @ json_key ''source'' @ append_json_string (ev_source e) @
     '','' @ json_key ''model_version'' @ append_json_string (ev_model_version e) @
     '','' @ json_key ''readings'' @ ''['' @ join_comma (map reading_to_json (ev_readings e)) @ '']'' @ ''}''"

section \<open>The grammar\<close>

text \<open>RFC 8259 without optional white space, on bytes.\<close>

definition digits :: "string \<Rightarrow> bool" where
  "digits s \<longleftrightarrow> s \<noteq> [] \<and> (\<forall>c \<in> set s. is_digit c)"

definition json_int :: "string \<Rightarrow> bool" where
  "json_int s \<longleftrightarrow> digits s \<and> (hd s = CHR ''0'' \<longrightarrow> s = ''0'')"

inductive json_number :: "string \<Rightarrow> bool" where
  "json_int ip \<Longrightarrow> fp = [] \<or> (\<exists>ds. fp = CHR ''.'' # ds \<and> digits ds) \<Longrightarrow>
     ep = [] \<or> (\<exists>sg ds. ep = CHR ''e'' # sg # ds \<and> (sg = CHR ''+'' \<or> sg = CHR ''-'') \<and> digits ds) \<Longrightarrow>
     json_number (sign_text s @ ip @ fp @ ep)"

definition is_hex :: "char \<Rightarrow> bool" where
  "is_hex c \<longleftrightarrow> c \<in> set hex_digits"

inductive json_body :: "string \<Rightarrow> bool" where
  "json_body []"
| "(32 :: nat) \<le> of_char c \<Longrightarrow> c \<noteq> dquote \<Longrightarrow> c \<noteq> bslash \<Longrightarrow> json_body s \<Longrightarrow> json_body (c # s)"
| "e \<in> {dquote, bslash, CHR ''/'', CHR ''b'', CHR ''f'', CHR ''n'', CHR ''r'', CHR ''t''} \<Longrightarrow>
     json_body s \<Longrightarrow> json_body (bslash # e # s)"
| "is_hex a \<Longrightarrow> is_hex b \<Longrightarrow> is_hex c \<Longrightarrow> is_hex d \<Longrightarrow> json_body s \<Longrightarrow>
     json_body (bslash # CHR ''u'' # a # b # c # d # s)"

definition json_string :: "string \<Rightarrow> bool" where
  "json_string s \<longleftrightarrow> (\<exists>b. s = [dquote] @ b @ [dquote] \<and> json_body b)"

inductive json_value :: "string \<Rightarrow> bool"
  and json_elements :: "string list \<Rightarrow> bool"
  and json_members :: "string list \<Rightarrow> bool" where
  "json_value ''null''"
| "json_value ''true''"
| "json_value ''false''"
| "json_number s \<Longrightarrow> json_value s"
| "json_string s \<Longrightarrow> json_value s"
| "json_elements xs \<Longrightarrow> json_value (''['' @ join_comma xs @ '']'')"
| "json_members mems \<Longrightarrow> json_value (''{'' @ join_comma mems @ ''}'')"
| "json_elements []"
| "json_value x \<Longrightarrow> json_elements xs \<Longrightarrow> json_elements (x # xs)"
| "json_members []"
| "json_string k \<Longrightarrow> json_value v \<Longrightarrow> json_members mems \<Longrightarrow> json_members ((k @ '':'' @ v) # mems)"

section \<open>Decoding strings\<close>

definition hex_val :: "char \<Rightarrow> nat option" where
  "hex_val c = map_of (zip hex_digits [0..<16]) c"

definition simple_escape :: "char \<Rightarrow> char option" where
  "simple_escape c = map_of
     [(dquote, dquote), (bslash, bslash), (CHR ''/'', CHR ''/''), (CHR ''b'', CHR 0x08), (CHR ''f'', CHR 0x0C),
      (CHR ''n'', CHR 0x0A), (CHR ''r'', CHR 0x0D), (CHR ''t'', CHR 0x09)] c"

text \<open>
  The decoded string up to the closing quote and the rest of the text. Of the \<open>\u\<close>
  escapes it reads those below \<open>0x80\<close>, which stand for one byte.
\<close>

fun decode_body :: "string \<Rightarrow> (string \<times> string) option" where
  "decode_body [] = None"
| "decode_body (c # s) =
     (if c = dquote then Some ([], s)
      else if c = bslash then
        (case s of
           [] \<Rightarrow> None
         | e # s' \<Rightarrow>
             if e = CHR ''u'' then
               (case s' of
                  a # b # x # y # s'' \<Rightarrow>
                    (case (hex_val a, hex_val b, hex_val x, hex_val y) of
                       (Some 0, Some 0, Some h, Some l) \<Rightarrow>
                         if 16 * h + l < 128
                         then map_option (apfst (Cons (char_of (16 * h + l)))) (decode_body s'')
                         else None
                     | _ \<Rightarrow> None)
                | _ \<Rightarrow> None)
             else (case simple_escape e of
                     None \<Rightarrow> None
                   | Some d \<Rightarrow> map_option (apfst (Cons d)) (decode_body s')))
      else if (of_char c :: nat) < 32 then None
      else map_option (apfst (Cons c)) (decode_body s))"

definition decode_json_string :: "string \<Rightarrow> (string \<times> string) option" where
  "decode_json_string s = (case s of [] \<Rightarrow> None | c # t \<Rightarrow> if c = dquote then decode_body t else None)"

section \<open>Lemmas: strings\<close>

lemma hex_val_nth: "n < 16 \<Longrightarrow> hex_val (hex_digits ! n) = Some n"
  unfolding hex_val_def by (subst map_of_zip_nth) (simp_all add: hex_digits_def)

lemma is_hex_nth: "n < 16 \<Longrightarrow> is_hex (hex_digits ! n)"
  using nth_mem [of n hex_digits] by (simp add: is_hex_def hex_digits_def)

lemma hex_zero: "hex_val (CHR ''0'') = Some 0" "is_hex (CHR ''0'')"
  using hex_val_nth [of 0] is_hex_nth [of 0] by (simp_all add: hex_digits_def)

text \<open>The three shapes of an encoded character.\<close>

definition short_escapes :: "(char \<times> char) list" where
  "short_escapes =
     [(dquote, dquote), (bslash, bslash), (CHR 0x08, CHR ''b''), (CHR 0x0C, CHR ''f''),
      (CHR 0x0A, CHR ''n''), (CHR 0x0D, CHR ''r''), (CHR 0x09, CHR ''t'')]"

lemma json_char_cases:
  obtains (short) e where "(c, e) \<in> set short_escapes" "json_char c = [bslash, e]"
  | (hex) "(of_char c :: nat) < 32"
      "json_char c = [bslash, CHR ''u'', CHR ''0'', CHR ''0'',
         hex_digits ! (of_char c div 16 mod 16), hex_digits ! (of_char c mod 16)]"
  | (plain) "c \<noteq> dquote" "c \<noteq> bslash" "\<not> (of_char c :: nat) < 32" "json_char c = [c]"
proof -
  consider "c \<in> fst ` set short_escapes" | "c \<notin> fst ` set short_escapes" "(of_char c :: nat) < 32"
    | "c \<notin> fst ` set short_escapes" "\<not> (of_char c :: nat) < 32" by blast
  then show thesis
  proof cases
    case 1
    then show thesis by (auto simp: short_escapes_def json_char_def intro: short)
  next
    case 2
    then have "json_char c = [bslash, CHR ''u'', CHR ''0'', CHR ''0'',
         hex_digits ! (of_char c div 16 mod 16), hex_digits ! (of_char c mod 16)]"
      by (simp add: short_escapes_def json_char_def)
    with 2 show thesis by (intro hex)
  next
    case 3
    then show thesis by (intro plain) (simp_all add: short_escapes_def json_char_def)
  qed
qed

lemma short_escape_decodes: "(c, e) \<in> set short_escapes \<Longrightarrow> simple_escape e = Some c \<and> e \<noteq> CHR ''u''"
  by (auto simp: short_escapes_def simple_escape_def)

lemma decode_json_char: "decode_body (json_char c @ s) = map_option (apfst (Cons c)) (decode_body s)"
proof (cases rule: json_char_cases [of c])
  case (short e)
  then show ?thesis using short_escape_decodes [OF short(1)] by simp
next
  case hex
  have "(of_char c :: nat) div 16 mod 16 < 16" "(of_char c :: nat) mod 16 < 16" by simp_all
  note v = this [THEN hex_val_nth]
  have "16 * ((of_char c :: nat) div 16 mod 16) + of_char c mod 16 = of_char c"
    using hex(1) by simp
  then show ?thesis using hex(1) v by (simp add: hex(2) hex_zero)
next
  case plain
  then show ?thesis by simp
qed

lemma decode_concat: "decode_body (concat (map json_char s) @ dquote # rest) = Some (s, rest)"
  by (induction s) (simp_all add: decode_json_char)

lemma json_body_char: "json_body t \<Longrightarrow> json_body (json_char c @ t)"
proof (cases rule: json_char_cases [of c])
  case (short e)
  assume "json_body t"
  moreover have "e \<in> {dquote, bslash, CHR ''/'', CHR ''b'', CHR ''f'', CHR ''n'', CHR ''r'', CHR ''t''}"
    using short(1) by (auto simp: short_escapes_def)
  ultimately show ?thesis using json_body.intros(3) [of e t] short(2) by simp
next
  case hex
  assume "json_body t"
  moreover have "(of_char c :: nat) div 16 mod 16 < 16" "(of_char c :: nat) mod 16 < 16" by simp_all
  note v = this [THEN is_hex_nth]
  ultimately show ?thesis
    using json_body.intros(4) [OF hex_zero(2) hex_zero(2) v] hex(2) by simp
next
  case plain
  assume "json_body t"
  then show ?thesis using json_body.intros(2) plain by simp
qed

lemma json_string_append: "json_string (append_json_string s)"
proof -
  have "json_body (concat (map json_char s))"
    by (induction s) (auto intro: json_body.intros(1) json_body_char)
  then show ?thesis by (auto simp: json_string_def append_json_string_def)
qed

section \<open>Lemmas: numbers\<close>

lemma hd_dec_digits_zero: "0 \<le> n \<Longrightarrow> hd (dec_digits n) = CHR ''0'' \<longleftrightarrow> n = 0"
proof (induction n rule: dec_digits.induct)
  case (1 n)
  have "digit_char 0 = CHR ''0''" by code_simp
  then have "digit_char n = CHR ''0'' \<longleftrightarrow> n = 0" if "n < 10"
    using that 1(2) digit_val_digit_char [of n] digit_val_digit_char [of 0] by (metis zero_less_numeral order_refl)
  then show ?case using 1 by (subst dec_digits.simps) (auto simp: hd_append)
qed

lemma digits_dec_digits: "0 \<le> n \<Longrightarrow> digits (dec_digits n)"
  using dec_digits_digits by (auto simp: digits_def)

lemma json_int_take: "0 \<le> n \<Longrightarrow> json_int (take (Suc k) (dec_digits n))"
proof (cases "n = 0")
  case True
  have "dec_digits 0 = ''0''" by code_simp
  then show ?thesis using True by (simp add: json_int_def digits_def is_digit_def)
next
  case False
  assume n: "0 \<le> n"
  have "digits (take (Suc k) (dec_digits n))"
    using digits_dec_digits [OF n] set_take_subset [of "Suc k" "dec_digits n"] by (auto simp: digits_def)
  then show ?thesis using hd_dec_digits_zero [OF n] False by (simp add: json_int_def)
qed

lemma json_int_dec_digits: "0 \<le> n \<Longrightarrow> json_int (dec_digits n)"
  using json_int_take [of n "length (dec_digits n)"] by simp

lemma json_int_zero: "json_int ''0''"
  by (simp add: json_int_def digits_def is_digit_def)

lemmas json_number_plain = json_number.intros [where fp = "[]" and ep = "[]", simplified]

lemma json_number_dec_int: "json_number (dec_int i)"
  using json_number_plain [OF json_int_dec_digits [of "\<bar>i\<bar>"], of "i < 0"]
  by (auto simp: dec_int_def sign_text_def)

lemma json_number_i64: "json_number (to_string_i64 w)"
  by (simp add: to_string_i64_def json_number_dec_int)

lemma with_fraction_shape:
  assumes "\<forall>c \<in> set fp. is_digit c"
  obtains fr where "with_fraction ip fp = ip @ fr" "fr = [] \<or> (\<exists>ds. fr = CHR ''.'' # ds \<and> digits ds)"
proof (cases "strip_zeros fp = []")
  case True
  then show thesis by (intro that [of "[]"]) (simp_all add: with_fraction_def)
next
  case False
  have "set (strip_zeros fp) \<subseteq> set fp"
    by (auto simp: strip_zeros_def dest: set_dropWhileD)
  with assms False show thesis
    by (intro that [of "CHR ''.'' # strip_zeros fp"]) (auto simp: with_fraction_def digits_def)
qed

lemma json_number_with_fraction:
  assumes "json_int ip" "\<forall>c \<in> set fp. is_digit c"
    and "ep = [] \<or> (\<exists>sg ds. ep = CHR ''e'' # sg # ds \<and> (sg = CHR ''+'' \<or> sg = CHR ''-'') \<and> digits ds)"
  shows "json_number (sign_text s @ with_fraction ip fp @ ep)"
proof -
  obtain fr where "with_fraction ip fp = ip @ fr" "fr = [] \<or> (\<exists>ds. fr = CHR ''.'' # ds \<and> digits ds)"
    using with_fraction_shape [OF assms(2)] .
  then show ?thesis using json_number.intros [OF assms(1) _ assms(3), of fr s] by simp
qed

lemma digits_pad_left: "0 \<le> n \<Longrightarrow> digits (pad_left k (dec_digits n))"
  using dec_digits_digits by (auto simp: digits_def pad_left_def is_digit_def)

lemma round_half_even_nonneg: "0 \<le> r \<Longrightarrow> 0 \<le> round_half_even r"
  by (simp add: round_half_even_def Let_def)

lemma pow10_pos: "0 < pow10 e"
  by (simp add: pow10_def)

lemma json_number_general17:
  assumes "0 \<le> r"
  shows "json_number (format_general17 (Finite s r))"
proof (cases "r = 0")
  case True
  then show ?thesis using json_number_plain [OF json_int_zero, of s] by simp
next
  case False
  define n0 where "n0 = round_half_even (r / pow10 (ilog10 r - 16))"
  define n where "n = (if n0 = 10 ^ 17 then 10 ^ 16 else n0)"
  define x where "x = (if n0 = 10 ^ 17 then ilog10 r + 1 else ilog10 r)"
  have "0 \<le> n0"
    using assms pow10_pos by (simp add: n0_def round_half_even_nonneg less_imp_le)
  then have n: "0 \<le> n" by (simp add: n_def)
  have tail: "\<forall>c \<in> set (drop k (dec_digits n)). is_digit c" for k
    using dec_digits_digits [OF n] by (meson in_set_dropD)
  have lead: "\<forall>c \<in> set (replicate k (CHR ''0'') @ dec_digits n). is_digit c" for k
    using dec_digits_digits [OF n] by (auto simp: is_digit_def)
  have shape: "format_general17 (Finite s r) = sign_text s @
      (if x < -4 \<or> 17 \<le> x
       then with_fraction (take 1 (dec_digits n)) (drop 1 (dec_digits n)) @ ''e'' @
              (if x < 0 then ''-'' else ''+'') @ pad_left 2 (dec_digits \<bar>x\<bar>)
       else if 0 \<le> x
       then with_fraction (take (nat x + 1) (dec_digits n)) (drop (nat x + 1) (dec_digits n))
       else with_fraction ''0'' (replicate (nat (- x - 1)) (CHR ''0'') @ dec_digits n))"
    using False by (simp add: Let_def n0_def n_def x_def)
  consider (expo) "x < -4 \<or> 17 \<le> x" | (big) "\<not> (x < -4 \<or> 17 \<le> x)" "0 \<le> x"
    | (small) "\<not> (x < -4 \<or> 17 \<le> x)" "\<not> 0 \<le> x" by blast
  then show ?thesis
  proof cases
    case expo
    then show ?thesis unfolding shape
      using json_number_with_fraction [OF json_int_take [OF n, of 0] tail [of 1],
          of "''e'' @ (if x < 0 then ''-'' else ''+'') @ pad_left 2 (dec_digits \<bar>x\<bar>)" s]
        digits_pad_left [of "\<bar>x\<bar>" 2] by (cases "x < 0") simp_all
  next
    case big
    then show ?thesis unfolding shape
      using json_number_with_fraction [OF json_int_take [OF n, of "nat x"] tail [of "nat x + 1"], of "[]" s]
      by simp
  next
    case small
    then show ?thesis unfolding shape
      using json_number_with_fraction [OF json_int_zero lead, of "[]" s] by simp
  qed
qed

section \<open>The payload is JSON\<close>

fun wf_scalar :: "Scalar \<Rightarrow> bool" where
  "wf_scalar (Dbl d) = wf_double d"
| "wf_scalar _ = True"

lemma json_elements_iff: "json_elements xs \<longleftrightarrow> (\<forall>x \<in> set xs. json_value x)"
proof
  show "json_elements xs \<Longrightarrow> \<forall>x \<in> set xs. json_value x"
    by (induction xs) (auto elim: json_elements.cases)
  show "\<forall>x \<in> set xs. json_value x \<Longrightarrow> json_elements xs"
    by (induction xs) (auto intro: json_value_json_elements_json_members.intros)
qed

lemma json_bool: "json_value (if b then ''true'' else ''false'')"
  by (auto intro: json_value_json_elements_json_members.intros)

lemma json_value_scalar: "wf_scalar v \<Longrightarrow> json_value (append_json_scalar v)"
proof (cases v)
  case (Dbl d)
  assume wf: "wf_scalar v"
  show ?thesis
  proof (cases d)
    case (Finite s r)
    then have "json_number (format_general17 d)"
      using wf Dbl json_number_general17 [OF representable_nonneg] by simp
    then show ?thesis using Dbl Finite by (auto intro: json_value_json_elements_json_members.intros)
  qed (auto simp: Dbl intro: json_value_json_elements_json_members.intros)
next
  case (Bytes bs)
  have "json_number (dec_digits (uint (b :: u8)))" for b
    using json_number_plain [OF json_int_dec_digits, of "uint b" False] by (simp add: sign_text_def)
  then have "json_elements (map (\<lambda>b. dec_digits (uint b)) bs)"
    by (auto simp: json_elements_iff intro: json_value_json_elements_json_members.intros)
  then show ?thesis using json_value_json_elements_json_members.intros(6) Bytes by simp
qed (auto simp: json_bool intro: json_value_json_elements_json_members.intros json_number_i64 json_string_append)

text \<open>A key of letters, digits and underscores, quoted, is a string.\<close>

lemma json_string_key:
  assumes "list_all (\<lambda>c. (32 :: nat) \<le> of_char c \<and> c \<noteq> dquote \<and> c \<noteq> bslash) k"
  shows "json_string ([dquote] @ k @ [dquote])"
proof -
  have "json_body k" using assms by (induction k) (auto intro: json_body.intros)
  then show ?thesis by (auto simp: json_string_def)
qed

lemma json_member:
  assumes "list_all (\<lambda>c. (32 :: nat) \<le> of_char c \<and> c \<noteq> dquote \<and> c \<noteq> bslash) k" "json_value v" "json_members m"
  shows "json_members ((json_key k @ v) # m)"
  using json_value_json_elements_json_members.intros(11) [OF json_string_key [OF assms(1)] assms(2,3)]
  by (simp add: json_key_def)

lemma json_object: "json_members m \<Longrightarrow> json_value (''{'' @ join_comma m @ ''}'')"
  by (rule json_value_json_elements_json_members.intros)

lemmas json_value_string = json_value_json_elements_json_members.intros(5) [OF json_string_append]
  and json_value_i64 = json_value_json_elements_json_members.intros(4) [OF json_number_i64]
  and json_array = json_value_json_elements_json_members.intros(6)
  and json_members_Nil = json_value_json_elements_json_members.intros(10)

lemma json_value_reading: "wf_scalar (rd_value r) \<Longrightarrow> json_value (reading_to_json r)"
proof -
  assume "wf_scalar (rd_value r)"
  then have "json_value (''{'' @ join_comma
      [json_key ''point'' @ append_json_string (rd_point r),
       json_key ''value'' @ append_json_scalar (rd_value r),
       json_key ''quality'' @ append_json_string (quality_name (rd_quality r)),
       json_key ''unit'' @ append_json_string (rd_unit r),
       json_key ''source_time_ns'' @ to_string_i64 (rd_source_time_ns r),
       json_key ''received_time_ns'' @ to_string_i64 (rd_received_time_ns r),
       json_key ''derived'' @ (if rd_derived r then ''true'' else ''false'')] @ ''}'')"
    by (intro json_object json_member json_value_string json_value_i64 json_value_scalar json_bool json_members_Nil)
      simp_all
  then show ?thesis by (simp add: reading_to_json_def)
qed

text \<open>
  C21: The payload the MQTT publisher sends for an event is always one JSON object:
  any bytes in the strings are escaped, every number has JSON syntax, and infinities and
  NaNs are written as \<open>null\<close>.
\<close>

theorem payload_is_json:
  assumes "\<forall>r \<in> set (ev_readings e). wf_scalar (rd_value r)"
  shows "json_value (event_to_json e)"
proof -
  have "json_value (''['' @ join_comma (map reading_to_json (ev_readings e)) @ '']'')"
    using assms json_value_reading by (intro json_array) (auto simp: json_elements_iff)
  then have "json_value (''{'' @ join_comma
      [json_key ''event_id'' @ append_json_string (ev_id e),
       json_key ''device_id'' @ append_json_string (ev_device_id e),
       json_key ''source'' @ append_json_string (ev_source e),
       json_key ''model_version'' @ append_json_string (ev_model_version e),
       json_key ''readings'' @ ''['' @ join_comma (map reading_to_json (ev_readings e)) @ '']''] @ ''}'')"
    by (intro json_object json_member json_value_string json_members_Nil) simp_all
  then show ?thesis by (simp add: event_to_json_def)
qed

theorem payload_is_json_witness:
  "json_value (event_to_json \<lparr>ev_id = ''1'', ev_device_id = [CHR 0x22, CHR 0x0A], ev_source = ''t'',
     ev_readings = [\<lparr>rd_point = ''p'', rd_value = Dbl (Finite True 0), rd_quality = Good, rd_unit = [],
       rd_source_time_ns = 0, rd_received_time_ns = -1, rd_derived = True\<rparr>], ev_model_version = []\<rparr>)"
  by (rule payload_is_json) (simp add: representable_def exI [of _ "0 :: int"])

text \<open>
  C22: Every string written into the payload decodes to exactly the string that was
  encoded, and the decoder stops at its closing quote.
\<close>

theorem json_string_roundtrip: "decode_json_string (append_json_string s @ rest) = Some (s, rest)"
  using decode_concat [of s rest] by (simp add: append_json_string_def decode_json_string_def)

end
