(* ===== verification/Mqtt.thy ===== *)
theory Mqtt
  imports Runtime Plugin_Json Json_Text
begin

text \<open>
  \<open>src/publisher/mqtt/mqtt_event_publisher.cpp\<close>: the event publisher on top of the Paho
  MQTT client library. Paho is not part of the repository: its constants and
  \<open>MQTTAsync_strerror\<close> are the record \<open>paho\<close>, the return codes of its calls are arguments, and
  the calls made to it are logged in \<open>mq_calls\<close>. Its callbacks run on threads of its own;
  they are operations of their own here, and \<open>stop\<close> takes the callbacks that run while it waits.
\<close>

section \<open>Paho\<close>

record paho =
  MQTTASYNC_SUCCESS :: int
  MQTTASYNC_DISCONNECTED :: int
  MQTTASYNC_MAX_MESSAGES_INFLIGHT :: int
  MQTTASYNC_NO_MORE_MSGIDS :: int
  MQTTASYNC_OPERATION_INCOMPLETE :: int
  MQTTASYNC_MAX_BUFFERED_MESSAGES :: int
  MQTTVERSION_3_1_1 :: int
  MQTTAsync_strerror :: "int \<Rightarrow> string option"

text \<open>The options \<open>start\<close> fills in; a null pointer is \<^const>\<open>None\<close>.\<close>

record connect_options =
  co_keepAliveInterval :: int
  co_cleansession :: int
  co_username :: "string option"
  co_password :: "string option"
  co_MQTTVersion :: int
  co_automaticReconnect :: int
  co_minRetryInterval :: int
  co_maxRetryInterval :: int

text \<open>Handles are numbers; a failed \<open>MQTTAsync_create\<close> leaves none the code keeps.\<close>

datatype paho_call =
    P_create string string "nat option"
  | P_set_connection_lost nat
  | P_set_connected nat
  | P_connect nat connect_options
  | P_send nat string string int int
  | P_disconnect nat int
  | P_destroy nat

definition paho_error :: "paho \<Rightarrow> string \<Rightarrow> int \<Rightarrow> exn" where
  "paho_error pa operation rc =
     Runtime_error (operation @ '' failed ('' @ dec_int rc @
       (case MQTTAsync_strerror pa rc of None \<Rightarrow> [] | Some description \<Rightarrow> '': '' @ description) @ '')'')"

definition is_temporarily_unavailable :: "paho \<Rightarrow> int \<Rightarrow> bool" where
  "is_temporarily_unavailable pa rc \<longleftrightarrow>
     rc = MQTTASYNC_DISCONNECTED pa \<or> rc = MQTTASYNC_MAX_MESSAGES_INFLIGHT pa \<or>
     rc = MQTTASYNC_NO_MORE_MSGIDS pa \<or> rc = MQTTASYNC_OPERATION_INCOMPLETE pa \<or>
     rc = MQTTASYNC_MAX_BUFFERED_MESSAGES pa"

section \<open>State\<close>

record MqttPublisherConfig =
  mc_host :: string
  mc_port :: int
  mc_keepalive :: int
  mc_client_id :: string
  mc_topic_prefix :: string
  mc_qos :: int
  mc_retain :: bool
  mc_clean_session :: bool
  mc_username :: string
  mc_password :: string
  mc_reconnect_delay :: "32 word"
  mc_reconnect_delay_max :: "32 word"
  mc_reconnect_exponential_backoff :: bool

record MqttPublisherStats =
  ms_accepted :: u64
  ms_acknowledged :: u64
  ms_unavailable :: u64
  ms_rejected :: u64
  ms_connected :: bool

record MqttEventPublisher =
  mq_config :: MqttPublisherConfig
  mq_client :: "nat option"
  mq_disconnect_complete :: bool
  mq_configured :: bool
  mq_started :: bool
  mq_connected :: bool
  mq_accepted :: u64
  mq_acknowledged :: u64
  mq_unavailable :: u64
  mq_rejected :: u64
  mq_calls :: "paho_call list"

section \<open>Configuration\<close>

text \<open>\<open>find_first_of("+#")\<close> and \<open>find('\0')\<close> both find nothing.\<close>

definition topic_text :: "string \<Rightarrow> bool" where
  "topic_text s \<longleftrightarrow> \<not> list_ex (\<lambda>c. c = CHR ''+'' \<or> c = CHR ''#'') s \<and> \<not> list_ex (\<lambda>c. c = CHR 0x00) s"

definition validate_config :: "MqttPublisherConfig \<Rightarrow> unit result" where
  "validate_config c =
     (if mc_host c = [] \<or> mc_client_id c = [] \<or> mc_topic_prefix c = []
      then Inl (Invalid_argument ''MQTT host, client_id and topic_prefix are required'')
      else if mc_port c \<le> 0 \<or> mc_port c > 65535
      then Inl (Invalid_argument ''MQTT port must be between 1 and 65535'')
      else if mc_keepalive c < 0 \<or> mc_keepalive c = 1 \<or> mc_keepalive c > 65535
      then Inl (Invalid_argument ''MQTT keepalive must be 0 or in range 2..65535'')
      else if \<not> topic_text (mc_topic_prefix c)
      then Inl (Invalid_argument ''MQTT topic_prefix must not contain +, # or NUL'')
      else if mc_qos c < 0 \<or> mc_qos c > 2
      then Inl (Invalid_argument ''MQTT QoS must be 0, 1 or 2'')
      else if mc_reconnect_delay c = 0 \<or> mc_reconnect_delay_max c < mc_reconnect_delay c \<or>
              mc_reconnect_delay_max c > 2147483647
      then Inl (Invalid_argument ''MQTT reconnect delays must satisfy 1 <= delay <= delay_max <= INT_MAX'')
      else if \<not> mc_reconnect_exponential_backoff c
      then Inl (Invalid_argument ''Paho MQTTAsync requires exponential reconnect backoff'')
      else Inr ())"

definition MqttEventPublisher_new :: "MqttPublisherConfig \<Rightarrow> MqttEventPublisher result" where
  "MqttEventPublisher_new config =
     rbind (validate_config config) (\<lambda>_.
       Inr \<lparr>mq_config = config, mq_client = None, mq_disconnect_complete = False, mq_configured = False,
            mq_started = False, mq_connected = False, mq_accepted = 0, mq_acknowledged = 0,
            mq_unavailable = 0, mq_rejected = 0, mq_calls = []\<rparr>)"

definition check_device :: "unit \<Rightarrow> DeviceConfig \<Rightarrow> unit result" where
  "check_device u device =
     (if \<not> topic_text (dev_id device)
      then Inl (Invalid_argument (''MQTT topic device id must not contain +, # or NUL: '' @ dev_id device))
      else Inr u)"

definition MqttEventPublisher_configure ::
  "GatewayConfig \<Rightarrow> MqttEventPublisher \<Rightarrow> MqttEventPublisher result" where
  "MqttEventPublisher_configure gw p =
     (if mq_started p then Inl (Logic_error ''cannot configure a running MQTT event publisher'')
      else rbind (validate_config (mq_config p)) (\<lambda>_.
           rbind (rfold check_device () (gw_devices gw)) (\<lambda>_.
           Inr (p\<lparr>mq_configured := True\<rparr>))))"

text \<open>A host with a colon that is not in brackets already is an IPv6 address.\<close>

definition server_uri :: "MqttPublisherConfig \<Rightarrow> string" where
  "server_uri c =
     (let h = mc_host c;
          host = (if CHR '':'' \<in> set h \<and> \<not> (2 \<le> length h \<and> hd h = CHR ''['' \<and> last h = CHR '']'')
                  then ''['' @ h @ '']'' else h)
      in ''tcp://'' @ host @ '':'' @ dec_int (mc_port c))"

definition topic_for :: "MqttPublisherConfig \<Rightarrow> Event \<Rightarrow> string" where
  "topic_for c event =
     (let prefix = mc_topic_prefix c
      in (if last prefix \<noteq> CHR ''/'' then prefix @ ''/'' else prefix) @ ev_device_id event @ ''/event'')"

section \<open>Starting\<close>

definition log_paho :: "paho_call \<Rightarrow> MqttEventPublisher \<Rightarrow> MqttEventPublisher" where
  "log_paho c p = p\<lparr>mq_calls := mq_calls p @ [c]\<rparr>"

text \<open>The lambda \<open>cleanup\<close>; \<open>MQTTAsync_destroy\<close> resets the handle it is given.\<close>

definition cleanup :: "MqttEventPublisher \<Rightarrow> MqttEventPublisher" where
  "cleanup p =
     (let p1 = (case mq_client p of
                  None \<Rightarrow> p
                | Some h \<Rightarrow> log_paho (P_destroy h) (p\<lparr>mq_client := None\<rparr>))
      in p1\<lparr>mq_started := False, mq_connected := False\<rparr>)"

text \<open>\<open>static_cast<int>\<close> of an \<open>unsigned\<close> is \<^const>\<open>sint\<close>.\<close>

definition options_for :: "paho \<Rightarrow> MqttPublisherConfig \<Rightarrow> connect_options" where
  "options_for pa c =
     \<lparr>co_keepAliveInterval = mc_keepalive c, co_cleansession = (if mc_clean_session c then 1 else 0),
      co_username = (if mc_username c = [] then None else Some (c_str (mc_username c))),
      co_password = (if mc_password c = [] then None else Some (c_str (mc_password c))),
      co_MQTTVersion = MQTTVERSION_3_1_1 pa, co_automaticReconnect = 1,
      co_minRetryInterval = sint (mc_reconnect_delay c),
      co_maxRetryInterval = sint (mc_reconnect_delay_max c)\<rparr>"

text \<open>What Paho answers to the calls of one \<open>start\<close>: return codes and the handle created.\<close>

record start_answers =
  sa_create :: int
  sa_handle :: nat
  sa_set_connection_lost :: int
  sa_set_connected :: int
  sa_connect :: int

definition MqttEventPublisher_start ::
  "paho \<Rightarrow> start_answers \<Rightarrow> MqttEventPublisher \<Rightarrow> exn option \<times> MqttEventPublisher" where
  "MqttEventPublisher_start pa a p =
     (if \<not> mq_configured p then (Some (Logic_error ''MQTT event publisher is not configured''), p)
      else if mq_started p then (Some (Logic_error ''MQTT event publisher is already running''), p)
      else
        let c = mq_config p; uri = c_str (server_uri c); client_id = c_str (mc_client_id c); h = sa_handle a
        in if sa_create a \<noteq> MQTTASYNC_SUCCESS pa
           then (Some (paho_error pa ''MQTTAsync_create'' (sa_create a)),
                 log_paho (P_create uri client_id None)
                   (p\<lparr>mq_client := None, mq_started := False, mq_connected := False\<rparr>))
           else
             let p1 = log_paho (P_set_connection_lost h)
                        (log_paho (P_create uri client_id (Some h)) (p\<lparr>mq_client := Some h\<rparr>))
             in if sa_set_connection_lost a \<noteq> MQTTASYNC_SUCCESS pa
                then (Some (paho_error pa ''MQTTAsync_setConnectionLostCallback'' (sa_set_connection_lost a)),
                      cleanup p1)
                else
                  let p2 = log_paho (P_set_connected h) p1
                  in if sa_set_connected a \<noteq> MQTTASYNC_SUCCESS pa
                     then (Some (paho_error pa ''MQTTAsync_setConnected'' (sa_set_connected a)), cleanup p2)
                     else
                       let p3 = log_paho (P_connect h (options_for pa c)) p2
                       in if sa_connect a \<noteq> MQTTASYNC_SUCCESS pa
                          then (Some (paho_error pa ''MQTTAsync_connect'' (sa_connect a)), cleanup p3)
                          else (None, p3\<lparr>mq_started := True\<rparr>))"

section \<open>Publishing\<close>

text \<open>\<open>rc\<close> is what \<open>MQTTAsync_send\<close> returns.\<close>

definition MqttEventPublisher_publish ::
  "paho \<Rightarrow> int \<Rightarrow> Event \<Rightarrow> MqttEventPublisher \<Rightarrow> EventPublishResult \<times> MqttEventPublisher" where
  "MqttEventPublisher_publish pa rc event p =
     (let payload = event_to_json event
      in if int (length payload) > 2 ^ 31 - 1
         then (Pub_Rejected, p\<lparr>mq_rejected := mq_rejected p + 1\<rparr>)
         else
           let topic = topic_for (mq_config p) event
           in case mq_client p of
                None \<Rightarrow> (Pub_Unavailable, p\<lparr>mq_unavailable := mq_unavailable p + 1\<rparr>)
              | Some h \<Rightarrow>
                  if \<not> mq_started p
                  then (Pub_Unavailable, p\<lparr>mq_unavailable := mq_unavailable p + 1\<rparr>)
                  else
                    let p1 = log_paho (P_send h (c_str topic) payload (mc_qos (mq_config p))
                                         (if mc_retain (mq_config p) then 1 else 0)) p
                    in if rc = MQTTASYNC_SUCCESS pa
                       then (Pub_Accepted, p1\<lparr>mq_accepted := mq_accepted p1 + 1\<rparr>)
                       else if is_temporarily_unavailable pa rc
                       then (Pub_Unavailable, p1\<lparr>mq_unavailable := mq_unavailable p1 + 1\<rparr>)
                       else (Pub_Rejected, p1\<lparr>mq_rejected := mq_rejected p1 + 1\<rparr>))"

section \<open>Callbacks\<close>

definition signal_disconnect_complete :: "MqttEventPublisher \<Rightarrow> MqttEventPublisher" where
  "signal_disconnect_complete p = p\<lparr>mq_disconnect_complete := True\<rparr>"

definition on_connect_success :: "MqttEventPublisher \<Rightarrow> MqttEventPublisher" where
  "on_connect_success p = p\<lparr>mq_connected := True\<rparr>"

definition on_connect_failure :: "MqttEventPublisher \<Rightarrow> MqttEventPublisher" where
  "on_connect_failure p = p\<lparr>mq_connected := False\<rparr>"

definition on_connection_lost :: "MqttEventPublisher \<Rightarrow> MqttEventPublisher" where
  "on_connection_lost p = p\<lparr>mq_connected := False\<rparr>"

definition on_reconnected :: "MqttEventPublisher \<Rightarrow> MqttEventPublisher" where
  "on_reconnected p = p\<lparr>mq_connected := True\<rparr>"

definition on_publish_success :: "MqttEventPublisher \<Rightarrow> MqttEventPublisher" where
  "on_publish_success p = p\<lparr>mq_acknowledged := mq_acknowledged p + 1\<rparr>"

definition on_disconnect_success :: "MqttEventPublisher \<Rightarrow> MqttEventPublisher" where
  "on_disconnect_success p = signal_disconnect_complete p"

definition on_disconnect_failure :: "MqttEventPublisher \<Rightarrow> MqttEventPublisher" where
  "on_disconnect_failure p = signal_disconnect_complete p"

datatype callback =
    Connect_success | Connect_failure | Connection_lost | Reconnected | Publish_success
  | Disconnect_success | Disconnect_failure

fun run_callback :: "callback \<Rightarrow> MqttEventPublisher \<Rightarrow> MqttEventPublisher" where
  "run_callback Connect_success = on_connect_success"
| "run_callback Connect_failure = on_connect_failure"
| "run_callback Connection_lost = on_connection_lost"
| "run_callback Reconnected = on_reconnected"
| "run_callback Publish_success = on_publish_success"
| "run_callback Disconnect_success = on_disconnect_success"
| "run_callback Disconnect_failure = on_disconnect_failure"

section \<open>Stopping\<close>

text \<open>
  \<open>cs\<close> are the callbacks that run between the first store to \<open>connected_\<close> and the
  destruction of the handle. The wait for \<open>disconnect_complete_\<close> is bounded and its outcome is
  ignored by the code.
\<close>

definition MqttEventPublisher_stop :: "callback list \<Rightarrow> MqttEventPublisher \<Rightarrow> MqttEventPublisher" where
  "MqttEventPublisher_stop cs p =
     (case mq_client p of
        None \<Rightarrow> p\<lparr>mq_started := False, mq_connected := False\<rparr>
      | Some h \<Rightarrow>
          let p1 = p\<lparr>mq_started := False, mq_connected := False, mq_disconnect_complete := False\<rparr>;
              p2 = fold run_callback cs (log_paho (P_disconnect h 500) p1);
              p3 = log_paho (P_destroy h) (p2\<lparr>mq_client := None\<rparr>)
          in p3\<lparr>mq_connected := False\<rparr>)"

definition MqttEventPublisher_stats :: "MqttEventPublisher \<Rightarrow> MqttPublisherStats" where
  "MqttEventPublisher_stats p =
     \<lparr>ms_accepted = mq_accepted p, ms_acknowledged = mq_acknowledged p, ms_unavailable = mq_unavailable p,
      ms_rejected = mq_rejected p, ms_connected = mq_connected p\<rparr>"

section \<open>The plugin's entry point\<close>

definition make_mqtt_config :: "'j json_ops \<Rightarrow> 'j \<Rightarrow> MqttPublisherConfig result" where
  "make_mqtt_config J settings =
     (let plugin = ''MQTT event publisher''
      in rbind (pj_string_member J settings ''host'' plugin False) (\<lambda>host.
         rbind (pj_int_member J settings ''port'' plugin 1 65535) (\<lambda>port.
         rbind (pj_int_member J settings ''keepalive'' plugin 0 65535) (\<lambda>keepalive.
         rbind (pj_string_member J settings ''client_id'' plugin False) (\<lambda>client_id.
         rbind (pj_string_member J settings ''topic_prefix'' plugin False) (\<lambda>topic_prefix.
         rbind (pj_int_member J settings ''qos'' plugin 0 2) (\<lambda>qos.
         rbind (pj_bool_member J settings ''retain'' plugin) (\<lambda>retain.
         rbind (pj_bool_member J settings ''clean_session'' plugin) (\<lambda>clean_session.
         rbind (pj_string_member J settings ''username'' plugin True) (\<lambda>username.
         rbind (pj_string_member J settings ''password'' plugin True) (\<lambda>password.
         rbind (pj_unsigned_member J settings ''reconnect_delay'' plugin) (\<lambda>reconnect_delay.
         rbind (pj_unsigned_member J settings ''reconnect_delay_max'' plugin) (\<lambda>reconnect_delay_max.
         rbind (pj_bool_member J settings ''reconnect_exponential_backoff'' plugin) (\<lambda>backoff.
         Inr \<lparr>mc_host = host, mc_port = port, mc_keepalive = keepalive, mc_client_id = client_id,
              mc_topic_prefix = topic_prefix, mc_qos = qos, mc_retain = retain,
              mc_clean_session = clean_session, mc_username = username, mc_password = password,
              mc_reconnect_delay = word_of_int reconnect_delay,
              mc_reconnect_delay_max = word_of_int reconnect_delay_max,
              mc_reconnect_exponential_backoff = backoff\<rparr>))))))))))))))"

definition create_mqtt :: "'j json_ops \<Rightarrow> string option \<Rightarrow> MqttEventPublisher option" where
  "create_mqtt J settings_json =
     null_on_throw
       (rbind (pj_parse_object J (settings_text settings_json) ''MQTT event publisher'') (\<lambda>settings.
        rbind (make_mqtt_config J settings) MqttEventPublisher_new))"

section \<open>Runs\<close>

text \<open>
  The operations in any order the mutex allows. Paho calls back only while there is a
  client (it documents that \<open>MQTTAsync_destroy\<close> ends its use of a handle), which is what the
  code relies on when it stores \<open>false\<close> after the destruction.
\<close>

datatype mqtt_op =
    Op_configure GatewayConfig
  | Op_start start_answers
  | Op_publish int Event
  | Op_stop "callback list"
  | Op_callback callback

inductive mqtt_step :: "paho \<Rightarrow> MqttEventPublisher \<Rightarrow> mqtt_op \<Rightarrow> MqttEventPublisher \<Rightarrow> bool"
  for pa :: paho where
  configure: "MqttEventPublisher_configure gw p = Inr q \<Longrightarrow> mqtt_step pa p (Op_configure gw) q"
| configure_throws: "MqttEventPublisher_configure gw p = Inl e \<Longrightarrow> mqtt_step pa p (Op_configure gw) p"
| start: "mqtt_step pa p (Op_start a) (snd (MqttEventPublisher_start pa a p))"
| publish: "mqtt_step pa p (Op_publish rc e) (snd (MqttEventPublisher_publish pa rc e p))"
| stop: "mqtt_step pa p (Op_stop cs) (MqttEventPublisher_stop cs p)"
| callback: "mq_client p \<noteq> None \<Longrightarrow> mqtt_step pa p (Op_callback cb) (run_callback cb p)"

inductive_cases mqtt_step_cases: "mqtt_step pa p op q"

inductive mqtt_run :: "paho \<Rightarrow> MqttEventPublisher \<Rightarrow> mqtt_op list \<Rightarrow> MqttEventPublisher \<Rightarrow> bool"
  for pa :: paho where
  nil: "mqtt_run pa p [] p"
| snoc: "mqtt_run pa p ops q \<Longrightarrow> mqtt_step pa q op r \<Longrightarrow> mqtt_run pa p (ops @ [op]) r"

definition created :: "MqttEventPublisher \<Rightarrow> nat \<Rightarrow> nat" where
  "created p h = length (filter (\<lambda>c. case c of P_create _ _ (Some k) \<Rightarrow> k = h | _ \<Rightarrow> False) (mq_calls p))"

definition destroyed :: "MqttEventPublisher \<Rightarrow> nat \<Rightarrow> nat" where
  "destroyed p h = length (filter (\<lambda>c. case c of P_destroy k \<Rightarrow> k = h | _ \<Rightarrow> False) (mq_calls p))"

definition sends :: "MqttEventPublisher \<Rightarrow> nat" where
  "sends p = length (filter (\<lambda>c. case c of P_send _ _ _ _ _ \<Rightarrow> True | _ \<Rightarrow> False) (mq_calls p))"

text \<open>
  The calls to Paho replayed against the handles that are live: a created handle must be new, and every other call
  needs a live one.
\<close>

fun paho_use :: "paho_call \<Rightarrow> nat set \<Rightarrow> nat set option" where
  "paho_use (P_create _ _ None) live = Some live"
| "paho_use (P_create _ _ (Some h)) live = (if h \<in> live then None else Some (insert h live))"
| "paho_use (P_destroy h) live = (if h \<in> live then Some (live - {h}) else None)"
| "paho_use (P_set_connection_lost h) live = (if h \<in> live then Some live else None)"
| "paho_use (P_set_connected h) live = (if h \<in> live then Some live else None)"
| "paho_use (P_connect h _) live = (if h \<in> live then Some live else None)"
| "paho_use (P_send h _ _ _ _) live = (if h \<in> live then Some live else None)"
| "paho_use (P_disconnect h _) live = (if h \<in> live then Some live else None)"

primrec paho_live :: "paho_call list \<Rightarrow> nat set \<Rightarrow> nat set option" where
  "paho_live [] live = Some live"
| "paho_live (c # cs) live = (case paho_use c live of None \<Rightarrow> None | Some live' \<Rightarrow> paho_live cs live')"

section \<open>Lemmas\<close>

lemma paho_live_append:
  "paho_live (cs @ ds) live = (case paho_live cs live of None \<Rightarrow> None | Some live' \<Rightarrow> paho_live ds live')"
  by (induction cs arbitrary: live) (auto split: option.split)

lemma log_paho_simps [simp]:
  "mq_config (log_paho c p) = mq_config p" "mq_client (log_paho c p) = mq_client p"
  "mq_configured (log_paho c p) = mq_configured p" "mq_started (log_paho c p) = mq_started p"
  "mq_connected (log_paho c p) = mq_connected p" "mq_accepted (log_paho c p) = mq_accepted p"
  "mq_acknowledged (log_paho c p) = mq_acknowledged p" "mq_unavailable (log_paho c p) = mq_unavailable p"
  "mq_rejected (log_paho c p) = mq_rejected p" "mq_calls (log_paho c p) = mq_calls p @ [c]"
  by (simp_all add: log_paho_def)

lemmas callback_defs = on_connect_success_def on_connect_failure_def on_connection_lost_def on_reconnected_def
  on_publish_success_def on_disconnect_success_def on_disconnect_failure_def signal_disconnect_complete_def

lemmas ghost_defs = created_def destroyed_def sends_def paho_live_append

text \<open>Callbacks touch only the connection flags and the acknowledgement counter.\<close>

definition same_core where
  "same_core p q \<longleftrightarrow> mq_config q = mq_config p \<and> mq_client q = mq_client p \<and> mq_configured q = mq_configured p \<and>
     mq_started q = mq_started p \<and> mq_accepted q = mq_accepted p \<and> mq_unavailable q = mq_unavailable p \<and>
     mq_rejected q = mq_rejected p \<and> mq_calls q = mq_calls p"

lemma run_callback_core: "same_core p (run_callback cb p)"
  by (cases cb) (simp_all add: callback_defs same_core_def)

lemma callbacks_core: "same_core p (fold run_callback cs p)"
proof (induction cs arbitrary: p)
  case (Cons cb cs)
  then show ?case using run_callback_core [of p cb] by (simp add: same_core_def)
qed (simp add: same_core_def)

definition mqtt_inv :: "MqttEventPublisher \<Rightarrow> bool" where
  "mqtt_inv p \<longleftrightarrow> validate_config (mq_config p) = Inr () \<and> (mq_started p \<longleftrightarrow> mq_client p \<noteq> None) \<and>
     (mq_started p \<longrightarrow> mq_configured p) \<and> (mq_connected p \<longrightarrow> mq_client p \<noteq> None) \<and>
     (\<forall>h. created p h = destroyed p h + (if mq_client p = Some h then 1 else 0)) \<and>
     paho_live (mq_calls p) {} = Some (set_option (mq_client p))"

lemma inv_new: "MqttEventPublisher_new c = Inr p \<Longrightarrow> mqtt_inv p \<and> mq_config p = c"
  by (auto simp: MqttEventPublisher_new_def rbind_Inr_iff mqtt_inv_def ghost_defs)

lemma inv_configure: "mqtt_inv p \<Longrightarrow> MqttEventPublisher_configure gw p = Inr q \<Longrightarrow> mqtt_inv q"
  by (auto simp: MqttEventPublisher_configure_def rbind_Inr_iff mqtt_inv_def ghost_defs split: if_splits)

lemma inv_start: "mqtt_inv p \<Longrightarrow> mqtt_inv (snd (MqttEventPublisher_start pa a p))"
  by (auto simp: MqttEventPublisher_start_def cleanup_def mqtt_inv_def ghost_defs Let_def)

lemma inv_publish: "mqtt_inv p \<Longrightarrow> mqtt_inv (snd (MqttEventPublisher_publish pa rc e p))"
  by (auto simp: MqttEventPublisher_publish_def mqtt_inv_def ghost_defs Let_def split: option.splits)

lemma inv_stop: "mqtt_inv p \<Longrightarrow> mqtt_inv (MqttEventPublisher_stop cs p)"
proof (cases "mq_client p")
  case (Some h)
  assume inv: "mqtt_inv p"
  let ?p1 = "log_paho (P_disconnect h 500)
    (p\<lparr>mq_started := False, mq_connected := False, mq_disconnect_complete := False\<rparr>)"
  have "same_core ?p1 (fold run_callback cs ?p1)" by (rule callbacks_core)
  with inv Some show ?thesis
    by (auto simp: MqttEventPublisher_stop_def mqtt_inv_def ghost_defs same_core_def)
qed (auto simp: MqttEventPublisher_stop_def mqtt_inv_def ghost_defs)

lemma inv_callback: "mqtt_inv p \<Longrightarrow> mq_client p \<noteq> None \<Longrightarrow> mqtt_inv (run_callback cb p)"
  using run_callback_core [of p cb] by (auto simp: mqtt_inv_def ghost_defs same_core_def)

interpretation mqtt: state_machine "\<lambda>p. \<exists>c. MqttEventPublisher_new c = Inr p" "\<lambda>p q. \<exists>op. mqtt_step pa p op q" mqtt_inv
  for pa
  by unfold_locales
    (auto elim!: mqtt_step_cases intro: inv_configure inv_start inv_publish inv_stop inv_callback dest: inv_new)

lemma mqtt_run_steps: "mqtt_run pa p ops q \<Longrightarrow> (\<lambda>p q. \<exists>op. mqtt_step pa p op q)\<^sup>*\<^sup>* p q"
  by (induction rule: mqtt_run.induct) (auto intro: rtranclp.rtrancl_into_rtrancl)

lemma mqtt_run_inv: "mqtt_run pa p ops q \<Longrightarrow> MqttEventPublisher_new c = Inr p \<Longrightarrow> mqtt_inv q"
  using mqtt.rtranclp_inv [OF mqtt_run_steps] inv_new by blast

fun is_publish_op :: "mqtt_op \<Rightarrow> bool" where
  "is_publish_op (Op_publish _ _) = True"
| "is_publish_op _ = False"

definition outcomes :: "MqttEventPublisher \<Rightarrow> u64" where
  "outcomes p = mq_accepted p + mq_unavailable p + mq_rejected p"

lemma outcomes_step: "mqtt_step pa p op q \<Longrightarrow> outcomes q = outcomes p + (if is_publish_op op then 1 else 0)"
proof (induction rule: mqtt_step.induct)
  case (configure gw p q)
  then show ?case by (auto simp: MqttEventPublisher_configure_def rbind_Inr_iff outcomes_def split: if_splits)
next
  case (start p a)
  then show ?case by (auto simp: MqttEventPublisher_start_def cleanup_def outcomes_def Let_def)
next
  case (publish p rc e)
  then show ?case by (auto simp: MqttEventPublisher_publish_def outcomes_def Let_def split: option.splits)
next
  case (stop p cs)
  then show ?case
    using callbacks_core [of "log_paho (P_disconnect (the (mq_client p)) 500)
      (p\<lparr>mq_started := False, mq_connected := False, mq_disconnect_complete := False\<rparr>)" cs]
    by (auto simp: MqttEventPublisher_stop_def outcomes_def same_core_def Let_def split: option.splits)
next
  case (callback p cb)
  then show ?case using run_callback_core [of p cb] by (simp add: outcomes_def same_core_def)
qed simp

lemma outcomes_run: "mqtt_run pa p ops q \<Longrightarrow> outcomes q = outcomes p + of_nat (length (filter is_publish_op ops))"
  by (induction rule: mqtt_run.induct) (auto simp: outcomes_step)

lemma topic_text_append [simp]: "topic_text (s @ t) \<longleftrightarrow> topic_text s \<and> topic_text t"
  by (auto simp: topic_text_def)

lemma c_str_topic_text: "topic_text s \<Longrightarrow> c_str s = s"
  by (auto simp: topic_text_def c_str_def list_ex_iff takeWhile_eq_all_conv)

lemma topic_for_text:
  assumes "validate_config c = Inr ()" "topic_text (ev_device_id e)"
  shows "topic_text (topic_for c e)"
proof -
  have "topic_text ''/''" "topic_text ''/event''" by (simp_all add: topic_text_def)
  then show ?thesis using assms
    by (auto simp: validate_config_def topic_for_def Let_def split: if_splits)
qed

lemma topic_for_inject: "topic_for c e = topic_for c e' \<longleftrightarrow> ev_device_id e = ev_device_id e'"
  by (simp add: topic_for_def Let_def)

lemma check_devices: "rfold check_device () ds = Inr u \<Longrightarrow> d \<in> set ds \<Longrightarrow> topic_text (dev_id d)"
  by (induction ds) (auto simp: check_device_def split: if_splits)

section \<open>Properties\<close>

text \<open>
  C20: the Paho handle is never leaked, destroyed twice or used after its destruction. After any sequence of
  \<open>configure\<close>, \<open>start\<close>, \<open>publish\<close>, \<open>stop\<close> and callbacks, failing calls included, the publisher is started
  exactly if it holds a handle, it reports \<open>connected\<close> only while it holds one, and every handle
  created was destroyed once unless it is the current one. Replayed in order, every call to Paho names a handle that is
  live at that moment, none is created while it is live, and what is left live is the current handle; a \<open>stop\<close> makes
  no call after the destruction and leaves no handle, disconnected.
\<close>

theorem mqtt_handle_lifecycle:
  assumes "MqttEventPublisher_new c = Inr p0" and "mqtt_run pa p0 ops p"
  shows "(mq_started p \<longleftrightarrow> mq_client p \<noteq> None) \<and> (ms_connected (MqttEventPublisher_stats p) \<longrightarrow> mq_client p \<noteq> None) \<and>
     (\<forall>h. created p h = destroyed p h + (if mq_client p = Some h then 1 else 0)) \<and>
     mq_client (MqttEventPublisher_stop cs p) = None \<and> \<not> mq_connected (MqttEventPublisher_stop cs p) \<and>
     (\<forall>h. created (MqttEventPublisher_stop cs p) h = destroyed (MqttEventPublisher_stop cs p) h) \<and>
     paho_live (mq_calls p) {} = Some (set_option (mq_client p)) \<and>
     paho_live (mq_calls (MqttEventPublisher_stop cs p)) {} = Some {}"
proof -
  have "mqtt_inv p" using mqtt_run_inv assms by blast
  moreover from this have "mqtt_inv (MqttEventPublisher_stop cs p)" by (rule inv_stop)
  moreover have "mq_client (MqttEventPublisher_stop cs p) = None" "\<not> mq_connected (MqttEventPublisher_stop cs p)"
    by (auto simp: MqttEventPublisher_stop_def Let_def split: option.splits)
  ultimately show ?thesis by (simp add: mqtt_inv_def MqttEventPublisher_stats_def)
qed

text \<open>
  C35: every publication is counted once and an accepted one was handed to Paho unchanged. The counters
  \<open>accepted\<close>, \<open>unavailable\<close> and \<open>rejected\<close> add up to the number of \<open>publish\<close> calls (modulo \<open>2\<^sup>6\<^sup>4\<close>); \<open>Accepted\<close>
  means that one message with the event's JSON, shorter than \<open>2\<^sup>3\<^sup>1\<close>, went to the event's topic on the live
  handle, and a stopped publisher answers \<open>Unavailable\<close> without calling Paho.
\<close>

theorem mqtt_publish_accounts:
  assumes "MqttEventPublisher_new c = Inr p0" and "mqtt_run pa p0 ops p" and "topic_text (ev_device_id e)"
    and "length (event_to_json e) < 2 ^ 31"
  shows "mq_accepted p + mq_unavailable p + mq_rejected p = of_nat (length (filter is_publish_op ops)) \<and>
     (fst (MqttEventPublisher_publish pa rc e p) = Pub_Accepted \<longleftrightarrow> mq_started p \<and> rc = MQTTASYNC_SUCCESS pa) \<and>
     (if mq_started p
      then \<exists>h. mq_client p = Some h \<and> mq_calls (snd (MqttEventPublisher_publish pa rc e p)) =
             mq_calls p @ [P_send h (topic_for (mq_config p) e) (event_to_json e) (mc_qos (mq_config p))
                             (if mc_retain (mq_config p) then 1 else 0)]
      else fst (MqttEventPublisher_publish pa rc e p) = Pub_Unavailable \<and>
           mq_calls (snd (MqttEventPublisher_publish pa rc e p)) = mq_calls p)"
proof -
  have inv: "mqtt_inv p" using mqtt_run_inv assms(1,2) by blast
  have "outcomes p0 = 0"
    using assms(1) by (auto simp: MqttEventPublisher_new_def rbind_Inr_iff outcomes_def)
  then have n: "outcomes p = of_nat (length (filter is_publish_op ops))"
    using outcomes_run [OF assms(2)] by simp
  have t: "c_str (topic_for (mq_config p) e) = topic_for (mq_config p) e"
    using inv assms(3) by (simp add: mqtt_inv_def topic_for_text c_str_topic_text)
  have "\<not> int (length (event_to_json e)) > 2 ^ 31 - 1" using assms(4) by simp
  then show ?thesis using inv n t
    by (auto simp: MqttEventPublisher_publish_def mqtt_inv_def outcomes_def Let_def split: if_splits)
qed

text \<open>
  Topics of configured devices are valid and unambiguous. Once \<open>configure\<close> has accepted a gateway
  configuration, the topic of an event of any of its devices contains no wildcard and no NUL, so Paho
  reads all of it, and two devices never share a topic.
\<close>

theorem mqtt_topics:
  assumes "MqttEventPublisher_configure gw p = Inr q"
    and "ev_device_id e \<in> dev_id ` set (gw_devices gw)" and "ev_device_id e' \<in> dev_id ` set (gw_devices gw)"
  shows "topic_text (topic_for (mq_config q) e) \<and> c_str (topic_for (mq_config q) e) = topic_for (mq_config q) e \<and>
     (topic_for (mq_config q) e = topic_for (mq_config q) e' \<longleftrightarrow> ev_device_id e = ev_device_id e')"
proof -
  have "validate_config (mq_config q) = Inr ()" "topic_text (ev_device_id e)"
    using assms(1,2) check_devices
    by (auto simp: MqttEventPublisher_configure_def rbind_Inr_iff split: if_splits)
  then have "topic_text (topic_for (mq_config q) e)" by (rule topic_for_text)
  then show ?thesis by (simp add: c_str_topic_text topic_for_inject)
qed

text \<open>
  A publisher that \<open>create_plugin\<close> returns has a valid configuration, whatever the settings: port,
  keep-alive and quality of service are in range and the retry intervals passed to Paho are
  the configured ones, positive and ordered; no conversion to \<open>int\<close> wraps.
\<close>

theorem created_mqtt_valid:
  assumes "create_mqtt J settings = Some p"
  shows "validate_config (mq_config p) = Inr () \<and> mq_client p = None \<and>
     1 \<le> mc_port (mq_config p) \<and> mc_port (mq_config p) \<le> 65535 \<and> mc_qos (mq_config p) \<in> {0, 1, 2} \<and>
     co_minRetryInterval (options_for pa (mq_config p)) = uint (mc_reconnect_delay (mq_config p)) \<and>
     co_maxRetryInterval (options_for pa (mq_config p)) = uint (mc_reconnect_delay_max (mq_config p)) \<and>
     1 \<le> co_minRetryInterval (options_for pa (mq_config p)) \<and>
     co_minRetryInterval (options_for pa (mq_config p)) \<le> co_maxRetryInterval (options_for pa (mq_config p))"
proof -
  have v: "validate_config (mq_config p) = Inr ()" "mq_client p = None"
    using assms by (auto simp: create_mqtt_def null_on_throw_def MqttEventPublisher_new_def rbind_Inr_iff
        split: sum.splits)
  let ?a = "mc_reconnect_delay (mq_config p)" and ?b = "mc_reconnect_delay_max (mq_config p)"
  have le: "?a \<noteq> 0" "?a \<le> ?b" "?b \<le> 2147483647"
    using v(1) by (auto simp: validate_config_def not_less split: if_splits)
  have s: "sint w = uint w" if "w \<le> 2147483647" for w :: "32 word"
  proof -
    have "uint w < 2 ^ 31" using that by (simp add: word_le_def)
    then have "signed_take_bit 31 (uint w) = uint w"
      using order_trans [of "- (2 ^ 31)" 0 "uint w"] by (intro signed_take_bit_int_eq_self) simp_all
    then show ?thesis by (simp add: sint_uint)
  qed
  have "uint ?a \<noteq> 0" using le(1) by (simp add: unsigned_eq_0_iff)
  then have "1 \<le> uint ?a" using uint_nonnegative [of ?a] by linarith
  moreover have "sint ?a = uint ?a" "sint ?b = uint ?b" "uint ?a \<le> uint ?b"
    using s le by (auto simp: word_le_def)
  moreover have "1 \<le> mc_port (mq_config p)" "mc_port (mq_config p) \<le> 65535" "mc_qos (mq_config p) \<in> {0, 1, 2}"
    using v(1) by (auto simp: validate_config_def split: if_splits)
  ultimately show ?thesis using v by (simp add: options_for_def)
qed

section \<open>Witnesses\<close>

definition mqtt_example_paho :: paho where
  "mqtt_example_paho = \<lparr>MQTTASYNC_SUCCESS = 0, MQTTASYNC_DISCONNECTED = -3, MQTTASYNC_MAX_MESSAGES_INFLIGHT = -4,
     MQTTASYNC_NO_MORE_MSGIDS = -10, MQTTASYNC_OPERATION_INCOMPLETE = -11, MQTTASYNC_MAX_BUFFERED_MESSAGES = -12,
     MQTTVERSION_3_1_1 = 4, MQTTAsync_strerror = (\<lambda>_. None)\<rparr>"

definition mqtt_example_settings :: json_tree where
  "mqtt_example_settings = J_object [(''host'', J_string ''::1''), (''port'', J_unsigned 1883),
     (''keepalive'', J_unsigned 30), (''client_id'', J_string ''gw''), (''topic_prefix'', J_string ''edge/events''),
     (''qos'', J_unsigned 1), (''retain'', J_bool False), (''clean_session'', J_bool True),
     (''username'', J_string []), (''password'', J_string []), (''reconnect_delay'', J_unsigned 1),
     (''reconnect_delay_max'', J_unsigned 30), (''reconnect_exponential_backoff'', J_bool True)]"

definition mqtt_example_json :: "json_tree json_ops" where
  "mqtt_example_json = tree_ops (\<lambda>_. Inr mqtt_example_settings)"

definition mqtt_example_config :: MqttPublisherConfig where
  "mqtt_example_config = \<lparr>mc_host = ''::1'', mc_port = 1883, mc_keepalive = 30, mc_client_id = ''gw'',
     mc_topic_prefix = ''edge/events'', mc_qos = 1, mc_retain = False, mc_clean_session = True, mc_username = [],
     mc_password = [], mc_reconnect_delay = 1, mc_reconnect_delay_max = 30, mc_reconnect_exponential_backoff = True\<rparr>"

definition mqtt_example_new :: MqttEventPublisher where
  "mqtt_example_new = projr (MqttEventPublisher_new mqtt_example_config)"

definition mqtt_example_configured :: MqttEventPublisher where
  "mqtt_example_configured = projr (MqttEventPublisher_configure example_config mqtt_example_new)"

definition mqtt_example_answers :: start_answers where
  "mqtt_example_answers = \<lparr>sa_create = 0, sa_handle = 7, sa_set_connection_lost = 0, sa_set_connected = 0, sa_connect = 0\<rparr>"

definition mqtt_example_started :: MqttEventPublisher where
  "mqtt_example_started = snd (MqttEventPublisher_start mqtt_example_paho mqtt_example_answers mqtt_example_configured)"

definition mqtt_example_event :: "string \<Rightarrow> Event" where
  "mqtt_example_event d = \<lparr>ev_id = ''1'', ev_device_id = d, ev_source = ''poll'', ev_readings = [],
     ev_model_version = []\<rparr>"

lemma mqtt_example_new_ok: "MqttEventPublisher_new mqtt_example_config = Inr mqtt_example_new"
  by code_simp

lemma mqtt_example_configure_ok: "MqttEventPublisher_configure example_config mqtt_example_new = Inr mqtt_example_configured"
  by code_simp

lemma mqtt_example_run:
  "mqtt_run mqtt_example_paho mqtt_example_new [Op_configure example_config, Op_start mqtt_example_answers]
     mqtt_example_started"
  using mqtt_run.snoc [OF mqtt_run.snoc [OF mqtt_run.nil mqtt_step.configure [OF mqtt_example_configure_ok]]
      mqtt_step.start [of mqtt_example_paho mqtt_example_configured mqtt_example_answers]]
  by (simp add: mqtt_example_started_def)

theorem mqtt_handle_lifecycle_witness:
  "mq_client mqtt_example_started = Some 7 \<and> created mqtt_example_started 7 = Suc (destroyed mqtt_example_started 7) \<and>
   paho_live (mq_calls mqtt_example_started) {} = Some {7} \<and>
   mq_client (MqttEventPublisher_stop [Reconnected] mqtt_example_started) = None"
proof -
  have "mq_client mqtt_example_started = Some 7" by code_simp
  then show ?thesis
    using mqtt_handle_lifecycle [OF mqtt_example_new_ok mqtt_example_run, of "[Reconnected]"] by simp
qed

theorem mqtt_publish_accounts_witness:
  "fst (MqttEventPublisher_publish mqtt_example_paho 0 (mqtt_example_event ''plc'') mqtt_example_started) = Pub_Accepted"
proof -
  have "topic_text (ev_device_id (mqtt_example_event ''plc''))" by code_simp
  moreover have "length (event_to_json (mqtt_example_event ''plc'')) < 100" by code_simp
  then have "length (event_to_json (mqtt_example_event ''plc'')) < 2 ^ 31" by simp
  moreover have "mq_started mqtt_example_started" by code_simp
  moreover have "MQTTASYNC_SUCCESS mqtt_example_paho = 0" by code_simp
  ultimately show ?thesis
    using mqtt_publish_accounts [OF mqtt_example_new_ok mqtt_example_run, of "mqtt_example_event ''plc''" 0] by simp
qed

theorem mqtt_topics_witness:
  "topic_text (topic_for (mq_config mqtt_example_configured) (mqtt_example_event ''plc''))"
proof -
  have "ev_device_id (mqtt_example_event ''plc'') \<in> dev_id ` set (gw_devices example_config)" by code_simp
  then show ?thesis using mqtt_topics [OF mqtt_example_configure_ok] by blast
qed

theorem created_mqtt_valid_witness:
  "\<exists>p. create_mqtt mqtt_example_json None = Some p \<and> mc_port (mq_config p) \<le> 65535 \<and>
     co_minRetryInterval (options_for mqtt_example_paho (mq_config p)) = uint (mc_reconnect_delay (mq_config p))"
proof -
  have "create_mqtt mqtt_example_json None \<noteq> None" by code_simp
  then obtain p where "create_mqtt mqtt_example_json None = Some p" by blast
  then show ?thesis using created_mqtt_valid [of mqtt_example_json None p mqtt_example_paho] by blast
qed

end
