(* ===== verification/Control_Spec.thy ===== *)
theory Control_Spec
  imports Control
begin

text \<open>
  What the control dispatcher promises to its clients, as a small abstract machine, the
  control desk: requests are open from their acceptance to their one answer, nothing is accepted
  after the stop, and the desk closes only when nothing is open. The dispatcher with its
  queue, worker, stopping and joining threads refines it.
\<close>

section \<open>The control desk\<close>

record 'c desk =
  dk_open :: "'c ControlOperation multiset"
  dk_answers :: "('c ControlOperation \<times> DeviceControlResult) list"
  dk_stopping :: bool
  dk_closed :: bool

definition desk_init :: "'c desk" where
  "desk_init = \<lparr>dk_open = {#}, dk_answers = [], dk_stopping = False, dk_closed = False\<rparr>"

inductive desk_step :: "'c desk \<Rightarrow> 'c desk \<Rightarrow> bool" where
  accept: "\<not> dk_stopping s \<Longrightarrow> desk_step s (s\<lparr>dk_open := add_mset v (dk_open s)\<rparr>)"
| answer: "v \<in># dk_open s \<Longrightarrow> rs_request_id r = rq_request_id (op_request v) \<Longrightarrow> \<not> dk_closed s \<Longrightarrow>
    desk_step s (s\<lparr>dk_open := dk_open s - {#v#}, dk_answers := dk_answers s @ [(v, r)]\<rparr>)"
| stop: "\<not> dk_stopping s \<Longrightarrow> desk_step s (s\<lparr>dk_stopping := True\<rparr>)"
| close: "dk_stopping s \<Longrightarrow> dk_open s = {#} \<Longrightarrow> \<not> dk_closed s \<Longrightarrow> desk_step s (s\<lparr>dk_closed := True\<rparr>)"

text \<open>The desk a dispatcher stands for.\<close>

definition desk_of :: "'c Dispatcher \<Rightarrow> 'c desk" where
  "desk_of d = \<lparr>dk_open = mset (dd_accepted d) - mset (map fst (dd_completed d)), dk_answers = dd_completed d,
     dk_stopping = dd_stopping d, dk_closed = dd_joined d\<rparr>"

section \<open>The simulation\<close>

text \<open>How one step of the dispatcher changes what the desk shows.\<close>

inductive desk_move :: "'c Dispatcher \<Rightarrow> 'c Dispatcher \<Rightarrow> bool" for d d' :: "'c Dispatcher" where
  idle: "dd_accepted d' = dd_accepted d \<Longrightarrow> dd_completed d' = dd_completed d \<Longrightarrow> dd_stopping d' = dd_stopping d \<Longrightarrow>
    dd_joined d' = dd_joined d \<Longrightarrow> desk_move d d'"
| accepts: "\<not> dd_stopping d \<Longrightarrow> dd_accepted d' = dd_accepted d @ [v] \<Longrightarrow> dd_completed d' = dd_completed d \<Longrightarrow>
    dd_stopping d' = dd_stopping d \<Longrightarrow> dd_joined d' = dd_joined d \<Longrightarrow> desk_move d d'"
| answers: "dd_completed d' = dd_completed d @ [(v, r)] \<Longrightarrow> dd_accepted d' = dd_accepted d \<Longrightarrow>
    dd_stopping d' = dd_stopping d \<Longrightarrow> dd_joined d' = dd_joined d \<Longrightarrow> desk_move d d'"
| stops: "\<not> dd_stopping d \<Longrightarrow> dd_stopping d' \<Longrightarrow> dd_accepted d' = dd_accepted d \<Longrightarrow> dd_completed d' = dd_completed d \<Longrightarrow>
    dd_joined d' = dd_joined d \<Longrightarrow> desk_move d d'"
| joins: "\<not> dd_joined d \<Longrightarrow> dd_joined d' \<Longrightarrow> dd_accepted d' = dd_accepted d \<Longrightarrow> dd_completed d' = dd_completed d \<Longrightarrow>
    dd_stopping d' = dd_stopping d \<Longrightarrow> desk_move d d'"

lemma submit_decide_move:
  assumes "Dispatcher_submit_decide dr now request completion d = (r, d')"
  shows "desk_move d (d'\<lparr>dd_entered := n\<rparr>)"
proof (cases "valid_request request \<and> dd_started d \<and> \<not> dd_stopping d \<and>
    resolved (dr (rq_device_id request)) \<noteq> None \<and> r = Sub_Accepted")
  case False
  then have "dd_accepted d' = dd_accepted d" "dd_completed d' = dd_completed d" "dd_stopping d' = dd_stopping d"
    "dd_joined d' = dd_joined d"
    using assms by (auto simp: Dispatcher_submit_decide_def Let_def split: if_splits prod.splits)
  then show ?thesis by (intro desk_move.idle) simp_all
next
  case True
  then have "dd_accepted d' = dd_accepted d @ [\<lparr>op_request = request, op_completion = completion, op_enqueued_at = now\<rparr>]"
    "dd_completed d' = dd_completed d" "dd_stopping d' = dd_stopping d" "dd_joined d' = dd_joined d" "\<not> dd_stopping d"
    using assms by (auto simp: Dispatcher_submit_decide_def Let_def split: prod.splits)
  then show ?thesis
    by (intro desk_move.accepts [where v = "\<lparr>op_request = request, op_completion = completion, op_enqueued_at = now\<rparr>"]) simp_all
qed

lemma step_move: "disp_step dr l d d' \<Longrightarrow> disp_inv d \<Longrightarrow> desk_move d d'"
proof (induction rule: disp_step.induct)
  case (start d d')
  then show ?case by (intro desk_move.idle) (auto simp: Dispatcher_start_def split: if_splits)
next
  case (submit_enter d)
  show ?case by (intro desk_move.idle) (simp_all add: Dispatcher_submit_enter_def)
next
  case (submit_decide d now request completion r d')
  then show ?case by (blast intro: submit_decide_move)
next
  case (worker_execute d operation env)
  obtain s where "Dispatcher_execute env operation d = d\<lparr>dd_stats := s, dd_completed := dd_completed d @
      [(operation, fst (execute_outcome (dd_has_gate d) env (op_request operation)))]\<rparr>"
    using execute_effect [of env operation d] by blast
  then show ?case by (intro desk_move.answers) simp_all
next
  case (stop_begin d alloc_ok)
  then show ?case
    by (intro desk_move.stops) (simp_all add: Dispatcher_request_stop_begin_def Let_def case_prod_beta)
next
  case (stop_complete_one d operation rest)
  show ?case by (intro desk_move.answers) (simp_all add: Dispatcher_complete_def)
next
  case (join_end d)
  then show ?case by (intro desk_move.joins) (auto simp: disp_inv_def life_inv_def)
qed (rule desk_move.idle; simp)+

lemma move_refines:
  assumes "desk_move d d'" "disp_inv d" "disp_inv d'"
  shows "desk_of d' = desk_of d \<or> desk_step (desk_of d) (desk_of d')"
  using assms(1)
proof cases
  case idle
  then show ?thesis by (simp add: desk_of_def)
next
  case (accepts v)
  have "desk_of d' = (desk_of d)\<lparr>dk_open := add_mset v (dk_open (desk_of d))\<rparr>"
    using accepts completed_subset [OF assms(2)]
    by (simp add: desk_of_def) (metis add_mset_add_single mset_subset_eq_multiset_union_diff_commute union_commute)
  then show ?thesis using desk_step.accept [of "desk_of d" v] accepts by (simp add: desk_of_def)
next
  case (answers v r)
  have "mset (map fst (dd_completed d)) + {#v#} \<subseteq># mset (dd_accepted d)"
    using completed_subset [OF assms(3)] answers by simp
  from mset_subset_eq_count [OF this, of v] have "v \<in># dk_open (desk_of d)"
    by (simp add: desk_of_def in_diff_count)
  moreover have "rs_request_id r = rq_request_id (op_request v)"
    using assms(3) answers by (auto simp: disp_inv_def completion_inv_def)
  moreover have "\<not> dk_closed (desk_of d)"
    using joined_all_completed [OF assms(2)] joined_all_completed [OF assms(3)] answers by (auto simp: desk_of_def)
  moreover have "desk_of d' = (desk_of d)\<lparr>dk_open := dk_open (desk_of d) - {#v#}, dk_answers := dk_answers (desk_of d) @ [(v, r)]\<rparr>"
    using answers by (simp add: desk_of_def)
  ultimately show ?thesis using desk_step.answer [of v "desk_of d" r] by simp
next
  case stops
  then have "desk_of d' = (desk_of d)\<lparr>dk_stopping := True\<rparr>" by (simp add: desk_of_def)
  then show ?thesis using desk_step.stop [of "desk_of d"] stops by (simp add: desk_of_def)
next
  case joins
  then have "desk_of d' = (desk_of d)\<lparr>dk_closed := True\<rparr>" by (simp add: desk_of_def)
  moreover have "dk_open (desk_of d) = {#}"
    using joined_all_completed [OF assms(3)] joins by (simp add: desk_of_def)
  moreover have "dd_stopping d" using assms(3) joins by (auto simp: disp_inv_def life_inv_def)
  ultimately show ?thesis using desk_step.close [of "desk_of d"] joins by (simp add: desk_of_def)
qed

section \<open>Property\<close>

text \<open>
  C12: the dispatcher implements the control desk. A new dispatcher stands for an empty desk, and every step of any of its
  threads, in any reachable state, is a step of the desk or invisible there: a request is opened by its
  acceptance, answered once under its own id, never opened after the stop, and the desk closes only when every
  open request has been answered.
\<close>

theorem dispatcher_refines_desk:
  assumes "reachable disp_init (disp_steps dr) d" and "disp_step dr l d d'"
  shows "(disp_init d \<longrightarrow> desk_of d = desk_init) \<and> (desk_of d' = desk_of d \<or> desk_step (desk_of d) (desk_of d'))"
proof -
  have "disp_inv d" using dispatcher.reachable_inv [OF assms(1)] .
  moreover from this have "disp_inv d'" using disp_inv_step [OF assms(2)] by blast
  ultimately have "desk_of d' = desk_of d \<or> desk_step (desk_of d) (desk_of d')"
    using move_refines step_move [OF assms(2)] by blast
  moreover have "disp_init d \<longrightarrow> desk_of d = desk_init"
    by (auto simp: disp_init_def Dispatcher_new_def rbind_Inr_iff desk_of_def desk_init_def)
  ultimately show ?thesis by blast
qed

theorem dispatcher_refines_desk_witness:
  "\<exists>d'. disp_step example_resolver L_stop example_stopping d' \<and> desk_step (desk_of example_stopping) (desk_of d')"
proof -
  have "case dd_cancelling example_stopping of Some (_ # _) \<Rightarrow> True | _ \<Rightarrow> False" by code_simp
  then obtain v rest where v: "dd_cancelling example_stopping = Some (v # rest)"
    by (auto split: option.splits list.splits)
  let ?d = "(Dispatcher_complete v (cancelled_result (op_request v)) example_stopping)\<lparr>dd_cancelling := Some rest\<rparr>"
  have step: "disp_step example_resolver L_stop example_stopping ?d" by (rule disp_step.stop_complete_one [OF v])
  have "dk_answers (desk_of ?d) \<noteq> dk_answers (desk_of example_stopping)"
    by (simp add: desk_of_def Dispatcher_complete_def)
  then have "desk_of ?d \<noteq> desk_of example_stopping" by metis
  then show ?thesis using dispatcher_refines_desk [OF example_reachable(1) step] step by blast
qed

end
