(* ===== verification/Control_Counters.thy ===== *)
theory Control_Counters
  imports Control
begin

text \<open>
  The statistics of the dispatcher at the grain of its locks (\<open>src/core/control.cpp\<close>). \<open>Control\<close> lets a submission decide
  and count in one step and an execution run its critical sections in one step. Here every critical section of
  \<open>stats_mutex_\<close> is a step of its own, so that \<open>stats()\<close> and \<open>queue_stats()\<close> are read between any two of them. The steps refine
  those of \<open>Control\<close>, statistics apart, and the counters are exact up to the threads in between.
\<close>

section \<open>Critical sections\<close>

text \<open>The sections of \<open>execute\<close> and \<open>complete\<close>, in the order of the code.\<close>

datatype stats_section = Sec_wait u64 | Sec_executed | Sec_time u64 | Sec_status DeviceControlStatus

fun run_section :: "stats_section \<Rightarrow> ControlStats \<Rightarrow> ControlStats" where
  "run_section (Sec_wait n) s = s\<lparr>cs_queue_wait_ns := control_saturating_add (cs_queue_wait_ns s) n\<rparr>"
| "run_section Sec_executed s = s\<lparr>cs_executed := cs_executed s + 1\<rparr>"
| "run_section (Sec_time n) s = s\<lparr>cs_execution_ns := control_saturating_add (cs_execution_ns s) n\<rparr>"
| "run_section (Sec_status st) s = count_status st s"

definition execute_sections :: "bool \<Rightarrow> exec_env \<Rightarrow> 'c ControlOperation \<Rightarrow> stats_section list" where
  "execute_sections has_gate env operation =
     (let (result, called) = execute_outcome has_gate env (op_request operation)
      in [Sec_wait (control_nonnegative_nanoseconds (en_started env - op_enqueued_at operation))] @
         (if called then [Sec_executed] else []) @
         [Sec_time (control_nonnegative_nanoseconds (en_finished env - en_started env)), Sec_status (rs_status result)])"

text \<open>Run without interruption they are the step of \<open>Control\<close>.\<close>

lemma sections_are_execute:
  "dd_stats (Dispatcher_execute env operation d) =
     fold run_section (execute_sections (dd_has_gate d) env operation) (dd_stats d)"
  by (simp add: Dispatcher_execute_def Dispatcher_complete_def execute_sections_def Let_def case_prod_beta)

section \<open>Steps\<close>

text \<open>
  Besides the dispatcher: the answers that threads inside \<open>submit\<close> have and have not counted yet, the sections that
  the worker has before it in its current execution, and whether the stopping thread has counted
  the operation it is about to complete. (\<open>submit\<close> holds \<open>lifecycle_mutex_\<close> from its decision until it has counted; the steps
  allow any number of threads in between, which the counters stand.)
\<close>

record 'c counting =
  ct_dispatcher :: "'c Dispatcher"
  ct_submitting :: "ControlSubmitResult list"
  ct_executing :: "(exec_env \<times> stats_section list) option"
  ct_cancelled :: bool

definition put_dispatcher :: "'c Dispatcher \<Rightarrow> 'c counting \<Rightarrow> 'c counting" where
  "put_dispatcher d c = c\<lparr>ct_dispatcher := d\<rparr>"

definition put_stats :: "(ControlStats \<Rightarrow> ControlStats) \<Rightarrow> 'c counting \<Rightarrow> 'c counting" where
  "put_stats f c = c\<lparr>ct_dispatcher := (ct_dispatcher c)\<lparr>dd_stats := f (dd_stats (ct_dispatcher c))\<rparr>\<rparr>"

inductive count_step ::
  "(string \<Rightarrow> 'drv option result) \<Rightarrow> 'c counting \<Rightarrow> 'c counting \<Rightarrow> bool"
  for driver_resolver :: "string \<Rightarrow> 'drv option result" where
  start: "Dispatcher_start (ct_dispatcher c) = Inr d \<Longrightarrow> count_step driver_resolver c (put_dispatcher d c)"
| enter: "d = ct_dispatcher c \<Longrightarrow>
    count_step driver_resolver c (put_dispatcher ((Dispatcher_submit_enter d)\<lparr>dd_entered := dd_entered d + 1\<rparr>) c)"
| decide: "d = ct_dispatcher c \<Longrightarrow> 0 < dd_entered d \<Longrightarrow>
    Dispatcher_submit_decide driver_resolver now request completion d = (r, d') \<Longrightarrow>
    count_step driver_resolver c
      ((put_dispatcher (d'\<lparr>dd_stats := dd_stats d, dd_entered := dd_entered d - 1\<rparr>) c)\<lparr>ct_submitting := r # ct_submitting c\<rparr>)"
| count_submit: "r \<in> set (ct_submitting c) \<Longrightarrow>
    count_step driver_resolver c ((put_stats (count_submit r) c)\<lparr>ct_submitting := remove1 r (ct_submitting c)\<rparr>)"
| pop: "d = ct_dispatcher c \<Longrightarrow> dd_worker d = Waiting \<Longrightarrow> ControlQueue_wait_pop (dd_queue d) = Some (Some operation, q) \<Longrightarrow>
    count_step driver_resolver c
      (put_dispatcher (d\<lparr>dd_queue := q, dd_worker := Executing operation, dd_taken := dd_taken d @ [operation]\<rparr>) c)"
| exit: "d = ct_dispatcher c \<Longrightarrow> dd_worker d = Waiting \<Longrightarrow> ControlQueue_wait_pop (dd_queue d) = Some (None, q) \<Longrightarrow>
    count_step driver_resolver c (put_dispatcher (d\<lparr>dd_queue := q, dd_worker := Exited\<rparr>) c)"
| execute: "dd_worker (ct_dispatcher c) = Executing operation \<Longrightarrow> ct_executing c = None \<Longrightarrow>
    count_step driver_resolver c
      (c\<lparr>ct_executing := Some (env, execute_sections (dd_has_gate (ct_dispatcher c)) env operation)\<rparr>)"
| run: "ct_executing c = Some (env, x # secs) \<Longrightarrow>
    count_step driver_resolver c ((put_stats (run_section x) c)\<lparr>ct_executing := Some (env, secs)\<rparr>)"
| complete: "d = ct_dispatcher c \<Longrightarrow> dd_worker d = Executing operation \<Longrightarrow> ct_executing c = Some (env, []) \<Longrightarrow>
    count_step driver_resolver c
      ((put_dispatcher (d\<lparr>dd_completed := dd_completed d @
            [(operation, fst (execute_outcome (dd_has_gate d) env (op_request operation)))], dd_worker := Waiting\<rparr>) c)
         \<lparr>ct_executing := None\<rparr>)"
| stop_begin: "\<not> dd_stopping (ct_dispatcher c) \<Longrightarrow>
    count_step driver_resolver c (put_dispatcher (Dispatcher_request_stop_begin alloc_ok (ct_dispatcher c)) c)"
| stop_count: "dd_cancelling (ct_dispatcher c) = Some (operation # rest) \<Longrightarrow> \<not> ct_cancelled c \<Longrightarrow>
    count_step driver_resolver c
      ((put_stats (count_status (rs_status (cancelled_result (op_request operation)))) c)\<lparr>ct_cancelled := True\<rparr>)"
| stop_complete: "d = ct_dispatcher c \<Longrightarrow> dd_cancelling d = Some (operation # rest) \<Longrightarrow> ct_cancelled c \<Longrightarrow>
    count_step driver_resolver c
      ((put_dispatcher (d\<lparr>dd_completed := dd_completed d @ [(operation, cancelled_result (op_request operation))],
          dd_cancelling := Some rest\<rparr>) c)\<lparr>ct_cancelled := False\<rparr>)"
| stop_end: "d = ct_dispatcher c \<Longrightarrow> dd_cancelling d = Some [] \<Longrightarrow>
    count_step driver_resolver c (put_dispatcher (d\<lparr>dd_cancelling := None, dd_stop_request_complete := True\<rparr>) c)"
| join_begin: "d = ct_dispatcher c \<Longrightarrow> dd_started d \<Longrightarrow> dd_stop_request_complete d \<Longrightarrow> \<not> dd_join_in_progress d \<Longrightarrow>
    \<not> dd_joined d \<Longrightarrow> count_step driver_resolver c (put_dispatcher (d\<lparr>dd_join_in_progress := True\<rparr>) c)"
| join_end: "d = ct_dispatcher c \<Longrightarrow> dd_join_in_progress d \<Longrightarrow> dd_worker d = Exited \<Longrightarrow>
    count_step driver_resolver c (put_dispatcher (d\<lparr>dd_join_in_progress := False, dd_joined := True\<rparr>) c)"
| join_failed: "d = ct_dispatcher c \<Longrightarrow> dd_join_in_progress d \<Longrightarrow>
    count_step driver_resolver c (put_dispatcher (d\<lparr>dd_join_in_progress := False\<rparr>) c)"

definition count_init :: "'c counting \<Rightarrow> bool" where
  "count_init c \<longleftrightarrow> disp_init (ct_dispatcher c) \<and> ct_submitting c = [] \<and> ct_executing c = None \<and> \<not> ct_cancelled c"

lemma cs_put_simps [simp]:
  "ct_dispatcher (put_dispatcher d c) = d" "ct_submitting (put_dispatcher d c) = ct_submitting c"
  "ct_executing (put_dispatcher d c) = ct_executing c" "ct_cancelled (put_dispatcher d c) = ct_cancelled c"
  "ct_dispatcher (put_stats f c) = (ct_dispatcher c)\<lparr>dd_stats := f (dd_stats (ct_dispatcher c))\<rparr>"
  "ct_submitting (put_stats f c) = ct_submitting c"
  "ct_executing (put_stats f c) = ct_executing c" "ct_cancelled (put_stats f c) = ct_cancelled c"
  by (simp_all add: put_dispatcher_def put_stats_def)

section \<open>Refinement of the steps of \<open>Control\<close>\<close>

text \<open>Everything but the statistics.\<close>

definition blank :: "'c Dispatcher \<Rightarrow> 'c Dispatcher" where
  "blank d = d\<lparr>dd_stats := zero_control_stats\<rparr>"

lemma blank_eq: "blank d = blank d' \<longleftrightarrow> (\<exists>s. d' = d\<lparr>dd_stats := s\<rparr>)"
proof
  assume b: "blank d = blank d'"
  have "d' = (blank d')\<lparr>dd_stats := dd_stats d'\<rparr>" by (simp add: blank_def)
  also have "\<dots> = d\<lparr>dd_stats := dd_stats d'\<rparr>" unfolding b [symmetric] by (simp add: blank_def)
  finally show "\<exists>s. d' = d\<lparr>dd_stats := s\<rparr>" by blast
qed (auto simp: blank_def)

lemma blank_stats [simp]: "blank (d\<lparr>dd_stats := s\<rparr>) = blank d"
  by (simp add: blank_def)

lemma decide_stats:
  assumes "Dispatcher_submit_decide dr now request completion (d\<lparr>dd_stats := s\<rparr>) = (r, d')"
  shows "\<exists>d1. Dispatcher_submit_decide dr now request completion d = (r, d1) \<and> blank d1 = blank d' \<and> dd_entered d1 = dd_entered d"
  using assms by (auto simp: Dispatcher_submit_decide_def Let_def blank_def split: if_splits prod.splits)

lemma stop_begin_stats:
  "Dispatcher_request_stop_begin ok (d\<lparr>dd_stats := s\<rparr>) = (Dispatcher_request_stop_begin ok d)\<lparr>dd_stats := s\<rparr>"
  by (simp add: Dispatcher_request_stop_begin_def Let_def split: prod.splits)

text \<open>Every step is a step of the dispatcher of \<open>Control\<close>, or none, up to the statistics.\<close>

lemma count_step_refines:
  assumes "count_step dr c c'" and "blank d = blank (ct_dispatcher c)"
  shows "\<exists>d'. (disp_steps dr)\<^sup>=\<^sup>= d d' \<and> blank d' = blank (ct_dispatcher c')"
proof -
  obtain s where f: "ct_dispatcher c = d\<lparr>dd_stats := s\<rparr>" using assms(2) blank_eq by blast
  have go: ?thesis if "disp_step dr l d d'" "blank d' = blank (ct_dispatcher c')" for l d' using that by blast
  show ?thesis
    using assms(1)
  proof (cases rule: count_step.cases)
    case (start d1)
    then have "Dispatcher_start d = Inr (d1\<lparr>dd_stats := dd_stats d\<rparr>)"
      by (auto simp: f Dispatcher_start_def split: if_splits)
    from go [OF disp_step.start [OF this]] start(1) show ?thesis by simp
  next
    case (enter e)
    from go [OF disp_step.submit_enter] show ?thesis
      using enter by (simp add: f Dispatcher_submit_enter_def blank_def)
  next
    case (decide e now request completion r e')
    then have "Dispatcher_submit_decide dr now request completion (d\<lparr>dd_stats := s\<rparr>) = (r, e')" by (simp add: f)
    then obtain d1 where d1: "Dispatcher_submit_decide dr now request completion d = (r, d1)" "blank d1 = blank e'" "dd_entered d1 = dd_entered d"
      using decide_stats by blast
    then obtain t where e': "e' = d1\<lparr>dd_stats := t\<rparr>" using blank_eq by blast
    have "0 < dd_entered d" using decide by (simp add: f)
    from go [OF disp_step.submit_decide [OF this d1(1)]] show ?thesis
      using decide by (simp add: f e' blank_def)
  next
    case (count_submit r)
    then show ?thesis using assms(2) by (intro exI [of _ d]) simp
  next
    case (pop e operation q)
    then have "dd_worker d = Waiting" "ControlQueue_wait_pop (dd_queue d) = Some (Some operation, q)" by (simp_all add: f)
    from go [OF disp_step.worker_pop [OF this]] pop show ?thesis by (simp add: f blank_def)
  next
    case (exit e q)
    then have "dd_worker d = Waiting" "ControlQueue_wait_pop (dd_queue d) = Some (None, q)" by (simp_all add: f)
    from go [OF disp_step.worker_exit [OF this]] exit show ?thesis by (simp add: f blank_def)
  next
    case (execute operation env)
    then show ?thesis using assms(2) by (intro exI [of _ d]) simp
  next
    case (run env x secs)
    then show ?thesis using assms(2) by (intro exI [of _ d]) simp
  next
    case (complete e operation env)
    obtain t where t: "Dispatcher_execute env operation d = d\<lparr>dd_stats := t, dd_completed := dd_completed d @
        [(operation, fst (execute_outcome (dd_has_gate d) env (op_request operation)))]\<rparr>"
      using execute_effect by blast
    have "dd_worker d = Executing operation" using complete by (simp add: f)
    from go [OF disp_step.worker_execute [OF this, of dr env]] complete show ?thesis by (simp add: f t blank_def)
  next
    case (stop_begin ok)
    then have "\<not> dd_stopping d" by (simp add: f)
    from go [OF disp_step.stop_begin [OF this, of dr ok]] stop_begin show ?thesis by (simp add: f stop_begin_stats)
  next
    case (stop_count operation rest)
    then show ?thesis using assms(2) by (intro exI [of _ d]) simp
  next
    case (stop_complete e operation rest)
    then have "dd_cancelling d = Some (operation # rest)" by (simp add: f)
    from go [OF disp_step.stop_complete_one [OF this]] stop_complete show ?thesis by (simp add: f Dispatcher_complete_def blank_def)
  next
    case (stop_end e)
    then have "dd_cancelling d = Some []" by (simp add: f)
    from go [OF disp_step.stop_end [OF this]] stop_end show ?thesis by (simp add: f blank_def)
  next
    case (join_begin e)
    then have "dd_started d" "dd_stop_request_complete d" "\<not> dd_join_in_progress d" "\<not> dd_joined d" by (simp_all add: f)
    from go [OF disp_step.join_begin [OF this]] join_begin show ?thesis by (simp add: f blank_def)
  next
    case (join_end e)
    then have "dd_join_in_progress d" "dd_worker d = Exited" by (simp_all add: f)
    from go [OF disp_step.join_end [OF this]] join_end show ?thesis by (simp add: f blank_def)
  next
    case (join_failed e)
    then have "dd_join_in_progress d" by (simp add: f)
    from go [OF disp_step.join_failed [OF this]] join_failed show ?thesis by (simp add: f blank_def)
  qed
qed

lemma count_refines:
  assumes "reachable count_init (count_step dr) c"
  shows "\<exists>d. reachable disp_init (disp_steps dr) d \<and> blank d = blank (ct_dispatcher c)"
  using assms
proof (induction rule: reachable.induct)
  case (start c)
  then show ?case by (auto simp: count_init_def intro: reachable.start)
next
  case (step c c')
  then obtain d where d: "reachable disp_init (disp_steps dr) d" "blank d = blank (ct_dispatcher c)" by blast
  from count_step_refines [OF step(2) d(2)] obtain d' where "(disp_steps dr)\<^sup>=\<^sup>= d d'" "blank d' = blank (ct_dispatcher c')" by blast
  then show ?case using d(1) reachable.step by fastforce
qed

section \<open>Invariant of the counters\<close>

definition is_status :: "stats_section \<Rightarrow> bool" where
  "is_status x = (case x of Sec_status _ \<Rightarrow> True | _ \<Rightarrow> False)"

text \<open>The status is counted last.\<close>

definition ends_in_status :: "stats_section list \<Rightarrow> bool" where
  "ends_in_status secs \<longleftrightarrow> secs = [] \<or> is_status (last secs) \<and> list_all (\<lambda>x. \<not> is_status x) (butlast secs)"

text \<open>Operations whose status is counted and whose completion is yet to be called.\<close>

definition calling_back :: "'c counting \<Rightarrow> nat" where
  "calling_back c =
     (case ct_executing c of Some (env, []) \<Rightarrow> 1 | _ \<Rightarrow> 0) + (if ct_cancelled c then 1 else 0)"

definition counted :: "'c counting \<Rightarrow> bool" where
  "counted c \<longleftrightarrow>
     (let d = ct_dispatcher c; s = dd_stats d in
      cs_submitted s = submit_total s + of_nat (dd_entered d) + of_nat (length (ct_submitting c)) \<and>
      cs_accepted s + of_nat (count_list (ct_submitting c) Sub_Accepted) = of_nat (length (dd_accepted d)) \<and>
      cq_accepted (dd_queue d) = of_nat (length (dd_accepted d)) \<and>
      cs_queue_full s + of_nat (count_list (ct_submitting c) Sub_QueueFull) = cq_rejected_full (dd_queue d) \<and>
      cq_cancelled (dd_queue d) = of_nat (length (dd_swept d)) \<and>
      completion_total s = of_nat (length (dd_completed d)) + of_nat (calling_back c))"

definition in_turn :: "'c counting \<Rightarrow> bool" where
  "in_turn c \<longleftrightarrow>
     (\<forall>env secs. ct_executing c = Some (env, secs) \<longrightarrow>
        (\<exists>operation. dd_worker (ct_dispatcher c) = Executing operation) \<and> ends_in_status secs) \<and>
     (ct_cancelled c \<longrightarrow> (\<exists>operation rest. dd_cancelling (ct_dispatcher c) = Some (operation # rest)))"

lemma sections_end_in_status: "ends_in_status (execute_sections has_gate env operation)"
  by (simp add: execute_sections_def ends_in_status_def is_status_def Let_def case_prod_beta)

lemma ends_in_status_Cons:
  "ends_in_status (x # secs) \<Longrightarrow> ends_in_status secs \<and> (is_status x \<longleftrightarrow> secs = [])"
  by (cases secs rule: rev_cases) (auto simp: ends_in_status_def butlast_append)

lemma run_section_totals:
  "completion_total (run_section x s) = completion_total s + (if is_status x then 1 else 0)"
  "submit_total (run_section x s) = submit_total s" "cs_submitted (run_section x s) = cs_submitted s"
  "cs_accepted (run_section x s) = cs_accepted s" "cs_queue_full (run_section x s) = cs_queue_full s"
proof -
  have full: "cs_queue_full (count_status st s) = cs_queue_full s" for st
    by (simp add: count_status_def split: DeviceControlStatus.split)
  show "completion_total (run_section x s) = completion_total s + (if is_status x then 1 else 0)"
    "submit_total (run_section x s) = submit_total s" "cs_submitted (run_section x s) = cs_submitted s"
    "cs_accepted (run_section x s) = cs_accepted s" "cs_queue_full (run_section x s) = cs_queue_full s"
    by (cases x, simp_all add: is_status_def full)+
qed

lemma count_submit_fields:
  "cs_accepted (count_submit r s) = cs_accepted s + (if r = Sub_Accepted then 1 else 0)"
  "cs_queue_full (count_submit r s) = cs_queue_full s + (if r = Sub_QueueFull then 1 else 0)"
  by (simp_all add: count_submit_def split: ControlSubmitResult.split)

lemma count_list_remove1: "r \<in> set xs \<Longrightarrow> count_list xs x = count_list (remove1 r xs) x + (if x = r then 1 else 0)"
  by (induction xs) auto

lemma decide_effect:
  assumes "Dispatcher_submit_decide dr now request completion d = (r, d')"
  shows "length (dd_accepted d') = length (dd_accepted d) + (if r = Sub_Accepted then 1 else 0)"
    and "cq_accepted (dd_queue d') = cq_accepted (dd_queue d) + (if r = Sub_Accepted then 1 else 0)"
    and "cq_rejected_full (dd_queue d') = cq_rejected_full (dd_queue d) + (if r = Sub_QueueFull then 1 else 0)"
    and "cq_cancelled (dd_queue d') = cq_cancelled (dd_queue d)"
    and "dd_swept d' = dd_swept d" "dd_completed d' = dd_completed d" "dd_worker d' = dd_worker d"
    "dd_cancelling d' = dd_cancelling d"
  using assms
  by (auto simp: Dispatcher_submit_decide_def ControlQueue_try_push_def Let_def split: if_splits prod.splits)

lemma pop_counters:
  "ControlQueue_wait_pop q = Some (x, q') \<Longrightarrow>
     cq_accepted q' = cq_accepted q \<and> cq_rejected_full q' = cq_rejected_full q \<and> cq_cancelled q' = cq_cancelled q"
  by (auto simp: ControlQueue_wait_pop_def split: list.splits if_splits)

lemma request_stop_begin_counters:
  fixes d :: "'c Dispatcher"
  assumes "\<not> dd_stopping d"
  defines "d' \<equiv> \<lambda>ok. Dispatcher_request_stop_begin ok d"
  shows "cq_accepted (dd_queue (d' ok)) = cq_accepted (dd_queue d)"
    "cq_rejected_full (dd_queue (d' ok)) = cq_rejected_full (dd_queue d)"
    "cq_cancelled (dd_queue (d' ok)) = cq_cancelled (dd_queue d) + of_nat (length (dd_swept (d' ok)))"
    "dd_accepted (d' ok) = dd_accepted d" "dd_completed (d' ok) = dd_completed d" "dd_stats (d' ok) = dd_stats d"
    "dd_entered (d' ok) = dd_entered d"
  using assms(1) unfolding d'_def
  by (cases ok; simp add: Dispatcher_request_stop_begin_def Let_def ControlQueue_close_def
        ControlQueue_cancel_pending_def cancel_loop_spec)+

lemma in_turn_step:
  assumes "count_step dr c c'" and "in_turn c" and "life_inv (ct_dispatcher c)"
  shows "in_turn c'"
  using assms(1)
proof (cases rule: count_step.cases)
  case (start d)
  then show ?thesis using assms(2,3) by (auto simp: in_turn_def Dispatcher_start_def life_inv_def split: if_splits)
next
  case (decide d now request completion r d')
  then show ?thesis using assms(2) decide_effect [OF decide(4)] by (auto simp: in_turn_def)
next
  case (execute operation env)
  then show ?thesis using assms(2) by (auto simp: in_turn_def sections_end_in_status)
next
  case (run env x secs)
  then show ?thesis using assms(2) ends_in_status_Cons by (auto simp: in_turn_def)
next
  case (stop_begin ok)
  then have "dd_cancelling (ct_dispatcher c) = None" using assms(3) by (auto simp: life_inv_def)
  then show ?thesis using stop_begin assms(2) by (auto simp: in_turn_def Dispatcher_request_stop_begin_def Let_def split: prod.splits)
next
  case (complete d operation env)
  then show ?thesis using assms(2) by (auto simp: in_turn_def)
next
  case (stop_count operation rest)
  then show ?thesis using assms(2) by (auto simp: in_turn_def)
next
  case (stop_complete d operation rest)
  then show ?thesis using assms(2) by (auto simp: in_turn_def)
qed (use assms(2) in \<open>fastforce simp: in_turn_def Dispatcher_submit_enter_def\<close>)+

lemma counted_step:
  assumes "count_step dr c c'" and "counted c" and "in_turn c" and "life_inv (ct_dispatcher c)"
  shows "counted c'"
  using assms(1)
proof (cases rule: count_step.cases)
  case (start d)
  then show ?thesis using assms(2) by (auto simp: counted_def Let_def calling_back_def Dispatcher_start_def split: if_splits)
next
  case (enter d)
  then show ?thesis using assms(2) by (simp add: counted_def Let_def calling_back_def Dispatcher_submit_enter_def)
next
  case (decide d now request completion r d')
  obtain k where k: "dd_entered d = Suc k" using decide(3) gr0_conv_Suc by blast
  have c': "calling_back c' = calling_back c" "ct_submitting c' = r # ct_submitting c"
    "ct_dispatcher c' = d'\<lparr>dd_stats := dd_stats d, dd_entered := k\<rparr>"
    by (simp_all add: decide(1) calling_back_def k)
  show ?thesis
    using assms(2) unfolding counted_def Let_def c'
    by (simp add: decide(2) [symmetric] k decide_effect [OF decide(4)])
next
  case (count_submit r)
  have len: "length (ct_submitting c) = Suc (length (remove1 r (ct_submitting c)))"
    using count_submit(2) by (metis Suc_pred' length_pos_if_in_set length_remove1)
  define xs where "xs = remove1 r (ct_submitting c)"
  have c: "length (ct_submitting c) = Suc (length xs)" "count_list (ct_submitting c) x = count_list xs x + (if x = r then 1 else 0)" for x
    using len count_list_remove1 [OF count_submit(2)] by (simp_all only: xs_def)
  have c': "calling_back c' = calling_back c" "ct_submitting c' = xs"
    "ct_dispatcher c' = (ct_dispatcher c)\<lparr>dd_stats := count_submit r (dd_stats (ct_dispatcher c))\<rparr>"
    by (simp_all add: count_submit(1) calling_back_def xs_def)
  show ?thesis
    using assms(2) unfolding counted_def Let_def c'
    by (cases r) (simp_all add: c count_submit_fields add.assoc)
next
  case (pop d operation q)
  then show ?thesis using assms(2) pop_counters [OF pop(4)] by (simp add: counted_def Let_def calling_back_def)
next
  case (exit d q)
  then show ?thesis using assms(2) pop_counters [OF exit(4)] by (simp add: counted_def Let_def calling_back_def)
next
  case (execute operation env)
  have "execute_sections (dd_has_gate (ct_dispatcher c)) env operation \<noteq> []"
    by (simp add: execute_sections_def Let_def case_prod_beta)
  then show ?thesis using execute assms(2) by (simp add: counted_def Let_def calling_back_def split: list.split)
next
  case (run env x secs)
  have "is_status x \<longleftrightarrow> secs = []" using assms(3) run(2) ends_in_status_Cons by (auto simp: in_turn_def)
  then show ?thesis using run assms(2)
    by (simp add: counted_def Let_def calling_back_def run_section_totals split: list.split)
next
  case (complete d operation env)
  then show ?thesis using assms(2) by (simp add: counted_def Let_def calling_back_def)
next
  case (stop_begin ok)
  note st = request_stop_begin_counters [OF stop_begin(2), of ok]
  have "dd_swept (ct_dispatcher c) = []" using assms(4) stop_begin(2) by (simp add: life_inv_def)
  then show ?thesis using stop_begin assms(2) by (simp add: counted_def Let_def calling_back_def st)
next
  case (stop_count operation rest)
  have "completion_total (count_status st s) = completion_total s + 1" "submit_total (count_status st s) = submit_total s"
    "cs_submitted (count_status st s) = cs_submitted s" "cs_accepted (count_status st s) = cs_accepted s"
    "cs_queue_full (count_status st s) = cs_queue_full s" for st s
    by (simp_all, simp add: count_status_def split: DeviceControlStatus.split)
  then show ?thesis using stop_count assms(2) by (simp add: counted_def Let_def calling_back_def)
qed (use assms(2) in \<open>simp_all add: counted_def Let_def calling_back_def\<close>)

lemma blank_inv:
  assumes "blank d = blank d'" and "disp_inv d"
  shows "life_inv d'" and "order_inv d'" and "completion_inv d'"
proof -
  obtain s where d': "d' = d\<lparr>dd_stats := s\<rparr>" using assms(1) blank_eq by blast
  have "life_inv d' = life_inv d" "order_inv d' = order_inv d" "completion_inv d' = completion_inv d"
    by (simp_all add: d' life_inv_def order_inv_def completion_inv_def in_hand_def)
  then show "life_inv d'" "order_inv d'" "completion_inv d'" using assms(2) by (simp_all add: disp_inv_def)
qed

lemma reachable_life: "reachable count_init (count_step dr) c \<Longrightarrow> life_inv (ct_dispatcher c)"
  using count_refines blank_inv(1) dispatcher.reachable_inv by blast

lemma reachable_counted:
  assumes "reachable count_init (count_step dr) c"
  shows "counted c \<and> in_turn c"
  using assms
proof (induction rule: reachable.induct)
  case (start c)
  then show ?case
    by (auto simp: count_init_def disp_init_def Dispatcher_new_def ControlQueue_new_def counted_def in_turn_def Let_def calling_back_def
        zero_control_stats_def submit_total_def completion_total_def split: if_splits dest!: sym [of _ "ct_dispatcher c"])
next
  case (step c c')
  then show ?case using counted_step [OF step(2)] in_turn_step [OF step(2)] reachable_life [OF step(1)] by blast
qed

lemma joined_counts:
  assumes "reachable count_init (count_step dr) c" and "dd_joined (ct_dispatcher c)"
  shows "calling_back c = 0" and "length (dd_completed (ct_dispatcher c)) = length (dd_accepted (ct_dispatcher c))"
proof -
  obtain d where d: "reachable disp_init (disp_steps dr) d" "blank d = blank (ct_dispatcher c)"
    using count_refines [OF assms(1)] by blast
  then obtain s where f: "ct_dispatcher c = d\<lparr>dd_stats := s\<rparr>" using blank_eq by blast
  have "disp_inv d" by (rule dispatcher.reachable_inv [OF d(1)])
  then show "length (dd_completed (ct_dispatcher c)) = length (dd_accepted (ct_dispatcher c))"
    using joined_all_completed [of d] assms(2) mset_eq_length by (fastforce simp: f)
  have "dd_worker (ct_dispatcher c) = Exited" "dd_cancelling (ct_dispatcher c) = None"
    using reachable_life [OF assms(1)] assms(2) by (auto simp: life_inv_def)
  then show "calling_back c = 0"
    using reachable_counted [OF assms(1)] by (auto simp: in_turn_def calling_back_def split: option.split prod.split)
qed

section \<open>Property\<close>

text \<open>C29: the dispatcher's counters balance up to the threads in between. Whenever the statistics are read, between any two critical
  sections of any threads, \<open>submitted\<close> is the sum of the five outcomes plus the threads inside \<open>submit\<close>; the queue's
  own counters count the accepted and the swept operations exactly, and \<open>accepted\<close> and \<open>queue_full\<close> lag behind them
  by the threads that have pushed and not counted yet; the six status counters sum to the completions called, plus
  those operations whose completion is being called. Once the dispatcher is joined and nobody is inside \<open>submit\<close>, all
  accepted operations are counted as completed (all modulo \<open>2 ^ 64\<close>).\<close>

theorem dispatcher_counters_balance:
  assumes "reachable count_init (count_step driver_resolver) c"
  shows "let d = ct_dispatcher c; s = Dispatcher_stats d; q = Dispatcher_queue_stats d;
             statuses = cs_succeeded s + cs_unsupported s + cs_invalid_argument s + cs_timeouts s + cs_cancelled s + cs_failed s in
         cs_submitted s = cs_accepted s + cs_queue_full s + cs_unknown_device s + cs_invalid_requests s +
           cs_stopping s + of_nat (dd_entered d + length (ct_submitting c)) \<and>
         cqs_accepted q = of_nat (length (dd_accepted d)) \<and>
         cqs_accepted q = cs_accepted s + of_nat (count_list (ct_submitting c) Sub_Accepted) \<and>
         cqs_rejected_full q = cs_queue_full s + of_nat (count_list (ct_submitting c) Sub_QueueFull) \<and>
         cqs_cancelled q = of_nat (length (dd_swept d)) \<and>
         statuses = of_nat (length (dd_completed d) + calling_back c) \<and>
         (dd_joined d \<and> ct_submitting c = [] \<longrightarrow> cs_accepted s = statuses)"
proof -
  have n: "counted c" using reachable_counted [OF assms] by blast
  note balance = n [unfolded counted_def Let_def submit_total_def completion_total_def]
  show ?thesis
    unfolding Let_def Dispatcher_stats_def Dispatcher_queue_stats_def ControlQueue_stats_def
  proof (intro conjI impI)
    assume "dd_joined (ct_dispatcher c) \<and> ct_submitting c = []"
    then have j: "calling_back c = 0" "length (dd_completed (ct_dispatcher c)) = length (dd_accepted (ct_dispatcher c))" "ct_submitting c = []"
      using joined_counts [OF assms] by simp_all
    show "cs_accepted (dd_stats (ct_dispatcher c)) = cs_succeeded (dd_stats (ct_dispatcher c)) +
        cs_unsupported (dd_stats (ct_dispatcher c)) + cs_invalid_argument (dd_stats (ct_dispatcher c)) +
        cs_timeouts (dd_stats (ct_dispatcher c)) + cs_cancelled (dd_stats (ct_dispatcher c)) + cs_failed (dd_stats (ct_dispatcher c))"
      using balance [unfolded j] by simp
  qed (use balance in \<open>simp_all add: add.assoc\<close>)
qed

text \<open>A started dispatcher, a thread inside \<open>submit\<close>, and its request in the queue but not counted as accepted yet.\<close>

definition example_started :: "nat counting" where
  "example_started =
     \<lparr>ct_dispatcher = (case Dispatcher_start example_dispatcher of Inr d \<Rightarrow> d | Inl _ \<Rightarrow> example_dispatcher),
      ct_submitting = [], ct_executing = None, ct_cancelled = False\<rparr>"

definition example_inside :: "nat counting" where
  "example_inside =
     (let d = ct_dispatcher example_started
      in put_dispatcher ((Dispatcher_submit_enter d)\<lparr>dd_entered := dd_entered d + 1\<rparr>) example_started)"

definition example_pushed :: "nat counting" where
  "example_pushed =
     (let d = ct_dispatcher example_inside;
          (r, d') = Dispatcher_submit_decide example_resolver 1 (example_request ''a'') (Some 1) d
      in (put_dispatcher (d'\<lparr>dd_stats := dd_stats d, dd_entered := dd_entered d - 1\<rparr>) example_inside)
           \<lparr>ct_submitting := r # ct_submitting example_inside\<rparr>)"

lemma example_pushed_reachable: "reachable count_init (count_step example_resolver) example_pushed"
proof -
  define c0 where "c0 = \<lparr>ct_dispatcher = example_dispatcher, ct_submitting = [], ct_executing = None, ct_cancelled = False\<rparr>"
  obtain d1 where d1: "Dispatcher_start example_dispatcher = Inr d1"
    by (simp add: example_dispatcher_def Dispatcher_new_def ControlQueue_new_def Dispatcher_start_def)
  have "count_init c0"
    by (auto simp: count_init_def c0_def disp_init_def example_dispatcher_def Dispatcher_new_def ControlQueue_new_def
        intro!: exI [of _ 2] exI [of _ True])
  then have r0: "reachable count_init (count_step example_resolver) c0" by (rule reachable.start)
  have "example_started = put_dispatcher d1 c0" by (simp add: example_started_def d1 c0_def put_dispatcher_def)
  moreover have "count_step example_resolver c0 (put_dispatcher d1 c0)" by (rule count_step.start) (simp add: c0_def d1)
  ultimately have r1: "reachable count_init (count_step example_resolver) example_started" using reachable.step [OF r0] by metis
  have "count_step example_resolver example_started example_inside"
    unfolding example_inside_def Let_def by (rule count_step.enter) (rule refl)
  with r1 have r2: "reachable count_init (count_step example_resolver) example_inside" by (rule reachable.step)
  obtain r d3 where d3: "Dispatcher_submit_decide example_resolver 1 (example_request ''a'') (Some 1) (ct_dispatcher example_inside) = (r, d3)"
    by fastforce
  have "0 < dd_entered (ct_dispatcher example_inside)" by (simp add: example_inside_def Let_def)
  from count_step.decide [OF refl this d3] have "count_step example_resolver example_inside example_pushed"
    unfolding example_pushed_def Let_def d3 prod.case .
  with r2 show ?thesis by (rule reachable.step)
qed

theorem dispatcher_counters_balance_witness:
  "cqs_accepted (Dispatcher_queue_stats (ct_dispatcher example_pushed)) = 1 \<and> cs_accepted (Dispatcher_stats (ct_dispatcher example_pushed)) = 0 \<and>
   cqs_accepted (Dispatcher_queue_stats (ct_dispatcher example_pushed)) =
     cs_accepted (Dispatcher_stats (ct_dispatcher example_pushed)) + of_nat (count_list (ct_submitting example_pushed) Sub_Accepted)"
proof -
  have "cqs_accepted (Dispatcher_queue_stats (ct_dispatcher example_pushed)) = 1"
    "cs_accepted (Dispatcher_stats (ct_dispatcher example_pushed)) = 0" by code_simp+
  then show ?thesis using dispatcher_counters_balance [OF example_pushed_reachable] unfolding Let_def by blast
qed

end
