(* ===== verification/Number_Roundtrip.thy ===== *)
theory Number_Roundtrip
  imports Json_Text
begin

text \<open>
  Reading back the numbers of the payload: \<open>append_json_scalar\<close> writes a double with seventeen significant digits, and
  these determine the double. The first section is about rounding to binary64 near a binary64 value, the
  second about the decimal digits, the third about the text.
\<close>

section \<open>Doubles near a double\<close>

lemma round_half_even_near:
  assumes "\<bar>x - of_int n\<bar> < 1 / 2"
  shows "round_half_even x = n"
proof -
  have "\<bar>of_int (round_half_even x) - x\<bar> \<le> 1 / 2" by (rule round_half_even_error)
  with assms have "\<bar>(of_int (round_half_even x) :: rat) - of_int n\<bar> < 1" by linarith
  then have "\<bar>round_half_even x - n\<bar> < 1" by (metis of_int_abs of_int_diff of_int_less_1_iff)
  then show ?thesis by simp
qed

text \<open>A positive value in its unit: 53 bits, the leading one set unless the unit is the smallest.\<close>

lemma representable_unit:
  assumes "representable r" and "0 < r"
  obtains m where "r = of_int m * pow2 (round_unit r)" "0 < m" "m < 2 ^ 53"
    "round_unit r = -1074 \<or> 2 ^ 52 \<le> m" "-1074 \<le> round_unit r" "round_unit r \<le> 971"
proof -
  obtain k e where k: "r = of_int k * pow2 e" "0 \<le> k" "k < 2 ^ 53" "-1074 \<le> e" "e \<le> 971"
    using assms(1) by (auto simp: representable_def)
  let ?u = "round_unit r"
  have u: "?u \<le> e" using round_unit_le [OF assms(2) _ k(3,4)] k(1) by simp
  have lo: "-1074 \<le> ?u" by (simp add: round_unit_def)
  define m where "m = k * 2 ^ nat (e - ?u)"
  have r: "r = of_int m * pow2 ?u"
    using u pow2_add [of "e - ?u" ?u] by (simp add: k(1) m_def pow2_nat)
  have "of_int m * pow2 ?u < of_int (2 ^ 53) * pow2 ?u"
  proof -
    have "r < pow2 (?u + 53)"
      by (rule less_le_trans [OF ilog2_bounds(2) [OF assms(2)] pow2_mono]) (simp add: round_unit_def)
    then show ?thesis using r by (simp add: pow2_add pow2_nat mult.commute)
  qed
  then have "m < 2 ^ 53" unfolding mult_less_cancel_right_pos [OF pow2_pos(1)] of_int_less_iff .
  moreover have "0 < m"
  proof -
    have "0 < of_int m * pow2 ?u" using assms(2) by (simp only: r [symmetric])
    then show ?thesis using pow2_pos(1) [of ?u] by (auto simp: zero_less_mult_iff)
  qed
  moreover have "?u = -1074 \<or> 2 ^ 52 \<le> m"
  proof (cases "?u = -1074")
    case False
    then have "?u = ilog2 r - 52" by (simp add: round_unit_def split: if_splits)
    then have "pow2 (?u + 52) \<le> of_int m * pow2 ?u" using ilog2_bounds(1) [OF assms(2)] r by simp
    then have "of_int (2 ^ 52) * pow2 ?u \<le> of_int m * pow2 ?u" by (simp add: pow2_add pow2_nat mult.commute)
    then show ?thesis unfolding mult_le_cancel_right_pos [OF pow2_pos(1)] of_int_le_iff by simp
  qed simp
  ultimately show thesis using that r lo u k(5) by simp
qed

text \<open>
  A value is rounded to \<open>r\<close> when it is closer to \<open>r\<close> than half a unit, or than a quarter of it below a power of two.
\<close>

lemma round_double_near:
  assumes r: "representable r" "0 < r" and "r = of_int m * pow2 (round_unit r)"
    and near: "\<bar>x - r\<bar> < pow2 (round_unit r) / 2" "m = 2 ^ 52 \<Longrightarrow> r - x < pow2 (round_unit r) / 4"
  shows "round_double s x = Finite s r"
proof -
  let ?e = "round_unit r"
  obtain m' where m': "r = of_int m' * pow2 ?e" "0 < m'" "m' < 2 ^ 53" "?e = -1074 \<or> 2 ^ 52 \<le> m'" "-1074 \<le> ?e" "?e \<le> 971"
    using representable_unit [OF r] .
  then have "m' = m" using assms(3) by (metis mult_cancel_right of_int_eq_iff pow2_pos(3))
  note m = m' [unfolded this]
  define y where "y = x / pow2 ?e"
  have x: "x = y * pow2 ?e" by (simp add: y_def)
  have "\<bar>(y - of_int m) * pow2 ?e\<bar> < 1 / 2 * pow2 ?e" using near(1) m(1) by (simp add: x left_diff_distrib)
  then have y: "\<bar>y - of_int m\<bar> < 1 / 2" by (simp add: abs_mult)
  have "(1 :: rat) \<le> of_int m" using m(2) by simp
  then have "0 < y" using y by linarith
  then have x0: "0 < x" by (simp add: x)
  have "(of_int m :: rat) \<le> of_int (2 ^ 53 - 1)" using m(3) unfolding of_int_le_iff by simp
  then have "(of_int m :: rat) \<le> 2 ^ 53 - 1" by simp
  then have "y < 2 ^ 53" using y by linarith
  then have "x < pow2 (?e + 53)" by (simp add: x pow2_add pow2_nat mult.commute)
  then have "pow2 (ilog2 x) < pow2 (?e + 53)" using ilog2_bounds(1) [OF x0] by simp
  then have il: "ilog2 x < ?e + 53" by (meson linorder_not_less pow2_mono)
  show ?thesis
  proof (cases "round_unit x = ?e")
    case True
    have "round_half_even (x / pow2 (round_unit x)) = m" unfolding True y_def [symmetric] by (rule round_half_even_near [OF y])
    then show ?thesis using x0 m True by (simp add: round_double_def Let_def)
  next
    case False
    with il m(5) have below: "ilog2 x < ?e + 52" "?e \<noteq> -1074" by (auto simp: round_unit_def)
    then have big: "2 ^ 52 \<le> m" using m(4) by simp
    have "x < pow2 (?e + 52)" using ilog2_bounds(2) [OF x0] pow2_mono [of "ilog2 x + 1" "?e + 52"] below by simp
    then have y52: "y < 2 ^ 52" by (simp add: x pow2_add pow2_nat mult.commute)
    then have "(of_int m :: rat) < 2 ^ 52 + 1" using y by linarith
    then have "(of_int m :: rat) < of_int (2 ^ 52 + 1)" by simp
    then have m52: "m = 2 ^ 52" using big unfolding of_int_less_iff by simp
    have "(of_int m - y) * pow2 ?e < 1 / 4 * pow2 ?e" using near(2) [OF m52] m(1) by (simp add: x left_diff_distrib)
    then have y4: "2 ^ 52 - y < 1 / 4" by (simp add: m52)
    have half: "pow2 ?e = 2 * pow2 (?e - 1)" using pow2_add [of 1 "?e - 1"] by (simp add: pow2_def)
    have "pow2 (?e + 51) = 2 ^ 51 * pow2 ?e" by (simp add: pow2_add pow2_nat mult.commute)
    also have "\<dots> < x" using y4 by (simp add: x)
    finally have "pow2 (?e + 51) < pow2 (ilog2 x + 1)" using ilog2_bounds(2) [OF x0] by simp
    then have "?e + 51 < ilog2 x + 1" by (meson linorder_not_less pow2_mono)
    then have u: "round_unit x = ?e - 1" using below m(5) by (simp add: round_unit_def)
    have "x / pow2 (?e - 1) = 2 * y" by (simp add: x half)
    moreover have "round_half_even (2 * y) = 2 ^ 53" by (rule round_half_even_near) (use y4 y52 in simp)
    ultimately have "round_half_even (x / pow2 (round_unit x)) = 2 ^ 53" by (simp add: u)
    moreover have "r = of_int (2 ^ 53) * pow2 (?e - 1)" using m(1) m52 by (simp add: half)
    ultimately show ?thesis using x0 m(6) u by (simp add: round_double_def Let_def)
  qed
qed
section \<open>Seventeen digits\<close>

lemma pow10_powi: "pow10 e = 10 powi e"
  by (simp add: pow10_def power_int_def inverse_eq_divide power_one_over)

lemma pow10_add: "pow10 (a + b) = pow10 a * pow10 b"
  by (simp add: pow10_powi power_int_add)

lemma pow10_diff: "pow10 (a - b) = pow10 a / pow10 b"
  by (simp add: pow10_powi power_int_diff)

lemma pow10_nat: "0 \<le> e \<Longrightarrow> pow10 e = of_int (10 ^ nat e)"
  by (simp add: pow10_def)

lemma dec_digits_bounds:
  "0 < n \<Longrightarrow> 10 ^ (length (dec_digits n) - 1) \<le> n \<and> n < 10 ^ length (dec_digits n)"
proof (induction n rule: dec_digits.induct)
  case (1 n)
  show ?case
  proof (cases "n < 10")
    case True
    then show ?thesis using 1(2) by (simp add: dec_digits.simps)
  next
    case False
    let ?l = "length (dec_digits (n div 10))"
    have ih: "10 ^ (?l - 1) \<le> n div 10" "n div 10 < 10 ^ ?l" using 1(1) [OF False] False by simp_all
    have "0 < ?l" by simp
    then have p: "10 * 10 ^ (?l - 1) = (10 ^ ?l :: int)" by (simp flip: power_Suc)
    have "length (dec_digits n) = Suc ?l" using False by (simp add: dec_digits.simps [of n])
    moreover have "10 ^ ?l \<le> n" unfolding p [symmetric] using ih(1) by simp
    moreover have "n < 10 * 10 ^ ?l" using ih(2) by simp
    ultimately show ?thesis by simp
  qed
qed

lemma pow10_digits:
  assumes "0 < n"
  shows "pow10 (int (length (dec_digits n)) - 1) \<le> of_int n" and "of_int n < pow10 (int (length (dec_digits n)))"
proof -
  have "0 < length (dec_digits n)" by simp
  then have "0 \<le> int (length (dec_digits n)) - 1" "nat (int (length (dec_digits n)) - 1) = length (dec_digits n) - 1" by linarith+
  then show "pow10 (int (length (dec_digits n)) - 1) \<le> of_int n" "of_int n < pow10 (int (length (dec_digits n)))"
    using dec_digits_bounds [OF assms] by (simp_all add: pow10_nat del: of_int_power)
qed

lemma ilog10_bounds:
  assumes "0 < r"
  shows "pow10 (ilog10 r) \<le> r" and "r < pow10 (ilog10 r + 1)"
proof -
  obtain p q where pq: "quotient_of r = (p, q)" by fastforce
  have q: "0 < q" using quotient_of_denom_pos [OF pq] .
  have r: "r = of_int p / of_int q" using quotient_of_div [OF pq] .
  have p: "0 < p" using assms q by (simp add: r zero_less_divide_iff)
  define a b where "a = int (length (dec_digits p))" and "b = int (length (dec_digits q))"
  have "r < pow10 a / pow10 (b - 1)"
    unfolding r a_def b_def using pow10_digits [OF p] pow10_digits [OF q] p q pow10_pos by (intro frac_less) auto
  then have ub: "r < pow10 (a - b + 1)" by (simp add: pow10_diff [symmetric] algebra_simps)
  have "pow10 (a - 1) / pow10 b \<le> r"
    unfolding r a_def b_def using pow10_digits [OF p] pow10_digits [OF q] p q pow10_pos by (intro frac_le) (auto simp: less_imp_le)
  then have lb: "pow10 (a - b - 1) \<le> r" by (simp add: pow10_diff [symmetric] algebra_simps)
  show "pow10 (ilog10 r) \<le> r" "r < pow10 (ilog10 r + 1)"
    using ub lb by (auto simp: ilog10_def pq a_def b_def Let_def)
qed

text \<open>The digits the output has, with the carry, and their value.\<close>

definition general17_digits :: "rat \<Rightarrow> int \<times> int" where
  "general17_digits r =
     (let x0 = ilog10 r; n0 = round_half_even (r / pow10 (x0 - 16))
      in if n0 = 10 ^ 17 then (10 ^ 16, x0 + 1) else (n0, x0))"

lemma general17_digits:
  assumes "0 < r" and "general17_digits r = (n, x)"
  shows "of_int n * pow10 (x - 16) = of_int (round_half_even (r / pow10 (ilog10 r - 16))) * pow10 (ilog10 r - 16)"
    and "10 ^ 16 \<le> n" and "n < 10 ^ 17"
proof -
  let ?u = "pow10 (ilog10 r - 16)" and ?n0 = "round_half_even (r / pow10 (ilog10 r - 16))"
  have "pow10 (ilog10 r) = 10 ^ 16 * ?u" "pow10 (ilog10 r + 1) = 10 ^ 17 * ?u"
    using pow10_add [of 16 "ilog10 r - 16"] pow10_add [of 17 "ilog10 r - 16"] by (simp_all add: pow10_nat algebra_simps)
  then have "of_int (10 ^ 16) \<le> r / ?u" "r / ?u \<le> of_int (10 ^ 17)"
    using ilog10_bounds [OF assms(1)] pow10_pos [of "ilog10 r - 16"] by (simp_all add: field_simps)
  note n0 = round_half_even_lower [OF this(1)] round_half_even_upper [OF this(2)]
  have carry: "pow10 (ilog10 r + 1 - 16) = 10 * ?u"
    using pow10_add [of 1 "ilog10 r - 16"] by (simp add: pow10_nat algebra_simps)
  show "of_int n * pow10 (x - 16) = of_int ?n0 * ?u" "10 ^ 16 \<le> n" "n < 10 ^ 17"
    using assms(2) n0 carry by (auto simp: general17_digits_def Let_def split: if_splits)
qed

text \<open>Seventeen digits are enough: \<open>10\<^sup>1\<^sup>6\<close> exceeds \<open>2\<^sup>5\<^sup>3\<close>.\<close>

lemma general17_value:
  assumes "representable r" and "0 < r" and "general17_digits r = (n, x)"
  shows "round_double s (of_int n * pow10 (x - 16)) = Finite s r"
proof -
  let ?e = "round_unit r" and ?u = "pow10 (ilog10 r - 16)"
  obtain m where m: "r = of_int m * pow2 ?e" "0 < m" "m < 2 ^ 53" "?e = -1074 \<or> 2 ^ 52 \<le> m" "-1074 \<le> ?e" "?e \<le> 971"
    using representable_unit [OF assms(1,2)] .
  define v where "v = of_int n * pow10 (x - 16)"
  have v: "v = of_int (round_half_even (r / ?u)) * ?u" unfolding v_def by (rule general17_digits(1) [OF assms(2,3)])
  have u: "0 < ?u" by (rule pow10_pos)
  have "\<bar>of_int (round_half_even (r / ?u)) - r / ?u\<bar> * ?u \<le> 1 / 2 * ?u"
    using round_half_even_error u by (intro mult_right_mono) auto
  also have "\<bar>of_int (round_half_even (r / ?u)) - r / ?u\<bar> * ?u = \<bar>v - r\<bar>"
  proof -
    have "(of_int (round_half_even (r / ?u)) - r / ?u) * ?u = v - r" using u by (simp add: v left_diff_distrib)
    then show ?thesis using u by (metis abs_mult abs_of_pos)
  qed
  finally have err: "\<bar>v - r\<bar> \<le> ?u / 2" by simp
  have ten: "10000000000000000 * ?u \<le> of_int m * pow2 ?e"
    using ilog10_bounds(1) [OF assms(2)] pow10_add [of 16 "ilog10 r - 16"] m(1) by (simp add: pow10_nat algebra_simps)
  have pe: "0 < pow2 ?e" by simp
  have "(of_int m :: rat) < of_int (2 ^ 53)" using m(3) unfolding of_int_less_iff .
  then have "of_int m * pow2 ?e < of_int (2 ^ 53) * pow2 ?e" using pe by (intro mult_strict_right_mono)
  then have "of_int m * pow2 ?e < 9007199254740992 * pow2 ?e" by simp
  with ten have small: "?u < pow2 ?e" using pe by linarith
  have "r - v < pow2 ?e / 4" if "m = 2 ^ 52"
  proof -
    have "(of_int m :: rat) = 4503599627370496" using that by simp
    then have "of_int m * pow2 ?e = 4503599627370496 * pow2 ?e" by simp
    then have "?u < pow2 ?e / 2" using ten pe by linarith
    then show ?thesis using err by linarith
  qed
  moreover have "\<bar>v - r\<bar> < pow2 ?e / 2" using err small by linarith
  ultimately show ?thesis unfolding v_def [symmetric] using round_double_near [OF assms(1,2) m(1)] by blast
qed
section \<open>Reading the text back\<close>

lemma dec_val_append: "dec_val (xs @ ys) = dec_val xs * 10 ^ length ys + dec_val ys"
proof -
  have "foldl (\<lambda>n c. 10 * n + digit_val c) a ys = a * 10 ^ length ys + foldl (\<lambda>n c. 10 * n + digit_val c) 0 ys" for a
  proof (induction ys arbitrary: a)
    case (Cons y ys)
    show ?case using Cons.IH [of "10 * a + digit_val y"] Cons.IH [of "digit_val y"] by (simp add: algebra_simps)
  qed simp
  then show ?thesis unfolding dec_val_def foldl_append .
qed

lemma digit_val_zero [simp]: "digit_val (CHR ''0'') = 0"
  by (simp add: digit_val_def)

lemma dec_val_zeros [simp]: "dec_val (replicate k (CHR ''0'')) = 0"
  by (induction k) (simp_all add: dec_val_def)

lemma dec_val_zero_Cons [simp]: "dec_val (CHR ''0'' # s) = dec_val s"
  using dec_val_append [of "''0''" s] by (simp add: dec_val_def)

lemma dec_val_pad_left [simp]: "dec_val (pad_left k s) = dec_val s"
  by (simp add: pad_left_def dec_val_append)

lemma strip_zeros_split: "\<exists>k. fp = strip_zeros fp @ replicate k (CHR ''0'')"
proof -
  let ?p = "\<lambda>c. c = CHR ''0''"
  have "rev fp = takeWhile ?p (rev fp) @ dropWhile ?p (rev fp)" by simp
  moreover have "takeWhile ?p (rev fp) = replicate (length (takeWhile ?p (rev fp))) (CHR ''0'')"
    by (intro replicate_eqI) (auto dest: set_takeWhileD)
  ultimately have "fp = rev (dropWhile ?p (rev fp)) @ replicate (length (takeWhile ?p (rev fp))) (CHR ''0'')"
    by (metis rev_append rev_replicate rev_rev_ident)
  then show ?thesis unfolding strip_zeros_def by blast
qed

lemma digits_not_special:
  assumes "is_digit c"
  shows "\<not> has_prefix_ci ''infinity'' (c # s)" and "\<not> has_prefix_ci ''inf'' (c # s)" and "\<not> has_prefix_ci ''nan'' (c # s)"
  using assms by (auto simp: has_prefix_ci_def dest: is_digit_not_letter)

text \<open>The digits around the decimal point, wherever the trailing zeros were dropped.\<close>

lemma from_chars_decimal:
  assumes "digits ip" and "\<forall>c \<in> set fp. is_digit c" and "split_exponent ep = (x, [])"
    and "ep = [] \<or> \<not> is_digit (hd ep) \<and> hd ep \<noteq> CHR ''.''"
  shows "from_chars (sign_text s @ with_fraction ip fp @ ep) =
    map_option (\<lambda>d. (d, [])) (decimal_value s (of_int (dec_val (ip @ fp)) * pow10 (x - int (length fp))))"
proof -
  obtain k where k: "fp = strip_zeros fp @ replicate k (CHR ''0'')" using strip_zeros_split by blast
  let ?f = "strip_zeros fp"
  have f: "\<forall>c \<in> set ?f. is_digit c" using assms(2) k by (metis Un_iff set_append)
  have ip: "ip \<noteq> []" "\<forall>c \<in> set ip. is_digit c" using assms(1) by (auto simp: digits_def)
  then obtain c cs where c: "ip = c # cs" "is_digit c" by (cases ip) auto
  have val: "of_int (dec_val (ip @ fp)) * pow10 (x - int (length fp)) =
      of_int (dec_val (ip @ ?f)) * pow10 (x - int (length ?f))"
  proof -
    have "dec_val (ip @ fp) = dec_val (ip @ ?f) * 10 ^ k"
      by (subst k) (simp add: dec_val_append algebra_simps power_add)
    moreover have "int (length fp) = int (length ?f) + int k" by (subst k) simp
    moreover have "pow10 (x - int (length ?f)) = 10 ^ k * pow10 (x - int (length ?f) - int k)"
      using pow10_add [of "int k" "x - int (length ?f) - int k"] by (simp add: pow10_nat)
    ultimately show ?thesis by (simp add: algebra_simps)
  qed
  let ?t = "with_fraction ip fp @ ep"
  have t: "\<exists>u. ?t = c # u" using c by (auto simp: with_fraction_def Let_def)
  have sign: "split_sign (sign_text s @ ?t) = (s, ?t)"
    using t c(2) by (auto simp: split_sign_def sign_text_def)
  have special: "\<not> has_prefix_ci ''infinity'' ?t" "\<not> has_prefix_ci ''inf'' ?t" "\<not> has_prefix_ci ''nan'' ?t"
    using t digits_not_special [OF c(2)] by metis+
  have dot: "\<not> is_digit (CHR ''.'')" by (simp add: is_digit_def)
  have ep: "takeWhile is_digit ep = []" "dropWhile is_digit ep = ep" "split_fraction ep = ([], ep)"
    using assms(4) by (cases ep; auto simp: split_fraction_def)+
  have span: "takeWhile is_digit ?t = ip \<and> split_fraction (dropWhile is_digit ?t) = (?f, ep)"
  proof (cases "?f = []")
    case True
    then have "?t = ip @ ep" by (simp add: with_fraction_def)
    then show ?thesis using ip ep True by (simp add: takeWhile_append2 dropWhile_append2)
  next
    case False
    then have "?t = ip @ CHR ''.'' # ?f @ ep" by (simp add: with_fraction_def Let_def)
    then show ?thesis using ip f ep dot by (simp add: takeWhile_append2 dropWhile_append2 split_fraction_def)
  qed
  show ?thesis
    unfolding from_chars_def sign using span special ip(1) assms(3) by (simp add: val)
qed

lemma split_exponent_text:
  "split_exponent (''e'' @ (if x < 0 then ''-'' else ''+'') @ pad_left 2 (dec_digits \<bar>x\<bar>)) = (x, [])"
proof -
  have d: "takeWhile is_digit (pad_left 2 (dec_digits z)) = pad_left 2 (dec_digits z) \<and>
      dropWhile is_digit (pad_left 2 (dec_digits z)) = [] \<and> pad_left 2 (dec_digits z) \<noteq> []" if "0 \<le> z" for z
    using digits_pad_left [OF that, of 2]
    by (auto simp: digits_def takeWhile_eq_all_conv dropWhile_eq_Nil_conv)
  show ?thesis
    using d [of x] d [of "- x"] by (cases "x < 0") 
      (simp_all add: split_exponent_def Let_def del: takeWhile_eq_all_conv dropWhile_eq_Nil_conv)
qed

lemma length_17_digits: "10 ^ 16 \<le> n \<Longrightarrow> n < 10 ^ 17 \<Longrightarrow> length (dec_digits n) = 17"
proof -
  assume n: "10 ^ 16 \<le> n" "n < 10 ^ 17"
  let ?l = "length (dec_digits n)"
  have b: "10 ^ (?l - 1) \<le> n" "n < 10 ^ ?l" using dec_digits_bounds [of n] n(1) by simp_all
  have "(10 :: int) ^ 16 < 10 ^ ?l" using n(1) b(2) by linarith
  then have "16 < ?l" using power_less_imp_less_exp [of "10 :: int" 16 ?l] by simp
  moreover have "(10 :: int) ^ (?l - 1) < 10 ^ 17" using n(2) b(1) by linarith
  then have "?l - 1 < 17" using power_less_imp_less_exp [of "10 :: int" "?l - 1" 17] by simp
  ultimately show ?thesis by simp
qed

lemma format_general17_shape:
  assumes "0 < r" and "general17_digits r = (n, x)"
  shows "format_general17 (Finite s r) = sign_text s @
      (if x < -4 \<or> 17 \<le> x
       then with_fraction (take 1 (dec_digits n)) (drop 1 (dec_digits n)) @ ''e'' @
              (if x < 0 then ''-'' else ''+'') @ pad_left 2 (dec_digits \<bar>x\<bar>)
       else if 0 \<le> x
       then with_fraction (take (nat x + 1) (dec_digits n)) (drop (nat x + 1) (dec_digits n))
       else with_fraction ''0'' (replicate (nat (- x - 1)) (CHR ''0'') @ dec_digits n))"
  using assms by (auto simp: general17_digits_def Let_def split: if_splits)

lemma general17_reads_back:
  assumes "representable r" and "0 < r"
  shows "from_chars (format_general17 (Finite s r)) = Some (Finite s r, [])"
proof -
  obtain n x where d: "general17_digits r = (n, x)" by fastforce
  note n = general17_digits(2,3) [OF assms(2) d]
  have n0: "0 \<le> n" using n(1) by simp
  have dig: "\<forall>c \<in> set (take k (dec_digits n)). is_digit c" "\<forall>c \<in> set (drop k (dec_digits n)). is_digit c" for k
    using dec_digits_digits [OF n0] by (auto dest: in_set_takeD in_set_dropD)
  have len: "length (dec_digits n) = 17" by (rule length_17_digits [OF n])
  have res: "map_option (\<lambda>d. (d, [] :: string)) (decimal_value s (of_int n * pow10 (x - 16))) = Some (Finite s r, [])"
    using general17_value [OF assms d] assms(2) by (simp add: decimal_value_def)
  have ip: "digits (take (Suc k) (dec_digits n))" for k using dig(1) len by (auto simp: digits_def)
  consider (expo) "x < -4 \<or> 17 \<le> x" | (big) "\<not> (x < -4 \<or> 17 \<le> x)" "0 \<le> x"
    | (small) "\<not> (x < -4 \<or> 17 \<le> x)" "\<not> 0 \<le> x" by blast
  then show ?thesis
  proof cases
    case expo
    let ?ep = "''e'' @ (if x < 0 then ''-'' else ''+'') @ pad_left 2 (dec_digits \<bar>x\<bar>)"
    have "\<not> is_digit (hd ?ep) \<and> hd ?ep \<noteq> CHR ''.''" by (simp add: is_digit_def)
    then have "from_chars (sign_text s @ with_fraction (take 1 (dec_digits n)) (drop 1 (dec_digits n)) @ ?ep) =
        Some (Finite s r, [])"
      using from_chars_decimal [OF ip [of 0] dig(2) [of 1] split_exponent_text [of x], of s] res n0 len by simp
    then show ?thesis using expo by (simp only: format_general17_shape [OF assms(2) d] if_True append_assoc)
  next
    case big
    have e: "split_exponent [] = (0, [])" by (simp add: split_exponent_def)
    have "- int (17 - (nat x + 1)) = x - 16" using big by (simp add: of_nat_diff)
    then show ?thesis
      using from_chars_decimal [OF ip [of "nat x"] dig(2) [of "Suc (nat x)"] e, of s] res n0 len big
      by (simp add: format_general17_shape [OF assms(2) d] del: format_general17.simps)
  next
    case small
    have e: "split_exponent [] = (0, [])" by (simp add: split_exponent_def)
    have lead: "\<forall>c \<in> set (replicate k (CHR ''0'') @ dec_digits n). is_digit c" for k
      using dec_digits_digits [OF n0] by (auto simp: is_digit_def)
    have "digits ''0''" by (simp add: digits_def is_digit_def)
    moreover have "- (int (nat (- x - 1)) + 17) = x - 16" using small by simp
    ultimately show ?thesis
      using from_chars_decimal [OF _ lead [of "nat (- x - 1)"] e, of "''0''" s] res n0 len small
      by (simp add: format_general17_shape [OF assms(2) d] dec_val_append del: format_general17.simps)
  qed
qed

section \<open>Properties\<close>

text \<open>C16: a number in the payload is the number of the reading. The seventeen digits written for a finite double, in
  plain or exponent form and with trailing zeros dropped, are read back, with rounding to nearest, as exactly that double, its
  sign included, for normal and subnormal values and both zeros; nothing of the text is left unread.\<close>

theorem json_number_roundtrip:
  assumes "wf_scalar (Dbl (Finite s r))"
  shows "from_chars (append_json_scalar (Dbl (Finite s r))) = Some (Finite s r, [])"
proof (cases "r = 0")
  case True
  have e: "split_exponent [] = (0, [])" and z: "digits ''0''" by (simp_all add: split_exponent_def digits_def is_digit_def)
  show ?thesis
    using from_chars_decimal [OF z _ e, of "[]" s] True
    by (simp add: with_fraction_def strip_zeros_def dec_val_def decimal_value_def round_double_def)
next
  case False
  then show ?thesis
    using assms general17_reads_back [of r s] representable_nonneg [of r] by (simp del: format_general17.simps)
qed

theorem json_number_roundtrip_witness:
  "append_json_scalar (Dbl (Finite True (3602879701896397 / 36028797018963968))) = ''-0.10000000000000001'' \<and>
   from_chars ''-0.10000000000000001'' = Some (Finite True (3602879701896397 / 36028797018963968), [])"
proof -
  let ?r = "3602879701896397 / 36028797018963968 :: rat"
  have "representable ?r" by (rule representableI [of _ 3602879701896397 "-55"]) (simp_all add: pow2_def)
  then have "from_chars (append_json_scalar (Dbl (Finite True ?r))) = Some (Finite True ?r, [])"
    by (intro json_number_roundtrip) simp
  moreover have "append_json_scalar (Dbl (Finite True ?r)) = ''-0.10000000000000001''" by code_simp
  ultimately show ?thesis by simp
qed

end
