(* ===== verification/Stop_Execution.thy ===== *)
theory Stop_Execution
  imports Gateway_Shutdown
begin

text \<open>
  The two models of \<open>stop\<close> agree: what \<open>GatewayRuntime_stop\<close> of \<open>Runtime\<close> computes in one go is what an execution of the
  threads of \<open>Gateway_Threads\<close> leaves behind. Each section is one part of \<open>stop\<close>.
\<close>

section \<open>Runs\<close>

text \<open>The runtime, the phase of \<open>stop\<close> and the batch worker, while no thread is inside a driver or holds a gate.\<close>

definition quiet :: "('d, 'b, 's, 'p, 'c) GatewayRuntime \<Rightarrow> phase \<Rightarrow> batch_worker \<Rightarrow> ('d, 'b, 's, 'p, 'c) gateway \<Rightarrow> bool" where
  "quiet rt p b s \<longleftrightarrow> sy_rt s = rt \<and> sy_phase s = p \<and> sy_worker s = b \<and> sy_polling s = None \<and> sy_control s = None \<and>
     sy_gates s = Map.empty"

definition leads ::
  "('d, 'b, 's) plugins \<Rightarrow> ('p, 'c) worker_env \<Rightarrow> ('d, 'b, 's, 'p, 'c) GatewayRuntime \<Rightarrow> phase \<Rightarrow> batch_worker \<Rightarrow>
   ('d, 'b, 's, 'p, 'c) GatewayRuntime \<Rightarrow> phase \<Rightarrow> batch_worker \<Rightarrow> bool" where
  "leads pg we rt p b rt' p' b' \<longleftrightarrow>
     (\<forall>s. quiet rt p b s \<longrightarrow> (\<exists>s'. (gateway_step pg we)\<^sup>*\<^sup>* s s' \<and> quiet rt' p' b' s'))"

lemma leads_refl: "leads pg we rt p b rt p b"
  by (auto simp: leads_def)

lemma leads_trans:
  "leads pg we rt p b rt1 p1 b1 \<Longrightarrow> leads pg we rt1 p1 b1 rt2 p2 b2 \<Longrightarrow> leads pg we rt p b rt2 p2 b2"
  unfolding leads_def by (meson rtranclp_trans)

lemma leads_step:
  assumes "\<And>s. quiet rt p b s \<Longrightarrow> \<exists>s'. gateway_act pg we a s = Some s' \<and> quiet rt' p' b' s'"
  shows "leads pg we rt p b rt' p' b'"
  unfolding leads_def using assms by (meson gateway_step_def r_into_rtranclp)

text \<open>The phases in which \<open>stop\<close> does not wait.\<close>

lemma leads_begin:
  assumes "rt_started rt" and "\<not> rt_stopped rt" and "\<not> rt_stopping rt"
  shows "leads pg we rt Ph_running b (with_control (\<lambda>w. w\<lparr>cw_accepting := False\<rparr>) (rt\<lparr>rt_stopping := True\<rparr>)) Ph_begun b"
  by (rule leads_step [where a = "Stop True"]) (use assms in \<open>simp add: quiet_def stop_act_def Let_def observe_def\<close>)

fun passes :: "('d, 'b, 's, 'p, 'c) GatewayRuntime \<Rightarrow> phase \<Rightarrow> ('d, 'b, 's, 'p, 'c) GatewayRuntime \<times> phase" where
  "passes rt Ph_begun = (log_calls (map C_source_request_stop (rev [0..<length (rt_sources rt)])) rt, Ph_asked)"
| "passes rt Ph_asked = (rt\<lparr>rt_scheduler := map_option SchedulerEngine_request_stop (rt_scheduler rt)\<rparr>, Ph_scheduler)"
| "passes rt Ph_sources = (log_calls (map C_source_stop (rev [0..<length (rt_sources rt)])) rt, Ph_push)"
| "passes rt Ph_push = (log_calls (stop_drivers_of Mode_Push rt) rt, Ph_poll)"
| "passes rt Ph_poll = (log_calls (stop_drivers_of Mode_Poll rt) rt, Ph_close)"
| "passes rt Ph_close = (log_calls [C_queue_close] (rt\<lparr>rt_raw_queue := BoundedQueue_close (rt_raw_queue rt)\<rparr>), Ph_worker)"
| "passes rt Ph_publishers = (log_calls (map C_publisher_stop (rev [0..<length (rt_event_publishers rt)])) rt, Ph_mark)"
| "passes rt Ph_mark = (mark_stopped rt, Ph_stopped)"
| "passes rt p = (rt, p)"

lemma leads_passes: "leads pg we rt p b (fst (passes rt p)) (snd (passes rt p)) b"
proof (cases "passes rt p = (rt, p)")
  case True
  then show ?thesis by (simp add: leads_refl)
next
  case False
  show ?thesis
    by (rule leads_step [where a = "Stop True"])
       (use False in \<open>cases p; simp add: quiet_def stop_act_def Let_def observe_def\<close>)
qed

lemma leads_end: "leads pg we rt Ph_worker W_ended (log_calls [C_worker_join] (rt\<lparr>rt_worker := False\<rparr>)) Ph_publishers W_ended"
  by (rule leads_step [where a = "Stop True"]) (simp add: quiet_def stop_act_def Let_def observe_def)

section \<open>The scheduler\<close>

lemma leads_scheduler:
  assumes "rt_scheduler rt = Some e" and "se_running e \<longrightarrow> se_joinable e"
  shows "leads pg we rt Ph_asked b (scheduler_stopped rt) Ph_dispatcher b"
proof -
  let ?e = "SchedulerEngine_request_stop e"
  let ?rt = "\<lambda>e. rt\<lparr>rt_scheduler := Some e\<rparr>"
  have 1: "leads pg we rt Ph_asked b (?rt ?e) Ph_scheduler b" using leads_passes [of pg we rt Ph_asked b] assms(1) by simp
  have 2: "leads pg we (?rt ?e) Ph_scheduler b (?rt (?e\<lparr>se_running := False\<rparr>)) Ph_scheduler b"
  proof (cases "se_running e")
    case True
    show ?thesis
      by (rule leads_step [where a = Scheduler_exit]) (use True in \<open>simp add: quiet_def SchedulerEngine_request_stop_def\<close>)
  next
    case False
    then have "?e\<lparr>se_running := False\<rparr> = ?e" by (simp add: SchedulerEngine_request_stop_def)
    then show ?thesis by (simp add: leads_refl)
  qed
  have 3: "leads pg we (?rt (?e\<lparr>se_running := False\<rparr>)) Ph_scheduler b (scheduler_stopped rt) Ph_dispatcher b"
  proof (rule leads_step [where a = "Stop True"])
    have "SchedulerEngine_join (?e\<lparr>se_running := False\<rparr>) =
        Some (e\<lparr>se_stopping := True, se_running := False, se_joinable := False\<rparr>)"
      by (simp add: SchedulerEngine_join_def SchedulerEngine_request_stop_def)
    then show "\<exists>s'. gateway_act pg we (Stop True) s = Some s' \<and> quiet (scheduler_stopped rt) Ph_dispatcher b s'"
      if "quiet (?rt (?e\<lparr>se_running := False\<rparr>)) Ph_scheduler b s" for s
      using that assms(1) by (simp add: quiet_def stop_act_def Let_def observe_def scheduler_stopped_def log_calls_def)
  qed
  show ?thesis using leads_trans [OF leads_trans [OF 1 2] 3] .
qed

section \<open>The dispatcher\<close>

abbreviation put :: "'c Dispatcher \<Rightarrow> ('d, 'b, 's, 'p, 'c) GatewayRuntime \<Rightarrow> ('d, 'b, 's, 'p, 'c) GatewayRuntime" where
  "put d \<equiv> with_control (\<lambda>w. w\<lparr>cw_dispatcher := d\<rparr>)"

lemma put_simps [simp]:
  "dispatcher_of (put d rt) = d" "put d (put d' rt) = put d rt" "rt_drivers (put d rt) = rt_drivers rt"
  "put (dispatcher_of rt) rt = rt"
  by (simp_all add: with_control_def)

text \<open>Sweeping the queue.\<close>

lemma leads_sweep:
  assumes "dd_cancelling (dispatcher_of rt) = Some ops" and "dd_stopping (dispatcher_of rt)"
  shows "leads pg we rt Ph_dispatcher b
    (put ((fold cancel_one ops (dispatcher_of rt))\<lparr>dd_cancelling := None, dd_stop_request_complete := True\<rparr>) rt) Ph_dispatcher b"
  using assms
proof (induction ops arbitrary: rt)
  case Nil
  then show ?case
    by (intro leads_step [where a = "Stop True"]) (simp add: quiet_def stop_act_def Let_def with_dispatcher_def)
next
  case (Cons v ops)
  let ?d = "(cancel_one v (dispatcher_of rt))\<lparr>dd_cancelling := Some ops\<rparr>"
  have d: "dd_cancelling ?d = Some ops" "dd_stopping ?d" using Cons.prems(2) by (simp_all add: Dispatcher_complete_def)
  have "leads pg we rt Ph_dispatcher b (put ?d rt) Ph_dispatcher b"
    using Cons.prems by (intro leads_step [where a = "Stop True"]) (simp add: quiet_def stop_act_def Let_def with_dispatcher_def)
  moreover have "leads pg we (put ?d rt) Ph_dispatcher b
    (put ((fold cancel_one ops ?d)\<lparr>dd_cancelling := None, dd_stop_request_complete := True\<rparr>) (put ?d rt)) Ph_dispatcher b"
    using Cons.IH [of "put ?d rt"] d by simp
  ultimately show ?case using leads_trans by (fastforce simp: fold_complete_cancelling)
qed

lemma fold_complete_flags:
  "dd_stopping (fold cancel_one ops d) = dd_stopping d" "dd_started (fold cancel_one ops d) = dd_started d"
  by (induction ops arbitrary: d) (simp_all add: Dispatcher_complete_def)

lemma leads_request_stop:
  assumes "disp_inv (dispatcher_of rt)" and "\<not> dd_stopping (dispatcher_of rt)"
  shows "leads pg we rt Ph_dispatcher b (put (Dispatcher_request_stop alloc_ok (dispatcher_of rt)) rt) Ph_control_join b"
proof -
  let ?d = "dispatcher_of rt" and ?d1 = "Dispatcher_request_stop_begin alloc_ok (dispatcher_of rt)"
  have d1: "dd_cancelling ?d1 = Some (dd_swept ?d1)" "dd_stopping ?d1"
    using assms(2) by (simp_all add: Dispatcher_request_stop_begin_def Let_def split: prod.splits)
  have 1: "leads pg we rt Ph_dispatcher b (put ?d1 rt) Ph_dispatcher b"
    by (rule leads_step [where a = "Stop alloc_ok"])
       (use assms(2) in \<open>simp add: quiet_def stop_act_def Let_def with_dispatcher_def\<close>)
  have 2: "leads pg we (put ?d1 rt) Ph_dispatcher b (put (Dispatcher_request_stop alloc_ok ?d) rt) Ph_dispatcher b"
    using leads_sweep [of "put ?d1 rt"] d1 assms(2) by (simp add: Dispatcher_request_stop_def Let_def)
  have "dd_stopping (Dispatcher_request_stop alloc_ok ?d) \<and> dd_cancelling (Dispatcher_request_stop alloc_ok ?d) = None"
    using assms(2) d1(2) by (simp add: Dispatcher_request_stop_def Let_def fold_complete_flags)
  then have 3: "leads pg we (put (Dispatcher_request_stop alloc_ok ?d) rt) Ph_dispatcher b
      (put (Dispatcher_request_stop alloc_ok ?d) rt) Ph_control_join b"
    by (intro leads_step [where a = "Stop alloc_ok"]) (simp add: quiet_def stop_act_def Let_def observe_def)
  show ?thesis using leads_trans [OF leads_trans [OF 1 2] 3] .
qed

text \<open>Joining the dispatcher's worker, which still executes or drops what it has taken.\<close>

lemma dispatcher_moves:
  assumes "disp_inv d" and "dd_started d" and "dd_stop_request_complete d" and "\<not> dd_joined d"
  shows "(\<exists>d'. act dr A_join d = Some d') \<or> dd_join_in_progress d \<and> dd_worker d = Waiting \<and> (\<exists>d'. act dr (A_worker undefined) d = Some d') \<or>
    dd_join_in_progress d \<and> (\<exists>operation. dd_worker d = Executing operation)"
proof (cases "dd_join_in_progress d")
  case True
  have "dd_worker d \<noteq> No_worker" "cq_closed (dd_queue d)" using assms by (auto simp: disp_inv_def life_inv_def)
  moreover have "\<exists>x q. ControlQueue_wait_pop (dd_queue d) = Some (x, q)" if "cq_closed (dd_queue d)"
    using that cq.pop_blocks [of "dd_queue d"] by fastforce
  ultimately show ?thesis using True by (cases "dd_worker d") (auto split: option.splits)
qed (use assms in simp)
text \<open>One operation: the worker gets the device's gate, or the device is not known.\<close>

lemma leads_execute:
  assumes "dd_worker d = Executing operation" and "rt_io_gates rt = map di_device_id (rt_drivers rt)"
  shows "\<exists>env d1. act (resolver (rt_drivers rt)) (A_worker env) d = Some d1 \<and> leads pg we (put d rt) p b (put d1 rt) p b"
proof (cases "device_known rt (rq_device_id (op_request operation))")
  case True
  let ?env = "good_answers (op_request operation)" and ?gate = "rq_device_id (op_request operation)"
  obtain d1 where d1: "act (resolver (rt_drivers rt)) (A_worker ?env) d = Some d1" using assms(1) by simp
  have g: "find_io_gate (rt_io_gates rt) ?gate = Some ?gate" by (rule known_device_gate [OF assms(2) True])
  have agree: "answers_agree (put d rt) ?gate ?env" "en_lock ?env = Inr True"
    using True g by (simp_all add: answers_agree_def good_answers_def device_known_def with_control_def Let_def)
  have "leads pg we (put d rt) p b (put d1 rt) p b"
    unfolding leads_def
  proof (intro allI impI)
    fix s assume q: "quiet (put d rt) p b s"
    let ?s1 = "s\<lparr>sy_control := Some ?gate, sy_gates := (sy_gates s)(?gate \<mapsto> By_control), sy_trace := sy_trace s @ [Ev_control ?gate]\<rparr>"
    let ?s2 = "(with_dispatcher d1 ?s1)\<lparr>sy_control := None, sy_gates := (sy_gates ?s1)(?gate := None)\<rparr>"
    have a1: "gateway_act pg we Control_begin s = Some ?s1"
      using q assms(1) g True by (simp add: quiet_def control_begin_def Let_def device_known_def with_control_def)
    have a2: "gateway_act pg we (Control_end ?env) ?s1 = Some ?s2"
      using q assms(1) d1 agree good_answers_call by (simp add: quiet_def control_end_def del: act.simps)
    have "gateway_step pg we s ?s1" "gateway_step pg we ?s1 ?s2" using a1 a2 unfolding gateway_step_def by blast+
    then have "(gateway_step pg we)\<^sup>*\<^sup>* s ?s2" by (rule converse_rtranclp_into_rtranclp [OF _ r_into_rtranclp])
    moreover have "quiet (put d1 rt) p b ?s2" using q by (simp add: quiet_def with_dispatcher_def)
    ultimately show "\<exists>s'. (gateway_step pg we)\<^sup>*\<^sup>* s s' \<and> quiet (put d1 rt) p b s'" by blast
  qed
  then show ?thesis using d1 by blast
next
  case False
  let ?env = "(good_answers (op_request operation))\<lparr>en_driver := Inr False,
    en_gate := Inr (find_io_gate (rt_io_gates rt) (rq_device_id (op_request operation)) \<noteq> None)\<rparr>"
  obtain d1 where d1: "act (resolver (rt_drivers rt)) (A_worker ?env) d = Some d1" using assms(1) by simp
  have "answers_agree (put d rt) (rq_device_id (op_request operation)) ?env"
    "\<not> snd (execute_outcome has_gate ?env (op_request operation))" for has_gate
    using False by (simp_all add: answers_agree_def good_answers_def execute_outcome_def found_def device_known_def with_control_def Let_def)
  then have "leads pg we (put d rt) p b (put d1 rt) p b"
    by (intro leads_step [where a = "Control_skip ?env"])
       (use assms(1) d1 in \<open>simp add: quiet_def with_dispatcher_def control_skip_def Let_def lock_agrees_def del: act.simps split: option.split\<close>)
  then show ?thesis using d1 by blast
qed

lemma leads_join:
  assumes "disp_inv d" and "dd_started d" and "dd_stop_request_complete d"
    and "rt_io_gates rt = map di_device_id (rt_drivers rt)"
  shows "\<exists>d'. dd_joined d' \<and> leads pg we (put d rt) Ph_control_join b (put d' rt) Ph_control_join b"
  using assms
proof (induction "shutdown_work d" arbitrary: d rule: less_induct)
  case less
  let ?dr = "resolver (rt_drivers rt)"
  note i = less.prems
  have stopping: "dd_stopping d" using i by (auto simp: disp_inv_def life_inv_def)
  have go: ?case if a: "act ?dr a d = Some d1" "internal (act_label a)" "dd_started d1" "dd_stop_request_complete d1"
    and l: "leads pg we (put d rt) Ph_control_join b (put d1 rt) Ph_control_join b" for a d1
  proof -
    have "disp_inv d1" using act_step [OF a(1)] i(1) disp_inv_step by blast
    with less.hyps [OF act_work(2) [OF a(1) i(1) stopping a(2)] _ a(3,4) i(4)] obtain d'
      where "dd_joined d'" "leads pg we (put d1 rt) Ph_control_join b (put d' rt) Ph_control_join b" by blast
    then show ?thesis using leads_trans [OF l] by blast
  qed
  show ?case
  proof (cases "dd_joined d")
    case True
    then show ?thesis using leads_refl by blast
  next
    case False
    from dispatcher_moves [OF i(1-3) False, of ?dr] consider
        (join) d1 where "act ?dr A_join d = Some d1"
      | (pop) d1 where "dd_join_in_progress d" "dd_worker d = Waiting" "act ?dr (A_worker undefined) d = Some d1"
      | (exec) operation where "dd_join_in_progress d" "dd_worker d = Executing operation" by blast
    then show ?thesis
    proof cases
      case join
      have "leads pg we (put d rt) Ph_control_join b (put d1 rt) Ph_control_join b"
        by (rule leads_step [where a = "Stop True"])
           (use join False in \<open>simp add: quiet_def stop_act_def Let_def with_dispatcher_def del: act.simps\<close>)
      moreover note st = act_stop_stage [OF join, of True]
      ultimately show ?thesis using go [OF join] i by (simp add: internal_def)
    next
      case pop
      have "leads pg we (put d rt) Ph_control_join b (put d1 rt) Ph_control_join b"
        by (rule leads_step [where a = "Control_next undefined"])
           (use pop in \<open>simp add: quiet_def with_dispatcher_def del: act.simps\<close>)
      then show ?thesis using go [OF pop(3)] act_worker_stage [OF pop(3)] i by (simp add: internal_def)
    next
      case exec
      obtain env d1 where d1: "act ?dr (A_worker env) d = Some d1"
        "leads pg we (put d rt) Ph_control_join b (put d1 rt) Ph_control_join b"
        using leads_execute [OF exec(2) less.prems(4)] by blast
      then show ?thesis using go [OF d1(1)] act_worker_stage [OF d1(1)] i by (simp add: internal_def)
    qed
  qed
qed

lemma request_stop_reachable:
  assumes "disp_inv d" and "\<not> dd_stopping d"
  shows "disp_inv (Dispatcher_request_stop alloc_ok d)" and "dd_started (Dispatcher_request_stop alloc_ok d) = dd_started d"
    and "dd_stop_request_complete (Dispatcher_request_stop alloc_ok d)"
proof -
  let ?d1 = "Dispatcher_request_stop_begin alloc_ok d"
  have d1: "dd_cancelling ?d1 = Some (dd_swept ?d1)" "dd_started ?d1 = dd_started d"
    using assms(2) by (simp_all add: Dispatcher_request_stop_begin_def Let_def split: prod.splits)
  have r: "Dispatcher_request_stop alloc_ok d =
      (fold cancel_one (dd_swept ?d1) ?d1)\<lparr>dd_cancelling := None, dd_stop_request_complete := True\<rparr>"
    using assms(2) by (simp add: Dispatcher_request_stop_def Let_def)
  have "(disp_step (\<lambda>_. Inr (None :: unit option)) L_stop)\<^sup>*\<^sup>* ?d1 (Dispatcher_request_stop alloc_ok d)"
    unfolding r by (rule cancel_steps [OF d1(1)])
  then show "disp_inv (Dispatcher_request_stop alloc_ok d)"
    by (induction rule: rtranclp_induct) (use disp_inv_stop_begin [OF assms] disp_inv_step in blast)+
  show "dd_started (Dispatcher_request_stop alloc_ok d) = dd_started d" by (simp add: r d1(2) fold_complete_flags)
  show "dd_stop_request_complete (Dispatcher_request_stop alloc_ok d)" by (simp add: r)
qed

lemma leads_dispatcher:
  assumes "disp_inv (dispatcher_of rt)" and "dd_started (dispatcher_of rt)" and "\<not> dd_stopping (dispatcher_of rt)"
    and "rt_io_gates rt = map di_device_id (rt_drivers rt)"
  shows "\<exists>join. \<forall>pushed. leads pg we rt Ph_dispatcher b
    (stop_dispatcher \<lparr>st_alloc_ok = alloc_ok, st_join = join, st_pushed = pushed\<rparr> rt) Ph_sources b"
proof -
  let ?d = "Dispatcher_request_stop alloc_ok (dispatcher_of rt)"
  note r = request_stop_reachable [OF assms(1,3), of alloc_ok]
  obtain d' where d': "dd_joined d'" "leads pg we (put ?d rt) Ph_control_join b (put d' rt) Ph_control_join b"
    using leads_join [OF r(1) _ r(3) assms(4), of pg we b] r(2) assms(2) by blast
  have "leads pg we (put d' rt) Ph_control_join b (log_calls [C_dispatcher_stop] (put d' rt)) Ph_sources b"
    by (rule leads_step [where a = "Stop True"]) (use d'(1) in \<open>simp add: quiet_def stop_act_def Let_def observe_def\<close>)
  from leads_trans [OF leads_trans [OF leads_request_stop [OF assms(1,3)] d'(2)] this]
  have "\<forall>pushed. leads pg we rt Ph_dispatcher b
      (stop_dispatcher \<lparr>st_alloc_ok = alloc_ok, st_join = (\<lambda>_. d'), st_pushed = pushed\<rparr> rt) Ph_sources b"
    by (simp add: stop_dispatcher_def)
  then show ?thesis by blast
qed

section \<open>Late pushes and the worker\<close>

lemma leads_pushes:
  "leads pg we rt p b (rt\<lparr>rt_raw_queue := late_pushes \<lparr>st_alloc_ok = ok, st_join = join, st_pushed = pushed\<rparr> (rt_raw_queue rt)\<rparr>) p b"
proof (induction pushed arbitrary: rt)
  case Nil
  then show ?case by (simp add: late_pushes_def leads_refl)
next
  case (Cons x pushed)
  have "leads pg we rt p b (rt\<lparr>rt_raw_queue := snd (BoundedQueue_try_push (rt_raw_queue rt) x)\<rparr>) p b"
    by (rule leads_step [where a = "Driver_push x"]) (simp add: quiet_def observe_def)
  from leads_trans [OF this Cons.IH] show ?case by (simp add: late_pushes_def)
qed

lemma leads_batches:
  "process_batches pg we n rt = Some rt' \<Longrightarrow> leads pg we rt p W_waiting rt' p W_ended"
proof (induction n arbitrary: rt)
  case (Suc n)
  then consider (ended) q where "BoundedQueue_wait_pop (rt_raw_queue rt) = Some (None, q)" "rt' = rt\<lparr>rt_raw_queue := q\<rparr>"
    | (popped) batch q where "BoundedQueue_wait_pop (rt_raw_queue rt) = Some (Some batch, q)"
        "process_batches pg we n (process_batch pg we batch (rt\<lparr>rt_raw_queue := q\<rparr>)) = Some rt'"
    by (auto split: option.splits)
  then show ?case
  proof cases
    case ended
    then show ?thesis by (intro leads_step [where a = Worker_pop]) (simp add: quiet_def)
  next
    case popped
    have 1: "leads pg we rt p W_waiting (rt\<lparr>rt_raw_queue := q\<rparr>) p (W_busy batch)"
      by (rule leads_step [where a = Worker_pop]) (simp add: quiet_def popped)
    have 2: "leads pg we (rt\<lparr>rt_raw_queue := q\<rparr>) p (W_busy batch) (process_batch pg we batch (rt\<lparr>rt_raw_queue := q\<rparr>)) p W_waiting"
      by (rule leads_step [where a = Worker_process]) (simp add: quiet_def observe_def)
    show ?thesis using leads_trans [OF leads_trans [OF 1 2] Suc.IH [OF popped(2)]] .
  qed
qed simp
section \<open>The whole of \<open>stop\<close>\<close>

lemma stop_unfolds:
  assumes "rt_started rt" and "\<not> rt_stopped rt" and "\<not> rt_stopping rt" and "rt_worker rt"
    and "GatewayRuntime_stop pg we env rt = Some rt'"
  obtains rt1 rt2 rt3 rt4 rt5 rt6 rt7 rt8 where
    "rt1 = with_control (\<lambda>w. w\<lparr>cw_accepting := False\<rparr>) (rt\<lparr>rt_stopping := True\<rparr>)"
    "rt2 = log_calls (map C_source_request_stop (rev [0..<length (rt_sources rt1)])) rt1"
    "rt3 = stop_dispatcher env (scheduler_stopped rt2)"
    "rt4 = log_calls (map C_source_stop (rev [0..<length (rt_sources rt3)])) rt3"
    "rt5 = log_calls (stop_drivers_of Mode_Push rt4) rt4"
    "rt6 = log_calls (stop_drivers_of Mode_Poll rt5) rt5"
    "rt7 = log_calls [C_queue_close] (rt6\<lparr>rt_raw_queue := BoundedQueue_close (late_pushes env (rt_raw_queue rt6))\<rparr>)"
    "process_batches pg we (Suc (length (bq_queue (rt_raw_queue rt7)))) rt7 = Some rt8"
    "rt' = mark_stopped (log_calls (map C_publisher_stop (rev [0..<length (rt_event_publishers rt8)]))
        (log_calls [C_worker_join] (rt8\<lparr>rt_worker := False\<rparr>)))"
proof -
  define rt1 rt2 rt3 rt4 rt5 rt6 rt7 where d:
    "rt1 = with_control (\<lambda>w. w\<lparr>cw_accepting := False\<rparr>) (rt\<lparr>rt_stopping := True\<rparr>)"
    "rt2 = log_calls (map C_source_request_stop (rev [0..<length (rt_sources rt)])) rt1"
    "rt3 = stop_dispatcher env (scheduler_stopped rt2)"
    "rt4 = log_calls (map C_source_stop (rev [0..<length (rt_sources rt)])) rt3"
    "rt5 = log_calls (stop_drivers_of Mode_Push rt4) rt4"
    "rt6 = log_calls (stop_drivers_of Mode_Poll rt5) rt5"
    "rt7 = log_calls [C_queue_close] (rt6\<lparr>rt_raw_queue := BoundedQueue_close (late_pushes env (rt_raw_queue rt6))\<rparr>)"
  have src: "rt_sources rt1 = rt_sources rt" "rt_sources rt3 = rt_sources rt" and w: "rt_worker rt7"
    using assms(4)
    by (simp_all add: d with_control_def log_calls_def stop_dispatcher_def scheduler_stopped_def split: option.split)
  have "GatewayRuntime_stop pg we env rt =
      map_option (\<lambda>rt7. mark_stopped (log_calls (map C_publisher_stop (rev [0..<length (rt_event_publishers rt7)])) rt7))
        (close_and_join pg we env rt6)"
    using assms(1-3) by (simp add: GatewayRuntime_stop_def Let_def d(1-6) del: log_calls_simps)
  with assms(5) obtain rt8 where "process_batches pg we (Suc (length (bq_queue (rt_raw_queue rt7)))) rt7 = Some rt8"
    "rt' = mark_stopped (log_calls (map C_publisher_stop (rev [0..<length (rt_event_publishers rt8)]))
        (log_calls [C_worker_join] (rt8\<lparr>rt_worker := False\<rparr>)))"
    unfolding close_and_join_def Let_def d(7) [symmetric] using w by (auto simp: log_calls_def simp del: log_calls_simps process_batches.simps)
  then show thesis using that [OF d(1) _ d(3) _ d(5-7)] d(2,4) src by simp
qed
lemma stop_from_running:
  assumes "gateway_inv s" and "quiet (sy_rt s) Ph_running W_waiting s"
  shows "\<exists>join s'. (gateway_step pg we)\<^sup>*\<^sup>* s s' \<and> sy_phase s' = Ph_stopped \<and>
    GatewayRuntime_stop pg we \<lparr>st_alloc_ok = alloc_ok, st_join = join, st_pushed = pushed\<rparr> (sy_rt s) = Some (sy_rt s')"
proof -
  let ?rt = "sy_rt s" and ?env = "\<lambda>join. \<lparr>st_alloc_ok = alloc_ok, st_join = join, st_pushed = pushed\<rparr>"
  have p: "sy_phase s = Ph_running" using assms(2) by (simp add: quiet_def)
  have inv: "scheduler_inv s" "control_inv s" "stage_inv s" using assms(1) by (simp_all add: gateway_inv_def)
  have run: "rt_started ?rt" "\<not> rt_stopping ?rt" "\<not> rt_stopped ?rt" "rt_worker ?rt" "rt_io_gates ?rt = map di_device_id (rt_drivers ?rt)"
    "\<forall>i \<in> set (rt_drivers ?rt). rt_driver_modes ?rt (di_device_id i) \<noteq> None"
    using inv(3) p by (simp_all add: stage_inv_def Let_def)
  obtain e where e: "rt_scheduler ?rt = Some e" "se_running e \<longrightarrow> se_joinable e" using inv(1) by (rule scheduler_invD)
  have d: "disp_inv (dispatcher_of ?rt)" "dd_started (dispatcher_of ?rt)" "\<not> dd_stopping (dispatcher_of ?rt)"
    using control_inv_disp_inv [OF inv(2)] inv(2) p by (auto simp: control_inv_def Let_def)
  define rt1 where rt1: "rt1 = with_control (\<lambda>w. w\<lparr>cw_accepting := False\<rparr>) (?rt\<lparr>rt_stopping := True\<rparr>)"
  define rt2 where rt2: "rt2 = log_calls (map C_source_request_stop (rev [0..<length (rt_sources rt1)])) rt1"
  have d2: "dispatcher_of (scheduler_stopped rt2) = dispatcher_of ?rt"
    by (simp add: rt2 rt1 with_control_def log_calls_def scheduler_stopped_def split: option.split)
  have "disp_inv (dispatcher_of (scheduler_stopped rt2))" "dd_started (dispatcher_of (scheduler_stopped rt2))"
    "\<not> dd_stopping (dispatcher_of (scheduler_stopped rt2))" unfolding d2 using d by simp_all
  moreover have "rt_io_gates (scheduler_stopped rt2) = map di_device_id (rt_drivers (scheduler_stopped rt2))"
    using run(5) by (simp add: rt2 rt1 with_control_def log_calls_def scheduler_stopped_def split: option.split)
  ultimately obtain join where
    join: "leads pg we (scheduler_stopped rt2) Ph_dispatcher W_waiting (stop_dispatcher (?env join) (scheduler_stopped rt2)) Ph_sources W_waiting"
    using leads_dispatcher [of "scheduler_stopped rt2" pg we W_waiting alloc_ok] by blast
  obtain rt' where rt': "GatewayRuntime_stop pg we (?env join) ?rt = Some rt'"
    using stop_sequence [OF run(1-4,6), of pg we "?env join"] by blast
  obtain rt3 rt4 rt5 rt6 rt7 rt8 where parts:
    "rt3 = stop_dispatcher (?env join) (scheduler_stopped rt2)"
    "rt4 = log_calls (map C_source_stop (rev [0..<length (rt_sources rt3)])) rt3"
    "rt5 = log_calls (stop_drivers_of Mode_Push rt4) rt4"
    "rt6 = log_calls (stop_drivers_of Mode_Poll rt5) rt5"
    "rt7 = log_calls [C_queue_close] (rt6\<lparr>rt_raw_queue := BoundedQueue_close (late_pushes (?env join) (rt_raw_queue rt6))\<rparr>)"
    "process_batches pg we (Suc (length (bq_queue (rt_raw_queue rt7)))) rt7 = Some rt8"
    "rt' = mark_stopped (log_calls (map C_publisher_stop (rev [0..<length (rt_event_publishers rt8)]))
        (log_calls [C_worker_join] (rt8\<lparr>rt_worker := False\<rparr>)))"
    using stop_unfolds [OF run(1,3,2,4) rt'] rt1 rt2 by metis
  let ?rt9 = "log_calls [C_worker_join] (rt8\<lparr>rt_worker := False\<rparr>)"
  have "rt_scheduler rt2 = Some e" using e(1) by (simp add: rt2 rt1 with_control_def log_calls_def)
  note scheduler = leads_scheduler [OF this e(2), of pg we W_waiting]
  note go = leads_trans
  have "leads pg we ?rt Ph_running W_waiting rt2 Ph_asked W_waiting"
    using go [OF leads_begin [OF run(1,3,2)] leads_passes] by (simp add: rt1 rt2)
  from go [OF go [OF this scheduler] join] have "leads pg we ?rt Ph_running W_waiting rt3 Ph_sources W_waiting"
    by (simp only: parts(1))
  from go [OF this leads_passes] have "leads pg we ?rt Ph_running W_waiting rt4 Ph_push W_waiting" by (simp add: parts(2))
  from go [OF this leads_passes] have "leads pg we ?rt Ph_running W_waiting rt5 Ph_poll W_waiting" by (simp add: parts(3))
  from go [OF this leads_passes] have "leads pg we ?rt Ph_running W_waiting rt6 Ph_close W_waiting" by (simp add: parts(4))
  from go [OF go [OF this leads_pushes [of pg we rt6 Ph_close W_waiting alloc_ok join pushed]] leads_passes]
  have "leads pg we ?rt Ph_running W_waiting rt7 Ph_worker W_waiting" by (simp add: parts(5))
  from go [OF go [OF this leads_batches [OF parts(6)]] leads_end]
  have "leads pg we ?rt Ph_running W_waiting ?rt9 Ph_publishers W_ended" .
  from go [OF go [OF this leads_passes] leads_passes] have "leads pg we ?rt Ph_running W_waiting rt' Ph_stopped W_ended"
    by (simp add: parts(7) del: log_calls_simps) (simp add: log_calls_def)
  then obtain s' where "(gateway_step pg we)\<^sup>*\<^sup>* s s'" "quiet rt' Ph_stopped W_ended s'"
    using assms(2) unfolding leads_def by blast
  then show ?thesis using rt' unfolding quiet_def by blast
qed

section \<open>Properties\<close>

text \<open>C17: the function for \<open>stop\<close> is one of the executions of the threads. From every reachable state of the running gateway
  in which no thread is inside a driver and the batch worker waits, whatever is queued, taken or still pushed, the threads can
  run to the end of \<open>stop\<close> so that the runtime they leave is exactly what the function returns for that behaviour of the
  dispatcher's worker and those late pushes.\<close>

theorem stop_is_an_execution:
  assumes "submitting_processor (we_process we)" and "reachable (gateway_init pg we) (gateway_step pg we) s"
    and "sy_phase s = Ph_running" and "sy_worker s = W_waiting" and "sy_polling s = None" and "sy_control s = None"
  shows "\<exists>join s'. (gateway_step pg we)\<^sup>*\<^sup>* s s' \<and> sy_phase s' = Ph_stopped \<and>
    GatewayRuntime_stop pg we \<lparr>st_alloc_ok = alloc_ok, st_join = join, st_pushed = pushed\<rparr> (sy_rt s) = Some (sy_rt s')"
proof -
  have i: "gateway_inv s" by (rule reachable_gateway_inv [OF assms(1,2)])
  then have "sy_gates s = Map.empty" using assms(5,6) by (auto simp: gateway_inv_def gate_inv_def gates_held_def)
  then show ?thesis using assms(3-6) by (intro stop_from_running [OF i]) (simp add: quiet_def)
qed

theorem stop_is_an_execution_witness:
  "\<exists>join s'. (gateway_step (example_plugins 9) example_worker)\<^sup>*\<^sup>* example_gateway s' \<and> sy_phase s' = Ph_stopped \<and>
     GatewayRuntime_stop (example_plugins 9) example_worker
       \<lparr>st_alloc_ok = True, st_join = join, st_pushed = [example_batch_of ''cam'']\<rparr> example_running = Some (sy_rt s')"
proof -
  have "sy_phase example_gateway = Ph_running" "sy_worker example_gateway = W_waiting" "sy_polling example_gateway = None"
    "sy_control example_gateway = None" "sy_rt example_gateway = example_running"
    by (simp_all add: example_gateway_def initial_gateway_def)
  then show ?thesis
    using stop_is_an_execution [OF example_worker_submits example_gateway_reachable, of True "[example_batch_of ''cam'']"] by simp
qed

end
