(* ===== verification/Simulators.thy ===== *)
theory Simulators
  imports Plugin_Json Runtime
begin

text \<open>
  The plugins of \<open>tests/simulation\<close> that the sample configurations name: the support functions of
  \<open>simulation_support.hpp\<close>, the print publisher, and the polling and the pushing simulator. Each operation is a function on the
  object's state; what it prints is part of its result, and the clocks are arguments.
\<close>

section \<open>\<open>simulation_support.hpp\<close>\<close>

definition has_point :: "DeviceConfig \<Rightarrow> string \<Rightarrow> bool" where
  "has_point device name \<longleftrightarrow> list_ex (\<lambda>point. pt_name point = name) (dev_points device)"

text \<open>A literal of the source, and the conversion of a 64-bit count.\<close>

definition literal :: "rat \<Rightarrow> double" where
  "literal r = round_double False r"

definition double_of_u64 :: "u64 \<Rightarrow> double" where
  "double_of_u64 n = double_of_int (uint n)"

definition simulated_value :: "string \<Rightarrow> u64 \<Rightarrow> double" where
  "simulated_value point sequence =
     (if sublist ''temperature'' point
      then dadd (literal 78) (dmul (double_of_u64 (sequence mod 8)) (literal 2))
      else if sublist ''pressure'' point
      then dadd (literal 100) (dmul (double_of_u64 (sequence mod 5)) (literal (1 / 2)))
      else if sublist ''vibration_x'' point
      then dadd (literal (1 / 5)) (dmul (double_of_u64 (sequence mod 7)) (literal (1 / 10)))
      else if sublist ''vibration_y'' point
      then dadd (literal (2 / 5)) (dmul (double_of_u64 (sequence mod 5)) (literal (12 / 100)))
      else double_of_u64 sequence)"

section \<open>\<open>PrintEventPublisher\<close>\<close>

record PrintEventPublisher =
  pp_include_readings :: bool
  pp_configured :: bool
  pp_started :: bool
  pp_published :: u64

definition PrintEventPublisher_new :: "bool \<Rightarrow> PrintEventPublisher" where
  "PrintEventPublisher_new include_readings =
     \<lparr>pp_include_readings = include_readings, pp_configured = False, pp_started = False, pp_published = 0\<rparr>"

definition PrintEventPublisher_configure :: "GatewayConfig \<Rightarrow> PrintEventPublisher \<Rightarrow> PrintEventPublisher result" where
  "PrintEventPublisher_configure config p =
     (if pp_started p then Inl (Logic_error ''cannot configure a running print publisher'')
      else Inr (p\<lparr>pp_configured := True\<rparr>))"

definition PrintEventPublisher_start :: "PrintEventPublisher \<Rightarrow> PrintEventPublisher result" where
  "PrintEventPublisher_start p =
     (if \<not> pp_configured p then Inl (Logic_error ''print publisher is not configured'')
      else Inr (p\<lparr>pp_started := True\<rparr>))"

definition newline :: string where
  "newline = [CHR 10]"

definition reading_line :: "Reading \<Rightarrow> string" where
  "reading_line reading =
     ''  '' @ (if rd_derived reading then ''[derived] '' else '''') @ rd_point reading @ ''='' @
     scalar_to_string (rd_value reading) @ (if rd_unit reading = [] then '''' else '' '' @ rd_unit reading) @
     '' quality='' @ quality_name (rd_quality reading) @ newline"

definition event_line :: "Event \<Rightarrow> string" where
  "event_line event =
     ev_id event @ '' device='' @ ev_device_id event @ '' source='' @ ev_source event @
     (if ev_model_version event = [] then '''' else '' model='' @ ev_model_version event) @ newline"

definition PrintEventPublisher_publish ::
  "Event \<Rightarrow> PrintEventPublisher \<Rightarrow> EventPublishResult \<times> string \<times> PrintEventPublisher" where
  "PrintEventPublisher_publish event p =
     (if \<not> pp_started p then (Pub_Unavailable, '''', p)
      else (Pub_Accepted,
            event_line event @ (if pp_include_readings p then concat (map reading_line (ev_readings event)) else ''''),
            p\<lparr>pp_published := pp_published p + 1\<rparr>))"

definition PrintEventPublisher_stop :: "PrintEventPublisher \<Rightarrow> PrintEventPublisher" where
  "PrintEventPublisher_stop p = p\<lparr>pp_started := False\<rparr>"

definition PrintEventPublisher_published :: "PrintEventPublisher \<Rightarrow> u64" where
  "PrintEventPublisher_published p = pp_published p"

definition make_print_publisher :: "'j json_ops \<Rightarrow> string \<Rightarrow> PrintEventPublisher result" where
  "make_print_publisher J settings_json =
     (let plugin = ''print event publisher'' in
      rbind (pj_parse_object J settings_json plugin) (\<lambda>settings.
      rbind (pj_bool_member J settings ''include_readings'' plugin) (\<lambda>include_readings.
        Inr (PrintEventPublisher_new include_readings))))"

definition create_print_publisher :: "'j json_ops \<Rightarrow> string option \<Rightarrow> PrintEventPublisher option" where
  "create_print_publisher J settings = null_on_throw (make_print_publisher J (settings_text settings))"

section \<open>\<open>PollSimulatorDriver\<close>\<close>

definition empty_device :: DeviceConfig where
  "empty_device = \<lparr>dev_id = [], dev_driver = \<lparr>spec_type = [], spec_settings_json = [], spec_library = []\<rparr>,
     dev_connection = Map.empty, dev_points = []\<rparr>"

text \<open>The answer of both simulators to a control request, and the line they print.\<close>

definition simulator_control :: "string \<Rightarrow> string \<Rightarrow> DeviceControlRequest \<Rightarrow> DeviceControlResult \<times> string" where
  "simulator_control tag device_id request =
     (if rq_device_id request \<noteq> device_id
      then (failure request Ctl_InvalidArgument ''control request belongs to another device'', '''')
      else (failure request Ctl_Succeeded ''control command printed'',
            ''['' @ tag @ ''] control request_id='' @ rq_request_id request @ '' device='' @ rq_device_id request @
            '' command='' @ rq_command request @ newline))"

record PollSimulatorDriver =
  ps_device :: DeviceConfig
  ps_latency :: int
  ps_sequence :: u64
  ps_configured :: bool
  ps_started :: bool

definition PollSimulatorDriver_new :: "int \<Rightarrow> PollSimulatorDriver result" where
  "PollSimulatorDriver_new latency =
     (if latency < 0 then Inl (Invalid_argument ''simulator latency cannot be negative'')
      else Inr \<lparr>ps_device = empty_device, ps_latency = latency, ps_sequence = 0, ps_configured = False,
                ps_started = False\<rparr>)"

definition PollSimulatorDriver_capabilities :: "PollSimulatorDriver \<Rightarrow> AcquisitionMode" where
  "PollSimulatorDriver_capabilities d = Mode_Poll"

definition PollSimulatorDriver_configure :: "DeviceConfig \<Rightarrow> PollSimulatorDriver \<Rightarrow> PollSimulatorDriver result" where
  "PollSimulatorDriver_configure device d =
     (if ps_started d then Inl (Logic_error ''cannot configure a running poll simulator'')
      else Inr (d\<lparr>ps_device := device, ps_configured := True\<rparr>))"

definition PollSimulatorDriver_start :: "PollSimulatorDriver \<Rightarrow> PollSimulatorDriver result" where
  "PollSimulatorDriver_start d =
     (if \<not> ps_configured d then Inl (Logic_error ''poll simulator is not configured'')
      else Inr (d\<lparr>ps_started := True\<rparr>))"

definition PollSimulatorDriver_stop :: "PollSimulatorDriver \<Rightarrow> PollSimulatorDriver" where
  "PollSimulatorDriver_stop d = d\<lparr>ps_started := False\<rparr>"

definition timeout_batch :: "i64 \<Rightarrow> CollectionGroup \<Rightarrow> RawBatch" where
  "timeout_batch timestamp grp =
     \<lparr>bat_device_id = grp_device_id grp, bat_source = ''simulator_poll'',
      bat_samples = map (\<lambda>point. \<lparr>smp_point = point, smp_value = Dbl (Finite False 0), smp_status = Timeout,
                                   smp_source_time_ns = timestamp\<rparr>) (grp_points grp)\<rparr>"

fun check_points :: "DeviceConfig \<Rightarrow> string list \<Rightarrow> unit result" where
  "check_points device [] = Inr ()"
| "check_points device (point # points) =
     (if has_point device point then check_points device points
      else Inl (Invalid_argument (''unknown point in group: '' @ point)))"

text \<open>\<open>now\<close> is the steady clock, \<open>timestamp\<close> the system clock; the deadline is a time point of the former.\<close>

definition PollSimulatorDriver_poll ::
  "int \<Rightarrow> i64 \<Rightarrow> CollectionGroup \<Rightarrow> int \<Rightarrow> PollSimulatorDriver \<Rightarrow> RawBatch result \<times> PollSimulatorDriver" where
  "PollSimulatorDriver_poll now timestamp grp deadline d =
     (if \<not> ps_started d then (Inl (Logic_error ''poll simulator is stopped''), d)
      else if grp_device_id grp \<noteq> dev_id (ps_device d)
      then (Inl (Invalid_argument ''group does not belong to simulator device''), d)
      else case check_points (ps_device d) (grp_points grp) of
             Inl e \<Rightarrow> (Inl e, d)
           | Inr _ \<Rightarrow>
               if now \<ge> deadline \<or> ms (ps_latency d) > deadline - now
               then (Inr (timeout_batch timestamp grp), d)
               else let sequence = ps_sequence d + 1
                    in (Inr \<lparr>bat_device_id = grp_device_id grp, bat_source = ''simulator_poll'',
                             bat_samples = map (\<lambda>point. \<lparr>smp_point = point,
                               smp_value = Dbl (simulated_value point sequence), smp_status = Good,
                               smp_source_time_ns = timestamp\<rparr>) (grp_points grp)\<rparr>,
                        d\<lparr>ps_sequence := sequence\<rparr>))"

definition PollSimulatorDriver_control ::
  "DeviceControlRequest \<Rightarrow> PollSimulatorDriver \<Rightarrow> (DeviceControlResult \<times> string) result" where
  "PollSimulatorDriver_control request d =
     (if \<not> ps_started d then Inl (Logic_error ''poll simulator is stopped'')
      else Inr (simulator_control ''poll_simulator'' (dev_id (ps_device d)) request))"

definition make_poll_simulator :: "'j json_ops \<Rightarrow> string \<Rightarrow> PollSimulatorDriver result" where
  "make_poll_simulator J settings_json =
     (let plugin = ''poll simulator'' in
      rbind (pj_parse_object J settings_json plugin) (\<lambda>settings.
      rbind (pj_milliseconds_member J settings ''latency_ms'' plugin False) PollSimulatorDriver_new))"

definition create_poll_simulator :: "'j json_ops \<Rightarrow> string option \<Rightarrow> PollSimulatorDriver option" where
  "create_poll_simulator J settings = null_on_throw (make_poll_simulator J (settings_text settings))"

section \<open>\<open>PushSimulatorDriver\<close>\<close>

text \<open>The sink is a parameter of the loop below; \<open>pu_sink\<close> says whether one is stored.\<close>

record PushSimulatorDriver =
  pu_device :: DeviceConfig
  pu_sink :: bool
  pu_interval :: int
  pu_joinable :: bool
  pu_sequence :: u64
  pu_configured :: bool
  pu_produced :: u64
  pu_queue_full :: u64

record PushSimulatorStats =
  pus_produced :: u64
  pus_queue_full :: u64

definition PushSimulatorDriver_new :: "int \<Rightarrow> PushSimulatorDriver result" where
  "PushSimulatorDriver_new interval =
     (if interval \<le> 0 then Inl (Invalid_argument ''push interval must be positive'')
      else Inr \<lparr>pu_device = empty_device, pu_sink = False, pu_interval = interval, pu_joinable = False,
                pu_sequence = 0, pu_configured = False, pu_produced = 0, pu_queue_full = 0\<rparr>)"

definition PushSimulatorDriver_capabilities :: "PushSimulatorDriver \<Rightarrow> AcquisitionMode" where
  "PushSimulatorDriver_capabilities d = Mode_Push"

definition PushSimulatorDriver_configure ::
  "DeviceConfig \<Rightarrow> bool \<Rightarrow> PushSimulatorDriver \<Rightarrow> PushSimulatorDriver result" where
  "PushSimulatorDriver_configure device has_sink d =
     (if pu_joinable d then Inl (Logic_error ''cannot configure a running push simulator'')
      else if \<not> has_sink then Inl (Invalid_argument ''push simulator requires a sample sink'')
      else Inr (d\<lparr>pu_device := device, pu_sink := True, pu_configured := True\<rparr>))"

text \<open>The creation of the thread may throw.\<close>

definition PushSimulatorDriver_start :: "exn option \<Rightarrow> PushSimulatorDriver \<Rightarrow> PushSimulatorDriver result" where
  "PushSimulatorDriver_start no_thread d =
     (if \<not> pu_configured d then Inl (Logic_error ''push simulator is not configured'')
      else if pu_joinable d then Inl (Logic_error ''push simulator is already running'')
      else case no_thread of Some e \<Rightarrow> Inl e | None \<Rightarrow> Inr (d\<lparr>pu_joinable := True\<rparr>))"

definition PushSimulatorDriver_stop :: "PushSimulatorDriver \<Rightarrow> PushSimulatorDriver" where
  "PushSimulatorDriver_stop d = (if \<not> pu_joinable d then d else d\<lparr>pu_joinable := False\<rparr>)"

definition PushSimulatorDriver_control ::
  "DeviceControlRequest \<Rightarrow> PushSimulatorDriver \<Rightarrow> (DeviceControlResult \<times> string) result" where
  "PushSimulatorDriver_control request d =
     (if \<not> pu_joinable d then Inl (Logic_error ''push simulator is stopped'')
      else Inr (simulator_control ''push_simulator'' (dev_id (pu_device d)) request))"

definition PushSimulatorDriver_stats :: "PushSimulatorDriver \<Rightarrow> PushSimulatorStats" where
  "PushSimulatorDriver_stats d = \<lparr>pus_produced = pu_produced d, pus_queue_full = pu_queue_full d\<rparr>"

definition make_batch :: "i64 \<Rightarrow> PushSimulatorDriver \<Rightarrow> RawBatch \<times> PushSimulatorDriver" where
  "make_batch timestamp d =
     (let sequence = pu_sequence d + 1
      in (\<lparr>bat_device_id = dev_id (pu_device d), bat_source = ''simulator_push'',
           bat_samples = map (\<lambda>point. \<lparr>smp_point = pt_name point,
             smp_value = Dbl (simulated_value (pt_name point) sequence), smp_status = Good,
             smp_source_time_ns = timestamp\<rparr>) (dev_points (pu_device d))\<rparr>,
          d\<lparr>pu_sequence := sequence\<rparr>))"

text \<open>
  One turn of the loop of \<open>run\<close>: what the two tests of the stop token answer, and the system clock. The sink is a function
  that threads the state it pushes into. The result says whether the loop has ended, by a test, by a \<open>Stopping\<close> answer,
  or not yet within the given turns.
\<close>

record push_turn =
  ptn_stop_requested :: bool
  ptn_interrupted :: bool
  ptn_time :: i64

fun PushSimulatorDriver_run ::
  "('q \<Rightarrow> RawBatch \<Rightarrow> EnqueueResult \<times> 'q) \<Rightarrow> push_turn list \<Rightarrow> PushSimulatorDriver \<times> 'q \<Rightarrow>
   bool \<times> PushSimulatorDriver \<times> 'q" where
  "PushSimulatorDriver_run sink [] (d, q) = (False, d, q)"
| "PushSimulatorDriver_run sink (t # ts) (d, q) =
     (if ptn_stop_requested t \<or> ptn_interrupted t then (True, d, q)
      else let (batch, d1) = make_batch (ptn_time t) d;
               (result, q') = sink q batch;
               d2 = d1\<lparr>pu_produced := pu_produced d1 + 1\<rparr>;
               d3 = (if result = Enq_Full then d2\<lparr>pu_queue_full := pu_queue_full d2 + 1\<rparr> else d2)
           in if result = Enq_Stopping then (True, d3, q') else PushSimulatorDriver_run sink ts (d3, q'))"

definition make_push_simulator :: "'j json_ops \<Rightarrow> string \<Rightarrow> PushSimulatorDriver result" where
  "make_push_simulator J settings_json =
     (let plugin = ''push simulator'' in
      rbind (pj_parse_object J settings_json plugin) (\<lambda>settings.
      rbind (pj_milliseconds_member J settings ''interval_ms'' plugin True) PushSimulatorDriver_new))"

definition create_push_simulator :: "'j json_ops \<Rightarrow> string option \<Rightarrow> PushSimulatorDriver option" where
  "create_push_simulator J settings = null_on_throw (make_push_simulator J (settings_text settings))"

section \<open>Lemmas: the simulated values\<close>

text \<open>Non-negative, finite, and at most \<open>b\<close>.\<close>

definition up_to :: "rat \<Rightarrow> double \<Rightarrow> bool" where
  "up_to b x \<longleftrightarrow> wf_double x \<and> (\<exists>v. x = Finite False v \<and> 0 \<le> v \<and> v \<le> b)"

lemma up_to_round: "0 \<le> r \<Longrightarrow> r \<le> b \<Longrightarrow> representable b \<Longrightarrow> up_to b (round_double False r)"
  using round_double_le [of r b False] by (auto simp: up_to_def intro: wf_round_double)

lemma up_to_ops:
  assumes "up_to a x" and "up_to b y"
  shows "representable (a * b) \<Longrightarrow> up_to (a * b) (dmul x y)" and "representable (a + b) \<Longrightarrow> up_to (a + b) (dadd x y)"
proof -
  obtain v w where v: "x = Finite False v" "0 \<le> v" "v \<le> a" "y = Finite False w" "0 \<le> w" "w \<le> b"
    using assms by (auto simp: up_to_def)
  show "up_to (a * b) (dmul x y)" if "representable (a * b)"
    using v that by (simp add: up_to_round mult_mono)
  show "up_to (a + b) (dadd x y)" if "representable (a + b)"
    using v that up_to_round [of "v + w" "a + b"] by (auto simp: signed_rat_def Let_def up_to_def)
qed

lemma up_to_mono: "up_to a x \<Longrightarrow> a \<le> b \<Longrightarrow> up_to b x"
  by (auto simp: up_to_def)

lemma representable_numeral: "n \<le> 2 ^ 53 \<Longrightarrow> representable (of_nat n)"
  using representable_int [of "int n"] by simp

lemma up_to_literal: "0 \<le> r \<Longrightarrow> r \<le> of_nat n \<Longrightarrow> n \<le> 2 ^ 53 \<Longrightarrow> up_to (of_nat n) (literal r)"
  unfolding literal_def by (intro up_to_round representable_numeral)

lemma up_to_u64: "uint n \<le> int m \<Longrightarrow> representable (of_nat m) \<Longrightarrow> up_to (of_nat m) (double_of_u64 n)"
proof -
  assume n: "uint n \<le> int m" and m: "representable (of_nat m)"
  have "double_of_u64 n = round_double False (of_int (uint n))"
    by (simp only: double_of_u64_def double_of_int_def) simp
  moreover have "(of_int (uint n) :: rat) \<le> of_nat m" using n by (metis of_int_le_iff of_int_of_nat_eq)
  moreover have "(0 :: rat) \<le> of_int (uint n)" by (simp only: of_int_0_le_iff) simp
  ultimately show ?thesis using up_to_round [OF _ _ m] by metis
qed

lemma representable_2_64: "representable (of_nat (2 ^ 64))"
  by (rule representableI [of _ "2 ^ 52" 12]) (simp_all add: pow2_nat)

lemma uint_mod_small: "uint (n mod (8::u64)) = uint n mod 8" "uint (n mod (5::u64)) = uint n mod 5" "uint (n mod (7::u64)) = uint n mod 7"
  by (simp_all add: uint_mod)

text \<open>A base value plus a remainder times a step.\<close>

lemma up_to_pattern:
  assumes "uint k \<le> int m" and "0 \<le> c" and "c \<le> of_nat i" and "0 \<le> d" and "d \<le> of_nat j" and "i + m * j \<le> 1000" and "m \<le> 1000"
    and "i \<le> 1000" and "j \<le> 1000"
  shows "up_to 1000 (dadd (literal c) (dmul (double_of_u64 k) (literal d)))"
proof -
  have "m * j \<le> 2 ^ 53" using assms(6) by simp
  then have "up_to (of_nat m * of_nat j) (dmul (double_of_u64 k) (literal d))"
    using assms representable_numeral [of "m * j"]
    by (intro up_to_ops(1) up_to_u64 up_to_literal representable_numeral) auto
  moreover have "up_to (of_nat i) (literal c)" using assms by (intro up_to_literal) auto
  moreover have "representable (of_nat i + of_nat m * of_nat j)"
    using assms(6) representable_numeral [of "i + m * j"] by simp
  ultimately have "up_to (of_nat i + of_nat m * of_nat j) (dadd (literal c) (dmul (double_of_u64 k) (literal d)))"
    using up_to_ops(2) by blast
  moreover have "(of_nat i + of_nat m * of_nat j :: rat) \<le> 1000"
    using assms(6) by (metis (mono_tags) of_nat_add of_nat_le_iff of_nat_mult of_nat_numeral)
  ultimately show ?thesis by (rule up_to_mono)
qed

lemma simulated_value_up_to: "up_to (of_nat (2 ^ 64)) (simulated_value point n)"
proof -
  have rest: "up_to (of_nat (2 ^ 64)) (double_of_u64 n)"
    using uint_bounded [of n] by (intro up_to_u64 representable_2_64) simp
  have mods: "uint (n mod 8) \<le> int 7" "uint (n mod 5) \<le> int 4" "uint (n mod 7) \<le> int 6"
    using pos_mod_bound [of 8 "uint n"] pos_mod_bound [of 5 "uint n"] pos_mod_bound [of 7 "uint n"]
    by (simp_all add: uint_mod_small)
  have big: "(1000 :: rat) \<le> of_nat (2 ^ 64)" by simp
  note pattern = up_to_mono [OF up_to_pattern big]
  show ?thesis
    unfolding simulated_value_def
    using rest pattern [OF mods(1), of 78 78 2 2] pattern [OF mods(2), of 100 100 "1 / 2" 1]
      pattern [OF mods(3), of "1 / 5" 1 "1 / 10" 1] pattern [OF mods(2), of "2 / 5" 1 "12 / 100" 1]
    by simp
qed

lemma temperature_values:
  "\<forall>k \<in> {0, 1, 2, 3, 4, 5, 6, 7}. dadd (literal 78) (dmul (double_of_int k) (literal 2)) = double_of_int (78 + 2 * k)"
  by code_simp

lemma int_mod_8: "(i::int) mod 8 \<in> {0, 1, 2, 3, 4, 5, 6, 7}"
  by (simp only: insert_iff empty_iff) presburger

lemma simulated_temperature:
  "sublist ''temperature'' point \<Longrightarrow> simulated_value point n = double_of_int (78 + 2 * (uint n mod 8))"
  using temperature_values int_mod_8 [of "uint n"] by (simp only: simulated_value_def double_of_u64_def uint_mod_small if_True)

section \<open>Lemmas: what becomes of the samples\<close>

text \<open>A point that is reported as it is measured.\<close>

definition plain_point :: "PointConfig \<Rightarrow> bool" where
  "plain_point p \<longleftrightarrow> pt_type p = VT_Double \<and> pt_scale p = literal 1 \<and> pt_offset p = literal 0"

lemma literal_unit: "literal 1 = Finite False 1" "literal 0 = Finite False 0"
  by code_simp+

lemma plain_scaled:
  assumes "plain_point p" and "up_to b x"
  shows "scaled_value x p = x"
proof -
  obtain v where v: "x = Finite False v" "0 \<le> v" "representable v" using assms(2) by (auto simp: up_to_def)
  then have "round_double False v = Finite False v" by (intro round_double_exact)
  then show ?thesis
    using assms(1) v by (auto simp: scaled_value_def plain_point_def literal_unit signed_rat_def Let_def)
qed

lemma plain_sample:
  assumes "pm (smp_point x) = Some p" and "plain_point p" and "smp_value x = Dbl v" and "smp_status x = Good"
    and "up_to b v"
  shows "rd_value (normalize_sample oob (Some pm) t x) = Dbl v"
    and "rd_quality (normalize_sample oob (Some pm) t x) = (if outside_limits p (Dbl v) then OutOfRange else Good)"
proof -
  have "isfinite v" using assms(5) by (auto simp: up_to_def)
  then have "convert_value oob (Dbl v) p Good = check_limits p (Dbl v)"
    using assms(2) plain_scaled [OF assms(2,5)] by (simp add: convert_value_def plain_point_def)
  then show "rd_value (normalize_sample oob (Some pm) t x) = Dbl v"
    "rd_quality (normalize_sample oob (Some pm) t x) = (if outside_limits p (Dbl v) then OutOfRange else Good)"
    using assms(1,3,4) by (simp_all add: normalize_sample_def check_limits_def)
qed

lemma has_point_iff: "has_point device name \<longleftrightarrow> name \<in> pt_name ` set (dev_points device)"
  by (auto simp: has_point_def list_ex_iff)

lemma check_points_iff: "check_points device points = Inr u \<longleftrightarrow> (\<forall>p \<in> set points. has_point device p)"
  by (induction points) auto

lemma configured_names:
  "Normalizer_new config = Inr nz \<Longrightarrow> device \<in> set (gw_devices config) \<Longrightarrow> distinct (map pt_name (dev_points device))"
  by (auto simp: Normalizer_new_def rbind_Inr_iff devices.fold_empty_iff valid_device_def)

lemma configured_point:
  assumes "Normalizer_new config = Inr nz" and "device \<in> set (gw_devices config)" and "has_point device name"
  shows "\<exists>pm p. nz_points nz (dev_id device) = Some pm \<and> pm name = Some p \<and> p \<in> set (dev_points device) \<and> pt_name p = name"
proof -
  have n: "distinct (map dev_id (gw_devices config))" "valid_device device"
    "nz_points nz = map_of (map (\<lambda>d. (dev_id d, point_map (dev_points d))) (gw_devices config))"
    using assms(1,2) by (auto simp: Normalizer_new_def rbind_Inr_iff devices.fold_empty_iff)
  have "nz_points nz (dev_id device) = Some (point_map (dev_points device))"
    using n assms(2) by (auto simp: map_of_eq_Some_iff comp_def image_iff intro!: bexI [of _ device])
  moreover obtain p where "p \<in> set (dev_points device)" "pt_name p = name"
    using assms(3) by (auto simp: has_point_iff)
  moreover have "distinct (map pt_name (dev_points device))" using n(2) by (simp add: valid_device_def)
  ultimately show ?thesis
    by (auto simp: point_map_def map_of_eq_Some_iff comp_def intro!: image_eqI)
qed

section \<open>Lemmas: the pushing loop\<close>

fun push_batches :: "PushSimulatorDriver \<Rightarrow> push_turn list \<Rightarrow> RawBatch list" where
  "push_batches d [] = []"
| "push_batches d (t # ts) = (let (batch, d') = make_batch (ptn_time t) d in batch # push_batches d' ts)"

lemma push_batches_cong:
  "pu_device d = pu_device d' \<Longrightarrow> pu_sequence d = pu_sequence d' \<Longrightarrow> push_batches d ts = push_batches d' ts"
proof (induction ts arbitrary: d d')
  case (Cons t ts)
  have "push_batches (d\<lparr>pu_sequence := n\<rparr>) ts = push_batches (d'\<lparr>pu_sequence := n\<rparr>) ts" for n
    using Cons.prems by (intro Cons.IH) simp_all
  then show ?case using Cons.prems by (simp add: make_batch_def Let_def)
qed simp

lemma length_push_batches: "length (push_batches d ts) = length ts"
  by (induction ts arbitrary: d) (auto simp: Let_def split: prod.splits)

text \<open>What the loop leaves in the raw queue and in its counters after \<open>m\<close> batches.\<close>

definition pushed_into :: "PushSimulatorDriver \<Rightarrow> RawBatch BoundedQueue \<Rightarrow> push_turn list \<Rightarrow> nat \<Rightarrow>
    PushSimulatorDriver \<Rightarrow> RawBatch BoundedQueue \<Rightarrow> bool" where
  "pushed_into d q ts m d' q' \<longleftrightarrow>
     (\<exists>accepted. subseq accepted (push_batches d (take m ts)) \<and> bq_queue q' = bq_queue q @ accepted \<and>
        bq_accepted q' = bq_accepted q + of_nat (length accepted) \<and>
        pu_produced d' = pu_produced d + of_nat m \<and> pu_sequence d' = pu_sequence d + of_nat m \<and>
        (if bq_closed q then accepted = [] \<and> m \<le> 1 \<and> pu_queue_full d' = pu_queue_full d
         else pu_queue_full d' = pu_queue_full d + of_nat (m - length accepted) \<and>
              bq_rejected_full q' = bq_rejected_full q + of_nat (m - length accepted)))"

lemma pushed_into_0: "pushed_into d q ts 0 d q"
  by (simp add: pushed_into_def)

lemma run_pushes:
  "PushSimulatorDriver_run BoundedQueue_try_push ts (d, q) = (ended, d', q') \<Longrightarrow>
     \<exists>m \<le> length ts. pushed_into d q ts m d' q'"
proof (induction ts arbitrary: d q)
  case Nil
  then show ?case using pushed_into_0 by auto
next
  case (Cons t ts)
  show ?case
  proof (cases "ptn_stop_requested t \<or> ptn_interrupted t")
    case True
    then show ?thesis using Cons.prems pushed_into_0 [of d q "t # ts"] by auto
  next
    case False
    obtain batch d1 where b: "make_batch (ptn_time t) d = (batch, d1)" by fastforce
    obtain result q1 where p: "BoundedQueue_try_push q batch = (result, q1)" by fastforce
    let ?d2 = "d1\<lparr>pu_produced := pu_produced d1 + 1\<rparr>"
    let ?d3 = "if result = Enq_Full then ?d2\<lparr>pu_queue_full := pu_queue_full ?d2 + 1\<rparr> else ?d2"
    have d3: "pu_device ?d3 = pu_device d1" "pu_sequence ?d3 = pu_sequence d + 1" "pu_produced ?d3 = pu_produced d + 1"
      "pu_queue_full ?d3 = pu_queue_full d + (if result = Enq_Full then 1 else 0)" "pu_sequence d1 = pu_sequence d + 1"
      using b by (auto simp: make_batch_def Let_def)
    have batches: "push_batches d (take (Suc m) (t # ts)) = batch # push_batches ?d3 (take m ts)" for m
      using b d3 push_batches_cong [of d1 ?d3] by simp
    show ?thesis
    proof (cases "result = Enq_Stopping")
      case True
      then have "bq_closed q" "q1 = q" using p by (auto simp: BoundedQueue_try_push_def split: if_splits)
      moreover have "d' = ?d3" "q' = q1" using Cons.prems False b p True by (auto simp: Let_def)
      ultimately have "pushed_into d q (t # ts) 1 d' q'" using True d3 by (simp add: pushed_into_def)
      then show ?thesis by (intro exI [of _ 1]) simp
    next
      case run: False
      then have "PushSimulatorDriver_run BoundedQueue_try_push ts (?d3, q1) = (ended, d', q')"
        using Cons.prems False b p by (simp add: Let_def)
      from Cons.IH [OF this] obtain m accepted where m: "m \<le> length ts"
        "subseq accepted (push_batches ?d3 (take m ts))" "bq_queue q' = bq_queue q1 @ accepted"
        "bq_accepted q' = bq_accepted q1 + of_nat (length accepted)"
        "pu_produced d' = pu_produced ?d3 + of_nat m" "pu_sequence d' = pu_sequence ?d3 + of_nat m"
        and c: "if bq_closed q1 then accepted = [] \<and> m \<le> 1 \<and> pu_queue_full d' = pu_queue_full ?d3
         else pu_queue_full d' = pu_queue_full ?d3 + of_nat (m - length accepted) \<and>
              bq_rejected_full q' = bq_rejected_full q1 + of_nat (m - length accepted)"
        by (auto simp: pushed_into_def)
      have op: "\<not> bq_closed q" "\<not> bq_closed q1" using p run by (auto simp: BoundedQueue_try_push_def split: if_splits)
      have len: "length accepted \<le> m"
        using list_emb_length [OF m(2)] m(1) by (simp add: length_push_batches)
      note counts = c [simplified op if_False]
      show ?thesis
      proof (cases "result = Enq_Full")
        case True
        then have q1: "q1 = q\<lparr>bq_rejected_full := bq_rejected_full q + 1\<rparr>"
          using p by (auto simp: BoundedQueue_try_push_def split: if_splits)
        have "subseq accepted (push_batches d (take (Suc m) (t # ts)))" using m(2) by (simp only: batches list_emb_Cons)
        then have "pushed_into d q (t # ts) (Suc m) d' q'"
          unfolding pushed_into_def using m(3-6) counts op True d3 len
          by (intro exI [of _ accepted]) (simp add: q1 Suc_diff_le algebra_simps)
        then show ?thesis using m(1) by (intro exI [of _ "Suc m"]) simp
      next
        case False
        then have q1: "q1 = q\<lparr>bq_queue := bq_queue q @ [batch], bq_accepted := bq_accepted q + 1\<rparr>"
          using p run by (auto simp: BoundedQueue_try_push_def split: if_splits)
        have "subseq (batch # accepted) (push_batches d (take (Suc m) (t # ts)))"
          unfolding batches using m(2) by (simp only: subseq_Cons2)
        then have "pushed_into d q (t # ts) (Suc m) d' q'"
          unfolding pushed_into_def using m(3-6) counts op False d3
          by (intro exI [of _ "batch # accepted"]) (simp add: q1 algebra_simps)
        then show ?thesis using m(1) by (intro exI [of _ "Suc m"]) simp
      qed
    qed
  qed
qed

section \<open>Properties\<close>

text \<open>C32: a poll of the simulator becomes an event of its values. For a started simulator of a configured device whose points are
  doubles reported as measured (scale 1, offset 0), a poll of a group of its points that can be answered in time returns a batch
  from which the normalizer makes exactly one reading for each point of the group, in order, with the simulated value of the next
  sequence number unchanged; its quality is \<open>OutOfRange\<close> where that value is outside the limits configured for the point and
  \<open>Good\<close> otherwise.\<close>

theorem poll_simulator_readings_good:
  assumes "Normalizer_new config = Inr nz" and "ps_device d \<in> set (gw_devices config)"
    and "\<forall>p \<in> set (dev_points (ps_device d)). plain_point p"
    and "ps_started d" and "grp_device_id grp = dev_id (ps_device d)" and "\<forall>p \<in> set (grp_points grp). has_point (ps_device d) p"
    and "now < deadline" and "now + ms (ps_latency d) \<le> deadline"
  shows "\<exists>batch. PollSimulatorDriver_poll now t grp deadline d = (Inr batch, d\<lparr>ps_sequence := ps_sequence d + 1\<rparr>) \<and>
    map (\<lambda>r. (rd_point r, rd_value r)) (ev_readings (fst (normalize oob received nz batch))) =
      map (\<lambda>p. (p, Dbl (simulated_value p (ps_sequence d + 1)))) (grp_points grp) \<and>
    (\<forall>r \<in> set (ev_readings (fst (normalize oob received nz batch))). \<forall>c \<in> set (dev_points (ps_device d)).
       pt_name c = rd_point r \<longrightarrow> rd_quality r = (if outside_limits c (rd_value r) then OutOfRange else Good))"
proof -
  let ?v = "\<lambda>p. Dbl (simulated_value p (ps_sequence d + 1))"
  let ?sample = "\<lambda>p. \<lparr>smp_point = p, smp_value = ?v p, smp_status = Good, smp_source_time_ns = t\<rparr>"
  let ?batch = "\<lparr>bat_device_id = grp_device_id grp, bat_source = ''simulator_poll'', bat_samples = map ?sample (grp_points grp)\<rparr>"
  let ?reading = "\<lambda>p. normalize_sample oob (nz_points nz (grp_device_id grp)) received (?sample p)"
  have "check_points (ps_device d) (grp_points grp) = Inr ()" using assms(6) by (simp add: check_points_iff)
  then have poll: "PollSimulatorDriver_poll now t grp deadline d = (Inr ?batch, d\<lparr>ps_sequence := ps_sequence d + 1\<rparr>)"
    using assms(4,5,7,8) by (simp add: PollSimulatorDriver_poll_def Let_def)
  have reading: "rd_value (?reading p) = ?v p \<and> (\<forall>c \<in> set (dev_points (ps_device d)). pt_name c = p \<longrightarrow>
      rd_quality (?reading p) = (if outside_limits c (?v p) then OutOfRange else Good))"
    if "p \<in> set (grp_points grp)" for p
  proof -
    obtain pm c where c: "nz_points nz (dev_id (ps_device d)) = Some pm" "pm p = Some c" "c \<in> set (dev_points (ps_device d))"
      "pt_name c = p"
      using configured_point [OF assms(1,2)] assms(6) \<open>p \<in> set (grp_points grp)\<close> by blast
    have "plain_point c" using assms(3) c(3) by blast
    then have r: "rd_value (?reading p) = ?v p" "rd_quality (?reading p) = (if outside_limits c (?v p) then OutOfRange else Good)"
      using plain_sample [of pm "?sample p" c, OF _ _ _ _ simulated_value_up_to] c(1,2) assms(5) by simp_all
    have "c' = c" if "c' \<in> set (dev_points (ps_device d))" "pt_name c' = p" for c'
      using configured_names [OF assms(1,2)] c(3,4) that by (auto simp: distinct_map inj_on_def)
    then show ?thesis using r by blast
  qed
  show ?thesis
    using poll reading by (intro exI [of _ ?batch]) (auto simp: normalize_eq Let_def)
qed

definition machine_01 :: DeviceConfig where
  "machine_01 = empty_device\<lparr>dev_id := ''machine-01'', dev_points :=
     [\<lparr>pt_name = ''temperature'', pt_type = VT_Double, pt_unit = ''C'', pt_address = Map.empty, pt_scale = literal 1,
       pt_offset = literal 0, pt_minimum = Some (double_of_int (- 40)), pt_maximum = Some (double_of_int 120)\<rparr>,
      \<lparr>pt_name = ''pressure'', pt_type = VT_Double, pt_unit = ''kPa'', pt_address = Map.empty, pt_scale = literal 1,
       pt_offset = literal 0, pt_minimum = None, pt_maximum = None\<rparr>]\<rparr>"

definition machine_config :: GatewayConfig where
  "machine_config = \<lparr>raw_queue_capacity = 32, control_queue_capacity = 64, gw_devices = [machine_01], gw_groups = []\<rparr>"

definition machine_group :: CollectionGroup where
  "machine_group = \<lparr>grp_id = ''machine-fast'', grp_device_id = ''machine-01'', grp_interval = 250, grp_timeout = 100,
     grp_points = [''temperature'', ''pressure'']\<rparr>"

definition machine_simulator :: PollSimulatorDriver where
  "machine_simulator = \<lparr>ps_device = machine_01, ps_latency = 35, ps_sequence = 4, ps_configured = True, ps_started = True\<rparr>"

lemma machine_limits:
  "p \<in> set (dev_points machine_01) \<Longrightarrow>
     plain_point p \<and> \<not> outside_limits p (Dbl (simulated_value (pt_name p) n))"
proof -
  have "\<forall>k \<in> {0, 1, 2, 3, 4, 5, 6, 7}. \<not> dlt (double_of_int (78 + 2 * k)) (double_of_int (- 40)) \<and>
      \<not> dlt (double_of_int 120) (double_of_int (78 + 2 * k))"
    by code_simp
  then have "\<not> dlt (simulated_value ''temperature'' n) (double_of_int (- 40)) \<and>
      \<not> dlt (double_of_int 120) (simulated_value ''temperature'' n)"
    using int_mod_8 [of "uint n"] simulated_temperature [of "''temperature''" n, OF sublist_order.order.refl] by metis
  then show "p \<in> set (dev_points machine_01) \<Longrightarrow>
     plain_point p \<and> \<not> outside_limits p (Dbl (simulated_value (pt_name p) n))"
    by (auto simp: machine_01_def plain_point_def outside_limits_def)
qed

theorem poll_simulator_readings_good_witness:
  "\<exists>nz batch. Normalizer_new machine_config = Inr nz \<and>
     PollSimulatorDriver_poll 0 7 machine_group (ms 100) machine_simulator =
       (Inr batch, machine_simulator\<lparr>ps_sequence := 5\<rparr>) \<and>
     map (\<lambda>r. (rd_point r, rd_value r)) (ev_readings (fst (normalize (\<lambda>_. 0) 9 nz batch))) =
       [(''temperature'', Dbl (double_of_int 88)), (''pressure'', Dbl (double_of_int 100))]"
proof -
  have "isl (Normalizer_new machine_config) = False" by code_simp
  then obtain nz where nz: "Normalizer_new machine_config = Inr nz" by (cases "Normalizer_new machine_config") auto
  have dev: "ps_device machine_simulator \<in> set (gw_devices machine_config)"
    by (simp add: machine_simulator_def machine_config_def)
  have h: "ps_started machine_simulator"
    "grp_device_id machine_group = dev_id (ps_device machine_simulator)" "(0::int) < ms 100"
    "\<forall>p \<in> set (grp_points machine_group). has_point (ps_device machine_simulator) p"
    "0 + ms (ps_latency machine_simulator) \<le> ms 100"
    by code_simp+
  have p: "\<forall>p \<in> set (dev_points (ps_device machine_simulator)). plain_point p"
    using machine_limits by (simp add: machine_simulator_def)
  have v: "map (\<lambda>p. (p, Dbl (simulated_value p 5))) (grp_points machine_group) =
      [(''temperature'', Dbl (double_of_int 88)), (''pressure'', Dbl (double_of_int 100))]"
    "ps_sequence machine_simulator + 1 = 5" by code_simp+
  from poll_simulator_readings_good [OF nz dev p h(1,2,4,3,5), of 7 "\<lambda>_. 0" 9] nz show ?thesis
    unfolding v by (elim exE conjE) (intro exI conjI)
qed

text \<open>C31: the pushing simulator and the raw queue agree. However often its thread goes round and whatever the queue is like, it has offered
  \<open>m\<close> batches with consecutive sequence numbers; the queue holds what it held and then, in order, the
  batches it accepted; \<open>produced\<close> counts the offers and \<open>queue_full\<close> the refusals, just as the queue
  counts them itself. A closed queue takes nothing and gets at most one offer.\<close>

theorem push_simulator_feeds_queue:
  assumes "PushSimulatorDriver_run BoundedQueue_try_push ts (d, q) = (ended, d', q')"
  shows "\<exists>m accepted. m \<le> length ts \<and> subseq accepted (push_batches d (take m ts)) \<and>
    bq_queue q' = bq_queue q @ accepted \<and> bq_accepted q' = bq_accepted q + of_nat (length accepted) \<and>
    pu_produced d' = pu_produced d + of_nat m \<and> pu_sequence d' = pu_sequence d + of_nat m \<and>
    (if bq_closed q then accepted = [] \<and> m \<le> 1 \<and> pu_queue_full d' = pu_queue_full d
     else pu_queue_full d' = pu_queue_full d + of_nat (m - length accepted) \<and>
          bq_rejected_full q' = bq_rejected_full q + of_nat (m - length accepted))"
  using run_pushes [OF assms] unfolding pushed_into_def by blast

definition feed_simulator :: PushSimulatorDriver where
  "feed_simulator = \<lparr>pu_device = machine_01, pu_sink = True, pu_interval = 180, pu_joinable = True, pu_sequence = 0,
     pu_configured = True, pu_produced = 0, pu_queue_full = 0\<rparr>"

definition feed_turns :: "push_turn list" where
  "feed_turns = [\<lparr>ptn_stop_requested = False, ptn_interrupted = False, ptn_time = 1\<rparr>,
     \<lparr>ptn_stop_requested = False, ptn_interrupted = False, ptn_time = 2\<rparr>,
     \<lparr>ptn_stop_requested = False, ptn_interrupted = True, ptn_time = 3\<rparr>]"

definition feed_queue :: "RawBatch BoundedQueue" where
  "feed_queue = \<lparr>bq_capacity = 1, bq_queue = [], bq_closed = False, bq_accepted = 0, bq_rejected_full = 0\<rparr>"

theorem push_simulator_feeds_queue_witness:
  "\<exists>d' q' m accepted. PushSimulatorDriver_run BoundedQueue_try_push feed_turns (feed_simulator, feed_queue) = (True, d', q') \<and>
     subseq accepted (push_batches feed_simulator (take m feed_turns)) \<and> length accepted = 1 \<and> bq_queue q' = accepted \<and>
     pu_queue_full d' = 1 \<and> pu_produced d' = 2"
proof -
  let ?r = "PushSimulatorDriver_run BoundedQueue_try_push feed_turns (feed_simulator, feed_queue)"
  have "case ?r of (ended, d', q') \<Rightarrow> ended \<and> pu_queue_full d' = 1 \<and> pu_produced d' = 2 \<and> length (bq_queue q') = 1"
    by code_simp
  then have v: "fst ?r" "pu_queue_full (fst (snd ?r)) = 1" "pu_produced (fst (snd ?r)) = 2" "length (bq_queue (snd (snd ?r))) = 1"
    by (simp_all add: case_prod_beta)
  obtain d' q' where r: "?r = (True, d', q')" using v(1) by (metis prod.collapse)
  show ?thesis using push_simulator_feeds_queue [OF r] v r by (auto simp: feed_queue_def)
qed

end
