(* ===== verification/Periodic_Source.thy ===== *)
theory Periodic_Source
  imports Plugin_Json Control
begin

text \<open>
  \<open>tests/simulation/periodic_control_source.cpp\<close>, a control source with a thread of its own that submits a request in every interval and
  counts the completions it still has to see. Its destructor relies on that count. The source is modelled together
  with the dispatcher it submits to, all threads interleaved.
\<close>

section \<open>\<open>PeriodicControlSource\<close>\<close>

text \<open>
  Where the thread of the source is: at the test of its loop, before the call of the sink, inside the dispatcher's \<open>submit\<close>, back
  with an answer, waiting for the next interval, or at its end.
\<close>

datatype source_thread =
    Src_none | Src_test | Src_submitting | Src_entered | Src_answered ControlSubmitResult | Src_waiting | Src_ended

record PeriodicControlSource =
  pc_request_id_prefix :: string
  pc_device_ids :: "string list"
  pc_command :: string
  pc_interval :: int
  pc_timeout :: int
  pc_sink :: bool
  pc_joinable :: bool
  pc_stop_requested :: bool
  pc_pending :: u64
  pc_configured :: bool
  pc_started :: bool
  pc_device_index :: nat
  pc_sequence :: u64
  pc_thread :: source_thread

definition PeriodicControlSource_new ::
  "string \<Rightarrow> string list \<Rightarrow> string \<Rightarrow> int \<Rightarrow> int \<Rightarrow> PeriodicControlSource" where
  "PeriodicControlSource_new request_id_prefix device_ids command interval timeout =
     \<lparr>pc_request_id_prefix = request_id_prefix, pc_device_ids = device_ids, pc_command = command,
      pc_interval = interval, pc_timeout = timeout, pc_sink = False, pc_joinable = False, pc_stop_requested = False,
      pc_pending = 0, pc_configured = False, pc_started = False, pc_device_index = 0, pc_sequence = 0,
      pc_thread = Src_none\<rparr>"

definition PeriodicControlSource_configure :: "bool \<Rightarrow> PeriodicControlSource \<Rightarrow> PeriodicControlSource result" where
  "PeriodicControlSource_configure has_sink s =
     (if pc_started s then Inl (Logic_error ''cannot configure a running periodic control source'')
      else if \<not> has_sink then Inl (Invalid_argument ''periodic control source requires a sink'')
      else Inr (s\<lparr>pc_sink := True, pc_configured := True\<rparr>))"

definition PeriodicControlSource_start :: "exn option \<Rightarrow> PeriodicControlSource \<Rightarrow> PeriodicControlSource result" where
  "PeriodicControlSource_start no_thread s =
     (if \<not> pc_configured s then Inl (Logic_error ''periodic control source is not configured'')
      else if pc_started s then Inl (Logic_error ''periodic control source is already started'')
      else case no_thread of
             Some e \<Rightarrow> Inl e
           | None \<Rightarrow> Inr (s\<lparr>pc_joinable := True, pc_thread := Src_test, pc_started := True\<rparr>))"

definition PeriodicControlSource_request_stop :: "PeriodicControlSource \<Rightarrow> PeriodicControlSource" where
  "PeriodicControlSource_request_stop s = (if pc_joinable s then s\<lparr>pc_stop_requested := True\<rparr> else s)"

text \<open>\<open>stop\<close> after its stop request: \<^const>\<open>None\<close> while it waits for the thread to end or for completions.\<close>

definition PeriodicControlSource_stop :: "PeriodicControlSource \<Rightarrow> PeriodicControlSource option" where
  "PeriodicControlSource_stop s =
     (if pc_joinable s \<and> pc_thread s \<noteq> Src_ended then None
      else if pc_pending s \<noteq> 0 then None
      else Some (s\<lparr>pc_joinable := False\<rparr>))"

definition complete_one :: "PeriodicControlSource \<Rightarrow> PeriodicControlSource" where
  "complete_one s = s\<lparr>pc_pending := pc_pending s - 1\<rparr>"

text \<open>The request of the current turn.\<close>

definition source_request :: "int \<Rightarrow> PeriodicControlSource \<Rightarrow> DeviceControlRequest" where
  "source_request now s =
     \<lparr>rq_request_id = pc_request_id_prefix s @ ''-'' @ to_string_u64 (pc_sequence s),
      rq_device_id = pc_device_ids s ! pc_device_index s, rq_command = pc_command s, rq_arguments = Map.empty,
      rq_deadline = now + ms (pc_timeout s)\<rparr>"

text \<open>
  The steps of \<open>run\<close> that do not involve the sink. A wait that is interrupted and one whose time is up both end with the test of the stop
  token.
\<close>

definition source_turn :: "PeriodicControlSource \<Rightarrow> PeriodicControlSource option" where
  "source_turn s =
     (case pc_thread s of
        Src_test \<Rightarrow>
          Some (if pc_stop_requested s then s\<lparr>pc_thread := Src_ended\<rparr>
                else s\<lparr>pc_sequence := pc_sequence s + 1, pc_pending := pc_pending s + 1, pc_thread := Src_submitting\<rparr>)
      | Src_answered r \<Rightarrow>
          (let s' = (if r \<noteq> Sub_Accepted then complete_one s else s)
           in Some (if r = Sub_Stopping then s'\<lparr>pc_thread := Src_ended\<rparr>
                    else s'\<lparr>pc_device_index := (pc_device_index s' + 1) mod length (pc_device_ids s'),
                            pc_thread := Src_waiting\<rparr>))
      | Src_waiting \<Rightarrow> Some (s\<lparr>pc_thread := (if pc_stop_requested s then Src_ended else Src_test)\<rparr>)
      | _ \<Rightarrow> None)"

definition make_control_source :: "'j json_ops \<Rightarrow> string \<Rightarrow> PeriodicControlSource result" where
  "make_control_source J settings_json =
     (let plugin = ''periodic control source'' in
      rbind (pj_parse_object J settings_json plugin) (\<lambda>settings.
      rbind (pj_string_member J settings ''request_id_prefix'' plugin False) (\<lambda>prefix.
      rbind (pj_string_array_member J settings ''device_ids'' plugin True) (\<lambda>device_ids.
      rbind (pj_string_member J settings ''command'' plugin False) (\<lambda>command.
      rbind (pj_milliseconds_member J settings ''interval_ms'' plugin True) (\<lambda>interval.
      rbind (pj_milliseconds_member J settings ''timeout_ms'' plugin True) (\<lambda>timeout.
        Inr (PeriodicControlSource_new prefix device_ids command interval timeout))))))))"

definition create_control_source :: "'j json_ops \<Rightarrow> string option \<Rightarrow> PeriodicControlSource option" where
  "create_control_source J settings = null_on_throw (make_control_source J (settings_text settings))"

section \<open>The source and the dispatcher\<close>

text \<open>
  \<open>own\<close> is the completion callback of the source; every other client of the dispatcher uses other callbacks. The dispatcher calls it inside
  \<open>complete\<close>: \<open>complete_one\<close> decrements the count under the lock and notifies after releasing it. A dispatcher thread between the
  two is in \<open>so_notifying\<close>, by its label, and takes no step of its own meanwhile.
\<close>

record 'c sourced =
  so_source :: PeriodicControlSource
  so_dispatcher :: "'c Dispatcher"
  so_notifying :: "label set"

definition own_op :: "'c \<Rightarrow> 'c ControlOperation \<Rightarrow> bool" where
  "own_op own v \<longleftrightarrow> op_completion v = Some own"

definition own_accepted :: "'c \<Rightarrow> 'c Dispatcher \<Rightarrow> 'c ControlOperation list" where
  "own_accepted own d = filter (own_op own) (dd_accepted d)"

definition own_completed :: "'c \<Rightarrow> 'c Dispatcher \<Rightarrow> 'c ControlOperation list" where
  "own_completed own d = filter (own_op own) (map fst (dd_completed d))"

inductive sourced_step ::
  "'c \<Rightarrow> (string \<Rightarrow> 'drv option result) \<Rightarrow> 'c sourced \<Rightarrow> 'c sourced \<Rightarrow> bool"
  for own :: 'c and driver_resolver :: "string \<Rightarrow> 'drv option result" where
  request_stop: "sourced_step own driver_resolver st
      (st\<lparr>so_source := PeriodicControlSource_request_stop (so_source st)\<rparr>)"
| turn: "source_turn (so_source st) = Some s \<Longrightarrow> sourced_step own driver_resolver st (st\<lparr>so_source := s\<rparr>)"
| refused: "pc_thread (so_source st) = Src_submitting \<Longrightarrow>
    sourced_step own driver_resolver st (st\<lparr>so_source := (so_source st)\<lparr>pc_thread := Src_answered Sub_Stopping\<rparr>\<rparr>)"
| enter: "pc_thread (so_source st) = Src_submitting \<Longrightarrow>
    sourced_step own driver_resolver st
      (st\<lparr>so_source := (so_source st)\<lparr>pc_thread := Src_entered\<rparr>,
          so_dispatcher := (Dispatcher_submit_enter (so_dispatcher st))\<lparr>dd_entered := dd_entered (so_dispatcher st) + 1\<rparr>\<rparr>)"
| decide: "pc_thread (so_source st) = Src_entered \<Longrightarrow>
    Dispatcher_submit_decide driver_resolver now (source_request clock (so_source st)) (Some own) (so_dispatcher st) = (r, d) \<Longrightarrow>
    sourced_step own driver_resolver st
      (st\<lparr>so_source := (so_source st)\<lparr>pc_thread := Src_answered r\<rparr>,
          so_dispatcher := d\<lparr>dd_entered := dd_entered (so_dispatcher st) - 1\<rparr>\<rparr>)"
| dispatcher: "disp_step driver_resolver l (so_dispatcher st) d \<Longrightarrow> l \<notin> so_notifying st \<Longrightarrow>
    own_accepted own d = own_accepted own (so_dispatcher st) \<Longrightarrow>
    (pc_thread (so_source st) = Src_entered \<Longrightarrow> 0 < dd_entered d) \<Longrightarrow>
    n = length (own_completed own d) - length (own_completed own (so_dispatcher st)) \<Longrightarrow>
    sourced_step own driver_resolver st
      (st\<lparr>so_source := (complete_one ^^ n) (so_source st), so_dispatcher := d,
          so_notifying := (if n = 0 then so_notifying st else insert l (so_notifying st))\<rparr>)"
| notify: "sourced_step own driver_resolver st (st\<lparr>so_notifying := so_notifying st - {l}\<rparr>)"
| stop: "PeriodicControlSource_stop (so_source st) = Some s \<Longrightarrow>
    sourced_step own driver_resolver st (st\<lparr>so_source := s\<rparr>)"

text \<open>A created source, configured and started by a gateway with a new dispatcher.\<close>

definition sourced_init :: "'c sourced \<Rightarrow> bool" where
  "sourced_init st \<longleftrightarrow> disp_init (so_dispatcher st) \<and> so_notifying st = {} \<and>
     (\<exists>prefix device_ids command interval timeout s.
        device_ids \<noteq> [] \<and>
        PeriodicControlSource_configure True (PeriodicControlSource_new prefix device_ids command interval timeout) = Inr s \<and>
        PeriodicControlSource_start None s = Inr (so_source st))"

section \<open>Invariant\<close>

text \<open>Whether the source's thread itself holds one of the counted completions.\<close>

fun in_flight :: "source_thread \<Rightarrow> nat" where
  "in_flight Src_submitting = 1"
| "in_flight Src_entered = 1"
| "in_flight (Src_answered r) = (if r = Sub_Accepted then 0 else 1)"
| "in_flight _ = 0"

definition notify_inv :: "'c sourced \<Rightarrow> bool" where
  "notify_inv st \<longleftrightarrow> so_notifying st \<subseteq> {L_worker, L_stop} \<and>
     (L_worker \<in> so_notifying st \<longrightarrow> dd_worker (so_dispatcher st) \<noteq> Exited) \<and>
     (L_stop \<in> so_notifying st \<longrightarrow> dd_cancelling (so_dispatcher st) \<noteq> None)"

definition count_inv :: "'c \<Rightarrow> 'c sourced \<Rightarrow> bool" where
  "count_inv own st \<longleftrightarrow>
     (let s = so_source st; d = so_dispatcher st in
      pc_pending s = of_nat (length (own_accepted own d) - length (own_completed own d) + in_flight (pc_thread s)) \<and>
      (pc_thread s = Src_entered \<longrightarrow> 0 < dd_entered d) \<and> pc_thread s \<noteq> Src_none \<and>
      pc_device_index s < length (pc_device_ids s))"

definition sourced_inv :: "'c \<Rightarrow> 'c sourced \<Rightarrow> bool" where
  "sourced_inv own st \<longleftrightarrow> disp_inv (so_dispatcher st) \<and> notify_inv st \<and> count_inv own st"

lemma own_completed_le:
  assumes "disp_inv d"
  shows "length (own_completed own d) \<le> length (own_accepted own d)"
proof -
  have "mset (own_completed own d) \<subseteq># mset (own_accepted own d)"
    using multiset_filter_mono [OF completed_subset [OF assms], of "own_op own"]
    by (simp add: own_completed_def own_accepted_def)
  then show ?thesis using size_mset_mono by fastforce
qed

text \<open>What one step of the dispatcher adds to the completions, and which of its threads adds them.\<close>

lemma disp_step_completions:
  assumes "disp_step dr l d d'"
  shows "\<exists>new. dd_completed d' = dd_completed d @ new \<and>
    (new \<noteq> [] \<longrightarrow> l = L_worker \<and> dd_worker d' \<noteq> Exited \<or> l = L_stop \<and> dd_cancelling d' \<noteq> None) \<and>
    (l \<noteq> L_worker \<longrightarrow> dd_worker d' = Exited \<longrightarrow> dd_worker d = Exited) \<and>
    (l \<noteq> L_stop \<longrightarrow> dd_cancelling d' = dd_cancelling d)"
  using assms
proof (cases rule: disp_step.cases)
  case (worker_execute operation env)
  then show ?thesis using execute_effect [of env operation d] by auto
qed (auto simp: Dispatcher_start_def Dispatcher_submit_enter_def Dispatcher_submit_decide_def Dispatcher_request_stop_begin_def
    Dispatcher_complete_def Let_def case_prod_beta split: if_splits)

lemma complete_one_funpow:
  "(complete_one ^^ n) s = s\<lparr>pc_pending := pc_pending s - of_nat n\<rparr>"
  by (induction n) (simp_all add: complete_one_def algebra_simps)


lemma own_completed_step:
  assumes "disp_step dr l d d'"
  shows "\<exists>new. own_completed own d' = own_completed own d @ new \<and>
    (new \<noteq> [] \<longrightarrow> l = L_worker \<and> dd_worker d' \<noteq> Exited \<or> l = L_stop \<and> dd_cancelling d' \<noteq> None)"
proof -
  obtain new where new: "dd_completed d' = dd_completed d @ new"
    "new \<noteq> [] \<longrightarrow> l = L_worker \<and> dd_worker d' \<noteq> Exited \<or> l = L_stop \<and> dd_cancelling d' \<noteq> None"
    using disp_step_completions [OF assms] by blast
  then show ?thesis
    by (intro exI [of _ "filter (own_op own) (map fst new)"]) (auto simp: own_completed_def)
qed

lemma sourced_inv_init:
  assumes "sourced_init st"
  shows "sourced_inv own st"
proof -
  have d: "disp_init (so_dispatcher st)" "so_notifying st = {}" using assms by (simp_all add: sourced_init_def)
  have "\<exists>device_ids. device_ids \<noteq> [] \<and> pc_thread (so_source st) = Src_test \<and> pc_pending (so_source st) = 0 \<and>
      pc_device_index (so_source st) = 0 \<and> pc_device_ids (so_source st) = device_ids"
    using assms
    by (auto simp: sourced_init_def PeriodicControlSource_new_def PeriodicControlSource_configure_def
        PeriodicControlSource_start_def dest!: sym [of "PeriodicControlSource_ext _ _ _ _ _ _ _ _ _ _ _ _ _ _ _"])
  moreover have "dd_accepted (so_dispatcher st) = [] \<and> dd_completed (so_dispatcher st) = []"
    using d(1) by (auto simp: disp_init_def Dispatcher_new_def rbind_Inr_iff dest!: sym [of _ "so_dispatcher st"])
  ultimately show ?thesis
    using d by (auto simp: sourced_inv_def notify_inv_def count_inv_def own_accepted_def own_completed_def Let_def disp_inv_init)
qed

lemma count_inv_turn:
  assumes "count_inv own st" and "source_turn (so_source st) = Some s"
  shows "count_inv own (st\<lparr>so_source := s\<rparr>)"
proof -
  have pos: "0 < length (pc_device_ids (so_source st))" using assms(1) by (auto simp: count_inv_def Let_def)
  show ?thesis
    using assms pos
    by (cases "pc_thread (so_source st)")
       (auto simp: count_inv_def source_turn_def complete_one_def Let_def mod_less_divisor split: if_splits)
qed

lemma sourced_inv_decide:
  assumes "sourced_inv own st" and "pc_thread (so_source st) = Src_entered"
    and "Dispatcher_submit_decide dr now request (Some own) (so_dispatcher st) = (r, d)"
  shows "sourced_inv own (st\<lparr>so_source := (so_source st)\<lparr>pc_thread := Src_answered r\<rparr>,
    so_dispatcher := d\<lparr>dd_entered := dd_entered (so_dispatcher st) - 1\<rparr>\<rparr>)"
proof -
  let ?d = "so_dispatcher st"
  have inv: "disp_inv ?d" "0 < dd_entered ?d" using assms(1,2) by (simp_all add: sourced_inv_def count_inv_def Let_def)
  have frame: "dd_entered d = dd_entered ?d" "dd_completed d = dd_completed ?d" "dd_worker d = dd_worker ?d"
      "dd_cancelling d = dd_cancelling ?d"
    using assms(3) by (auto simp: Dispatcher_submit_decide_def Let_def split: if_splits prod.splits)
  have accepted: "own_accepted own d = own_accepted own ?d @
      (if r = Sub_Accepted then [\<lparr>op_request = request, op_completion = Some own, op_enqueued_at = now\<rparr>] else [])"
    using assms(3)
    by (auto simp: Dispatcher_submit_decide_def own_accepted_def own_op_def Let_def split: if_splits prod.splits)
  have le: "length (own_completed own ?d) \<le> length (own_accepted own ?d)" by (rule own_completed_le [OF inv(1)])
  have "disp_inv (d\<lparr>dd_entered := dd_entered ?d - 1\<rparr>)"
    using disp_inv_submit_decide [OF inv assms(3)] frame(1) by simp
  moreover have "own_completed own (d\<lparr>dd_entered := k\<rparr>) = own_completed own ?d" for k
    by (simp add: own_completed_def frame)
  moreover have "own_accepted own (d\<lparr>dd_entered := k\<rparr>) = own_accepted own d" for k by (simp add: own_accepted_def)
  ultimately show ?thesis
    using assms(1,2) frame accepted le
    by (auto simp: sourced_inv_def notify_inv_def count_inv_def Let_def Suc_diff_le)
qed

lemma sourced_inv_dispatcher:
  assumes "sourced_inv own st" and "disp_step dr l (so_dispatcher st) d" and "l \<notin> so_notifying st"
    and "own_accepted own d = own_accepted own (so_dispatcher st)"
    and "pc_thread (so_source st) = Src_entered \<Longrightarrow> 0 < dd_entered d"
    and "n = length (own_completed own d) - length (own_completed own (so_dispatcher st))"
  shows "sourced_inv own (st\<lparr>so_source := (complete_one ^^ n) (so_source st), so_dispatcher := d,
    so_notifying := (if n = 0 then so_notifying st else insert l (so_notifying st))\<rparr>)"
proof -
  have inv: "disp_inv (so_dispatcher st)" "disp_inv d"
    using assms(1) disp_inv_step [OF assms(2)] by (simp_all add: sourced_inv_def)
  obtain new where new: "own_completed own d = own_completed own (so_dispatcher st) @ new"
    "new \<noteq> [] \<longrightarrow> l = L_worker \<and> dd_worker d \<noteq> Exited \<or> l = L_stop \<and> dd_cancelling d \<noteq> None"
    using own_completed_step [OF assms(2)] by blast
  have n: "n = length new" using assms(6) new(1) by simp
  have "length (own_completed own (so_dispatcher st)) + n \<le> length (own_accepted own (so_dispatcher st))"
    using own_completed_le [OF inv(2), of own] new(1) n assms(4) by simp
  then have count: "count_inv own (st\<lparr>so_source := (complete_one ^^ n) (so_source st), so_dispatcher := d, so_notifying := x\<rparr>)" for x
    using assms(1,4,5) new(1) n
    by (auto simp: sourced_inv_def count_inv_def Let_def complete_one_funpow of_nat_diff [symmetric] simp del: of_nat_add of_nat_diff)
  have "notify_inv (st\<lparr>so_source := (complete_one ^^ n) (so_source st), so_dispatcher := d,
      so_notifying := (if n = 0 then so_notifying st else insert l (so_notifying st))\<rparr>)"
    using assms(1,3) new(2) n disp_step_completions [OF assms(2)]
    by (auto simp: sourced_inv_def notify_inv_def)
  then show ?thesis using count inv(2) by (simp add: sourced_inv_def)
qed

lemma sourced_inv_step:
  assumes "sourced_step own dr st st'" and "sourced_inv own st"
  shows "sourced_inv own st'"
  using assms(1)
proof (cases rule: sourced_step.cases)
  case (turn s)
  then show ?thesis using assms(2) count_inv_turn by (auto simp: sourced_inv_def notify_inv_def)
next
  case (decide now clock r d)
  then show ?thesis using sourced_inv_decide [OF assms(2)] by blast
next
  case (dispatcher l d n)
  then show ?thesis using sourced_inv_dispatcher [OF assms(2)] by blast
next
  case enter
  have "own_accepted own ((Dispatcher_submit_enter d)\<lparr>dd_entered := k\<rparr>) = own_accepted own d"
    "own_completed own ((Dispatcher_submit_enter d)\<lparr>dd_entered := k\<rparr>) = own_completed own d" for d and k
    by (simp_all add: own_accepted_def own_completed_def Dispatcher_submit_enter_def)
  then show ?thesis
    using enter assms(2) disp_inv_submit_enter
    by (auto simp: sourced_inv_def notify_inv_def count_inv_def Let_def Dispatcher_submit_enter_def)
qed (use assms(2) in \<open>auto simp: sourced_inv_def notify_inv_def count_inv_def Let_def
    PeriodicControlSource_request_stop_def PeriodicControlSource_stop_def split: if_splits\<close>)

interpretation sourced: state_machine sourced_init "sourced_step own dr" "sourced_inv own"
  for own :: 'c and dr :: "string \<Rightarrow> 'drv option result"
  by unfold_locales (fact sourced_inv_init, fact sourced_inv_step)


section \<open>Stopping the source\<close>

text \<open>After the dispatcher was joined nobody calls back, and nobody will.\<close>

lemma joined_quiet:
  assumes "sourced_inv own st" and "dd_joined (so_dispatcher st)"
  shows "so_notifying st = {}" and "mset (own_completed own (so_dispatcher st)) = mset (own_accepted own (so_dispatcher st))"
    and "disp_step dr l (so_dispatcher st) d \<Longrightarrow> dd_completed d = dd_completed (so_dispatcher st)"
    and "pc_pending (so_source st) = of_nat (in_flight (pc_thread (so_source st)))"
proof -
  have inv: "disp_inv (so_dispatcher st)" using assms(1) by (simp add: sourced_inv_def)
  have ended: "dd_worker (so_dispatcher st) = Exited" "dd_cancelling (so_dispatcher st) = None"
    using inv assms(2) by (auto simp: disp_inv_def life_inv_def)
  show "so_notifying st = {}" using assms(1) ended by (auto simp: sourced_inv_def notify_inv_def)
  have "filter_mset (own_op own) (mset (map fst (dd_completed (so_dispatcher st)))) =
      filter_mset (own_op own) (mset (dd_accepted (so_dispatcher st)))"
    using joined_all_completed [OF inv assms(2)] by simp
  then show m: "mset (own_completed own (so_dispatcher st)) = mset (own_accepted own (so_dispatcher st))"
    by (simp add: own_completed_def own_accepted_def)
  show "pc_pending (so_source st) = of_nat (in_flight (pc_thread (so_source st)))"
    using assms(1) mset_eq_length [OF m] by (simp add: sourced_inv_def count_inv_def Let_def)
  show "dd_completed d = dd_completed (so_dispatcher st)" if "disp_step dr l (so_dispatcher st) d"
    using that ended by (cases rule: disp_step.cases)
      (auto simp: Dispatcher_start_def Dispatcher_submit_enter_def Dispatcher_submit_decide_def Dispatcher_request_stop_begin_def
        Let_def case_prod_beta split: if_splits)
qed

text \<open>The thread of a source that was asked to stop comes to its end, wherever it is.\<close>

lemma decide_joined:
  "Dispatcher_submit_decide dr now request completion d = (r, d') \<Longrightarrow> dd_joined d' = dd_joined d"
  by (auto simp: Dispatcher_submit_decide_def Let_def split: if_splits prod.splits)

lemma waiting_ends:
  assumes "pc_stop_requested (so_source st)" and "pc_thread (so_source st) \<in> {Src_test, Src_waiting}"
  shows "sourced_step own dr st (st\<lparr>so_source := (so_source st)\<lparr>pc_thread := Src_ended\<rparr>\<rparr>)"
  using assms by (intro sourced_step.turn) (auto simp: source_turn_def)

lemma answered_ends:
  assumes "pc_stop_requested (so_source st)" and "pc_thread (so_source st) = Src_answered r"
  shows "\<exists>s. (sourced_step own dr)\<^sup>*\<^sup>* st (st\<lparr>so_source := s\<rparr>) \<and> pc_thread s = Src_ended"
proof -
  obtain s where s: "source_turn (so_source st) = Some s" "pc_thread s \<in> {Src_ended, Src_waiting}" "pc_stop_requested s"
    using assms by (auto simp: source_turn_def complete_one_def Let_def)
  have step: "sourced_step own dr st (st\<lparr>so_source := s\<rparr>)" by (rule sourced_step.turn [OF s(1)])
  show ?thesis
  proof (cases "pc_thread s = Src_ended")
    case True
    then show ?thesis using step by blast
  next
    case False
    then have "sourced_step own dr (st\<lparr>so_source := s\<rparr>) (st\<lparr>so_source := s\<lparr>pc_thread := Src_ended\<rparr>\<rparr>)"
      using waiting_ends [of "st\<lparr>so_source := s\<rparr>"] s(2,3) by simp
    then show ?thesis using step by (intro exI [of _ "s\<lparr>pc_thread := Src_ended\<rparr>"]) (auto intro: converse_rtranclp_into_rtranclp)
  qed
qed

lemma source_thread_ends:
  assumes "sourced_inv own st" and "pc_stop_requested (so_source st)" and "dd_joined (so_dispatcher st)"
  shows "\<exists>st'. (sourced_step own dr)\<^sup>*\<^sup>* st st' \<and> pc_thread (so_source st') = Src_ended \<and> dd_joined (so_dispatcher st')"
proof -
  have answered: "\<exists>st'. (sourced_step own dr)\<^sup>*\<^sup>* st st' \<and> pc_thread (so_source st') = Src_ended \<and> dd_joined (so_dispatcher st')"
    if step: "sourced_step own dr st t" and t: "pc_stop_requested (so_source t)" "pc_thread (so_source t) = Src_answered r"
      "dd_joined (so_dispatcher t)" for t r
  proof -
    obtain s where "(sourced_step own dr)\<^sup>*\<^sup>* t (t\<lparr>so_source := s\<rparr>)" "pc_thread s = Src_ended" using answered_ends [OF t(1,2)] by blast
    then show ?thesis using step t(3)
      by (intro exI [of _ "t\<lparr>so_source := s\<rparr>"]) (auto intro: converse_rtranclp_into_rtranclp)
  qed
  show ?thesis
  proof (cases "pc_thread (so_source st)")
    case Src_none
    then show ?thesis using assms(1) by (simp add: sourced_inv_def count_inv_def Let_def)
  next
    case Src_test
    then have "sourced_step own dr st (st\<lparr>so_source := (so_source st)\<lparr>pc_thread := Src_ended\<rparr>\<rparr>)"
      by (intro waiting_ends [OF assms(2)]) simp
    then show ?thesis using assms(3)
      by (intro exI [of _ "st\<lparr>so_source := (so_source st)\<lparr>pc_thread := Src_ended\<rparr>\<rparr>"]) auto
  next
    case Src_waiting
    then have "sourced_step own dr st (st\<lparr>so_source := (so_source st)\<lparr>pc_thread := Src_ended\<rparr>\<rparr>)"
      by (intro waiting_ends [OF assms(2)]) simp
    then show ?thesis using assms(3)
      by (intro exI [of _ "st\<lparr>so_source := (so_source st)\<lparr>pc_thread := Src_ended\<rparr>\<rparr>"]) auto
  next
    case Src_submitting
    then show ?thesis using answered [OF sourced_step.refused [OF Src_submitting]] assms(2,3) by simp
  next
    case Src_entered
    obtain r d where "Dispatcher_submit_decide dr 0 (source_request 0 (so_source st)) (Some own) (so_dispatcher st) = (r, d)"
      by fastforce
    then show ?thesis
      using answered [OF sourced_step.decide [OF Src_entered]] decide_joined assms(2,3) by fastforce
  next
    case (Src_answered r)
    obtain s where "(sourced_step own dr)\<^sup>*\<^sup>* st (st\<lparr>so_source := s\<rparr>)" "pc_thread s = Src_ended"
      using answered_ends [OF assms(2) Src_answered] by blast
    then show ?thesis using assms(3) by (intro exI [of _ "st\<lparr>so_source := s\<rparr>"]) simp
  next
    case Src_ended
    then show ?thesis using assms(3) by blast
  qed
qed

lemma ended_stops:
  assumes "sourced_inv own st" and "dd_joined (so_dispatcher st)" and "pc_thread (so_source st) = Src_ended"
  shows "PeriodicControlSource_stop (so_source st) = Some ((so_source st)\<lparr>pc_joinable := False\<rparr>)"
  using joined_quiet(4) [OF assms(1,2)] assms(3) by (simp add: PeriodicControlSource_stop_def)

text \<open>A created source has a device for every turn and a positive interval.\<close>

lemma created_source:
  assumes "create_control_source J settings = Some s"
  shows "pc_device_ids s \<noteq> [] \<and> 0 < pc_interval s \<and> 0 < pc_timeout s \<and> pc_device_index s < length (pc_device_ids s)"
proof -
  have grows: "rfold (pj_string_array_item J key plugin) acc xs = Inr ys \<Longrightarrow> length ys = length acc + length xs" for key plugin acc xs ys
    by (induction xs arbitrary: acc) (auto simp: rfold_Cons_iff pj_string_array_item_def pj_fail_def Let_def split: if_splits)
  have ids: "ids \<noteq> []" if "pj_string_array_member J obj key plugin True = Inr ids" for obj key plugin ids
    using that grows by (auto simp: pj_string_array_member_def pj_fail_def rbind_Inr_iff split: if_splits) fastforce
  have positive: "0 < i" if "pj_milliseconds_member J obj key plugin True = Inr i" for obj key plugin i
    using that by (auto simp: pj_milliseconds_member_def pj_fail_def rbind_Inr_iff word_less_def [symmetric] split: if_splits)
      (metis uint_nonnegative unsigned_eq_0_iff le_less)
  show ?thesis
    using assms ids positive
    by (auto simp: create_control_source_def null_on_throw_def make_control_source_def Let_def rbind_Inr_iff
        PeriodicControlSource_new_def split: sum.splits)
qed

section \<open>Property\<close>

text \<open>C13: the periodic source can be destroyed once the dispatcher is joined. In every reachable state in which the dispatcher has been joined,
  as the gateway does before it stops its sources: every request of the source that was accepted has been completed, no
  thread is inside the source's callback, not even between its decrement and its notification, and no step of the
  dispatcher will ever call it again; and if the source was asked to stop, its thread comes to its end and then \<open>stop\<close>
  returns. The count of pending completions never wraps around.\<close>

theorem periodic_source_stops_safely:
  assumes "reachable sourced_init (sourced_step own dr) st" and "dd_joined (so_dispatcher st)"
  shows "mset (own_completed own (so_dispatcher st)) = mset (own_accepted own (so_dispatcher st)) \<and>
    so_notifying st = {} \<and>
    (\<forall>l d. disp_step dr l (so_dispatcher st) d \<longrightarrow> dd_completed d = dd_completed (so_dispatcher st)) \<and>
    unat (pc_pending (so_source st)) \<le> 1 \<and>
    (pc_stop_requested (so_source st) \<longrightarrow>
       (\<exists>st' s. (sourced_step own dr)\<^sup>*\<^sup>* st st' \<and> pc_thread (so_source st') = Src_ended \<and>
          PeriodicControlSource_stop (so_source st') = Some s))"
proof -
  have inv: "sourced_inv own st" by (rule sourced.reachable_inv [OF assms(1)])
  have pending: "pc_pending (so_source st) = of_nat (in_flight (pc_thread (so_source st)))"
    by (rule joined_quiet(4) [OF inv assms(2)])
  have "in_flight (pc_thread (so_source st)) \<le> 1" by (cases "pc_thread (so_source st)") simp_all
  then have count: "unat (pc_pending (so_source st)) \<le> 1" unfolding pending by (cases "in_flight (pc_thread (so_source st))") simp_all
  have ends: "\<exists>st' s. (sourced_step own dr)\<^sup>*\<^sup>* st st' \<and> pc_thread (so_source st') = Src_ended \<and>
      PeriodicControlSource_stop (so_source st') = Some s" if requested: "pc_stop_requested (so_source st)"
  proof -
    obtain st' where st': "(sourced_step own dr)\<^sup>*\<^sup>* st st'" "pc_thread (so_source st') = Src_ended" "dd_joined (so_dispatcher st')"
      using source_thread_ends [OF inv requested assms(2)] by blast
    have inv': "sourced_inv own st'" by (rule sourced.rtranclp_inv [OF st'(1) inv])
    show ?thesis by (rule exI, rule exI, intro conjI) (rule st'(1), rule st'(2), rule ended_stops [OF inv' st'(3,2)])
  qed
  show ?thesis
  proof (intro conjI)
    show "mset (own_completed own (so_dispatcher st)) = mset (own_accepted own (so_dispatcher st))"
      by (rule joined_quiet(2) [OF inv assms(2)])
    show "so_notifying st = {}" by (rule joined_quiet(1) [OF inv assms(2)])
    show "\<forall>l d. disp_step dr l (so_dispatcher st) d \<longrightarrow> dd_completed d = dd_completed (so_dispatcher st)"
      using joined_quiet(3) [OF inv assms(2)] by blast
    show "unat (pc_pending (so_source st)) \<le> 1" by (rule count)
    show "pc_stop_requested (so_source st) \<longrightarrow> (\<exists>st' s. (sourced_step own dr)\<^sup>*\<^sup>* st st' \<and>
        pc_thread (so_source st') = Src_ended \<and> PeriodicControlSource_stop (so_source st') = Some s)"
      using ends by blast
  qed
qed


text \<open>A run with a request executed, one rejected after the stop, and everything joined.\<close>

datatype 'c source_action =
    SA_request_stop | SA_turn | SA_enter | SA_decide int int | SA_dispatcher "'c Control.action" | SA_notify label

fun sourced_act ::
  "'c \<Rightarrow> (string \<Rightarrow> 'drv option result) \<Rightarrow> 'c source_action \<Rightarrow> 'c sourced \<Rightarrow> 'c sourced option" where
  "sourced_act own dr SA_request_stop st = Some (st\<lparr>so_source := PeriodicControlSource_request_stop (so_source st)\<rparr>)"
| "sourced_act own dr SA_turn st = map_option (\<lambda>s. st\<lparr>so_source := s\<rparr>) (source_turn (so_source st))"
| "sourced_act own dr SA_enter st =
     (case pc_thread (so_source st) of
        Src_submitting \<Rightarrow>
          Some (st\<lparr>so_source := (so_source st)\<lparr>pc_thread := Src_entered\<rparr>,
            so_dispatcher := (Dispatcher_submit_enter (so_dispatcher st))\<lparr>dd_entered := dd_entered (so_dispatcher st) + 1\<rparr>\<rparr>)
      | _ \<Rightarrow> None)"
| "sourced_act own dr (SA_decide now clock) st =
     (case pc_thread (so_source st) of
        Src_entered \<Rightarrow>
          (let (r, d) = Dispatcher_submit_decide dr now (source_request clock (so_source st)) (Some own) (so_dispatcher st)
           in Some (st\<lparr>so_source := (so_source st)\<lparr>pc_thread := Src_answered r\<rparr>,
                so_dispatcher := d\<lparr>dd_entered := dd_entered (so_dispatcher st) - 1\<rparr>\<rparr>))
      | _ \<Rightarrow> None)"
| "sourced_act own dr (SA_dispatcher a) st =
     (case act dr a (so_dispatcher st) of
        None \<Rightarrow> None
      | Some d \<Rightarrow>
          if act_label a \<in> so_notifying st \<or> length (own_accepted own d) \<noteq> length (own_accepted own (so_dispatcher st)) \<or>
             act_label a = L_submit
          then None
          else let n = length (own_completed own d) - length (own_completed own (so_dispatcher st))
               in Some (st\<lparr>so_source := (complete_one ^^ n) (so_source st), so_dispatcher := d,
                    so_notifying := (if n = 0 then so_notifying st else insert (act_label a) (so_notifying st))\<rparr>))"
| "sourced_act own dr (SA_notify l) st = Some (st\<lparr>so_notifying := so_notifying st - {l}\<rparr>)"

fun sourced_acts ::
  "'c \<Rightarrow> (string \<Rightarrow> 'drv option result) \<Rightarrow> 'c source_action list \<Rightarrow> 'c sourced \<Rightarrow> 'c sourced option" where
  "sourced_acts own dr [] st = Some st"
| "sourced_acts own dr (a # as) st = Option.bind (sourced_act own dr a st) (sourced_acts own dr as)"

text \<open>Outside \<open>submit\<close> the dispatcher accepts nothing and leaves the submitters alone.\<close>

lemma disp_step_accepts:
  assumes "disp_step dr l d d'" and "l \<noteq> L_submit"
  shows "dd_accepted d' = dd_accepted d" and "dd_entered d' = dd_entered d"
proof -
  have "dd_accepted d' = dd_accepted d \<and> dd_entered d' = dd_entered d"
    using assms
  proof (cases rule: disp_step.cases)
    case (worker_execute operation env)
    then show ?thesis using execute_effect [of env operation d] by auto
  qed (auto simp: Dispatcher_start_def Dispatcher_request_stop_begin_def Dispatcher_complete_def Let_def case_prod_beta
      split: if_splits)
  then show "dd_accepted d' = dd_accepted d" "dd_entered d' = dd_entered d" by simp_all
qed

lemma sourced_act_step:
  assumes "sourced_act own dr a st = Some st'" and "sourced_inv own st"
  shows "sourced_step own dr st st'"
proof (cases a)
  case (SA_dispatcher b)
  then obtain d n where d: "act dr b (so_dispatcher st) = Some d" "act_label b \<notin> so_notifying st" "act_label b \<noteq> L_submit"
    "n = length (own_completed own d) - length (own_completed own (so_dispatcher st))"
    "st' = st\<lparr>so_source := (complete_one ^^ n) (so_source st), so_dispatcher := d,
       so_notifying := (if n = 0 then so_notifying st else insert (act_label b) (so_notifying st))\<rparr>"
    using assms(1) by (auto simp: Let_def split: option.splits if_splits)
  note step = act_label_step [OF d(1)]
  show ?thesis
    unfolding d(5)
  proof (rule sourced_step.dispatcher [OF step d(2) _ _ d(4)])
    show "own_accepted own d = own_accepted own (so_dispatcher st)"
      using disp_step_accepts(1) [OF step d(3)] by (simp add: own_accepted_def)
    show "0 < dd_entered d" if "pc_thread (so_source st) = Src_entered"
      using disp_step_accepts(2) [OF step d(3)] assms(2) that by (simp add: sourced_inv_def count_inv_def Let_def)
  qed
next
  case SA_enter
  then show ?thesis using assms(1) sourced_step.enter by (auto split: source_thread.splits)
next
  case (SA_decide now clock)
  then show ?thesis using assms(1) sourced_step.decide by (fastforce split: source_thread.splits prod.splits)
qed (use assms(1) in \<open>auto intro: sourced_step.intros\<close>)

lemma sourced_acts_reachable:
  "reachable sourced_init (sourced_step own dr) st \<Longrightarrow> sourced_acts own dr as st = Some st' \<Longrightarrow>
     reachable sourced_init (sourced_step own dr) st'"
proof (induction as arbitrary: st)
  case (Cons a as)
  then obtain t where t: "sourced_act own dr a st = Some t" "sourced_acts own dr as t = Some st'"
    by (auto simp: bind_eq_Some_conv)
  have "sourced_inv own st" by (rule sourced.reachable_inv [OF Cons.prems(1)])
  then have "reachable sourced_init (sourced_step own dr) t"
    using reachable.step [OF Cons.prems(1)] sourced_act_step [OF t(1)] by blast
  then show ?case using Cons.IH t(2) by blast
qed simp

definition example_source :: PeriodicControlSource where
  "example_source = (PeriodicControlSource_new ''sim'' [''plc''] ''print'' 500 250)
     \<lparr>pc_sink := True, pc_configured := True, pc_joinable := True, pc_thread := Src_test, pc_started := True\<rparr>"

definition example_sourced :: "nat sourced" where
  "example_sourced = \<lparr>so_source = example_source, so_dispatcher = example_dispatcher, so_notifying = {}\<rparr>"

definition source_moves :: "nat source_action list" where
  "source_moves = [SA_dispatcher A_start, SA_turn, SA_enter, SA_decide 1 2, SA_dispatcher (A_worker example_env), SA_turn,
     SA_dispatcher (A_worker example_env), SA_turn, SA_notify L_worker, SA_turn, SA_enter, SA_request_stop,
     SA_dispatcher (A_stop_begin True), SA_decide 3 4, SA_dispatcher A_stop,
     SA_dispatcher (A_worker example_env), SA_dispatcher A_join, SA_dispatcher A_join]"

definition example_quiet :: "nat sourced" where
  "example_quiet = the (sourced_acts 7 example_resolver source_moves example_sourced)"

lemma example_sourced_init: "sourced_init example_sourced"
  unfolding sourced_init_def
proof (intro conjI)
  show "disp_init (so_dispatcher example_sourced)"
    unfolding disp_init_def
    by (intro exI [of _ 2] exI [of _ True]) (simp add: example_sourced_def example_dispatcher_def Dispatcher_new_def ControlQueue_new_def)
  show "so_notifying example_sourced = {}" by (simp add: example_sourced_def)
  have "PeriodicControlSource_start None ((PeriodicControlSource_new ''sim'' [''plc''] ''print'' 500 250)
      \<lparr>pc_sink := True, pc_configured := True\<rparr>) = Inr (so_source example_sourced)"
    by (simp add: PeriodicControlSource_start_def PeriodicControlSource_new_def example_source_def example_sourced_def)
  moreover have "PeriodicControlSource_configure True (PeriodicControlSource_new ''sim'' [''plc''] ''print'' 500 250) =
      Inr ((PeriodicControlSource_new ''sim'' [''plc''] ''print'' 500 250)\<lparr>pc_sink := True, pc_configured := True\<rparr>)"
    by (simp add: PeriodicControlSource_configure_def PeriodicControlSource_new_def)
  ultimately show "\<exists>prefix device_ids command interval timeout s. device_ids \<noteq> [] \<and>
      PeriodicControlSource_configure True (PeriodicControlSource_new prefix device_ids command interval timeout) = Inr s \<and>
      PeriodicControlSource_start None s = Inr (so_source example_sourced)"
    by (metis list.distinct(1))
qed

theorem periodic_source_stops_safely_witness:
  "length (own_accepted 7 (so_dispatcher example_quiet)) = 1 \<and> length (own_completed 7 (so_dispatcher example_quiet)) = 1 \<and>
   pc_thread (so_source example_quiet) = Src_answered Sub_Stopping \<and> so_notifying example_quiet = {} \<and>
   (\<exists>st' s. (sourced_step 7 example_resolver)\<^sup>*\<^sup>* example_quiet st' \<and> pc_thread (so_source st') = Src_ended \<and>
      PeriodicControlSource_stop (so_source st') = Some s)"
proof -
  have "sourced_acts 7 example_resolver source_moves example_sourced \<noteq> None" by code_simp
  then have run: "sourced_acts 7 example_resolver source_moves example_sourced = Some example_quiet"
    by (auto simp: example_quiet_def)
  have v: "dd_joined (so_dispatcher example_quiet)" "pc_stop_requested (so_source example_quiet)"
    "length (own_accepted 7 (so_dispatcher example_quiet)) = 1" "length (own_completed 7 (so_dispatcher example_quiet)) = 1"
    "pc_thread (so_source example_quiet) = Src_answered Sub_Stopping"
    by code_simp+
  have "reachable sourced_init (sourced_step 7 example_resolver) example_quiet"
    by (rule sourced_acts_reachable [OF _ run]) (rule reachable.start, rule example_sourced_init)
  from periodic_source_stops_safely [OF this v(1)] v show ?thesis by blast
qed

end
