(* ===== verification/Spec2Isabelle.thy ===== *)
theory Spec2Isabelle
  imports Gateway_Main Mqtt Control_Spec Control_Counters Number_Roundtrip Stop_Execution Simulators Periodic_Source
begin

text \<open>
  miniGateway is a single-process edge gateway. Drivers deliver raw batches, either polled by a
  scheduler or pushed; a bounded queue hands them to one worker that normalizes, processes and
  publishes them; control requests for devices run through a dispatcher of their own. Drivers,
  processors, publishers and control sources are plugins in shared libraries. This development models
  the C++ code under \<open>src/include\<close>, \<open>src/src\<close> and \<open>src/tests/simulation\<close> in executable definitions and proves
  what makes each part, and their composition, correct.

  \<^bold>\<open>How the parts interact.\<close> \<open>main\<close> (\<open>Gateway_Main\<close>) loads the configuration (\<open>Config\<close>), loads the libraries
  and creates the plugins (\<open>Plugin_Registry\<close>), and runs a \<open>GatewayRuntime\<close> (\<open>Runtime\<close>) until a signal or
  the end of the run duration. The runtime owns a \<open>SchedulerEngine\<close> (\<open>Scheduler\<close>), whose callback is
  \<open>poll_group\<close>; a \<open>BoundedQueue\<close> of raw batches (\<open>Bounded_Queue\<close>); the worker \<open>process_batches\<close>, which
  passes a batch through \<open>Normalizer\<close>, \<open>ProcessingPipeline\<close> (\<open>Processing\<close>, with the plugins of
  \<open>Processors\<close>) and \<open>publish_event\<close> (for one publisher, see \<open>Mqtt\<close>); and a
  \<open>DeviceControlDispatcher\<close> (\<open>Control\<close>). Polls and control calls of a device exclude each other through
  the device's timed mutex.

  \<^bold>\<open>Theories, in the order of their imports.\<close>
  \<^item> \<open>Prelude\<close>: 64-bit words, C++ exceptions as values of a sum type, throwing loops (\<open>rfold\<close>),
    and three locales: \<open>unique_insert\<close> and \<open>unique_names\<close> for loops that refuse duplicates against an
    \<open>unordered_set\<close>, \<open>state_machine\<close> for invariants of step relations.
  \<^item> \<open>Double\<close>, \<open>Text\<close>: IEEE binary64 with round to nearest even, \<open>llround\<close>, \<open>sqrt\<close>; number output and
    \<open>from_chars\<close>. They model the standard library as far as the gateway uses it.
  \<^item> \<open>Data_Model\<close>: \<open>model.hpp\<close>, \<open>model.cpp\<close>. Scalars, qualities, points, batches, readings, events.
  \<^item> \<open>Normalizer\<close>: \<open>normalizer.hpp\<close>, \<open>normalizer.cpp\<close>. A good reading comes from a good sample of a configured
    point, has its type and unit and lies within its limits; event ids are unique; the
    constructor accepts exactly the well-formed device lists; integer conversion rounds to nearest, with
    the one overflow its range test lets through.
  \<^item> \<open>Queue_Contract\<close>, \<open>Bounded_Queue\<close>: \<open>bounded_queue.hpp\<close> and the locales \<open>bounded_fifo\<close> and
    \<open>cancellable_fifo\<close> that both queues of the gateway are interpretations of. First-in first-out, bounded,
    counted, and drained after a close.
  \<^item> \<open>Scheduler\<close>: \<open>scheduler.hpp\<close>, \<open>scheduler.cpp\<close>. The policy interface is the locale \<open>schedule_order\<close>, and
    \<open>schedule_policy\<close> where its operations always return. The fixed-interval policy in 64-bit arithmetic
    (\<open>policy_on_complete64\<close>) is an interpretation of the first; in exact arithmetic (\<open>policy_on_complete\<close>) it is one of the
    second, and the two agree while every sum of a clock reading and an interval fits in 64 bits. Selection is earliest-due-first,
    catching up ends on the grid point after the poll, a due task is not starved, a requested stop ends the worker.
  \<^item> \<open>Control\<close>, \<open>Control_Spec\<close>, \<open>Control_Counters\<close>: \<open>control.hpp\<close>, \<open>control_internal.hpp\<close>, \<open>control.cpp\<close>. The dispatcher is a
    step relation over its clients, worker, stopping and joining threads. Every accepted request is
    completed exactly once, in acceptance order when executed; a stop always completes;
    and the whole refines an abstract control desk. \<open>Control\<close> lets a submission decide and count in one step and an execution run
    its critical sections in one step; \<open>Control_Counters\<close> takes these apart (\<open>count_step\<close>), refines \<open>Control\<close> statistics apart, and
    proves the counters exact up to the threads between two critical sections.
  \<^item> \<open>Processing\<close>, \<open>Processors\<close>: \<open>processing.hpp\<close>, \<open>processing.cpp\<close>, \<open>processors.hpp\<close> and \<open>src/processor\<close>.
    The locale \<open>data_processor\<close> states what a processor keeps of an event; the three processors
    interpret it. A throwing processor is isolated; the built-in ones only append derived readings.
  \<^item> \<open>Runtime\<close>: \<open>runtime.hpp\<close>, \<open>runtime.cpp\<close>, \<open>acquisition.hpp\<close>, \<open>event_publisher.hpp\<close>,
    \<open>device_control_source.hpp\<close>. Construction, start with rollback, stop, polling, the processing worker,
    publishing, control submission, statistics. Every call into a plugin is appended to a log
    (\<open>rt_calls\<close>), and the theorems on start and stop speak of that log: stopping happens in one order,
    drains the queue before the publishers stop, and a failed start undoes exactly what was started. The
    locale \<open>counted_start\<close> is shared by the three start loops.
  \<^item> \<open>Json_Interface\<close>, \<open>Config\<close>, \<open>Plugin_Json\<close>: \<open>config.hpp\<close>, \<open>config.cpp\<close>, \<open>plugin_json.hpp\<close> and the
    processors' \<open>create_plugin\<close>. A configuration that parses is consistent; a created processor is
    well-formed.
  \<^item> \<open>Json_Text\<close>, \<open>Mqtt\<close>: \<open>mqtt_event_publisher.hpp\<close>, \<open>mqtt_event_publisher.cpp\<close>. The payload is in the
    grammar of JSON (RFC 8259, as an inductive predicate) and its strings decode to what was
    encoded; the calls to Paho, replayed, use live handles only and leave none; publications are accounted
    for; topics are valid and unambiguous.
  \<^item> \<open>Number_Roundtrip\<close>: reading the numbers of the payload back. The seventeen digits of a double determine it.
  \<^item> \<open>Plugin_Registry\<close>: \<open>plugin_registry.hpp\<close>, \<open>plugin_registry.cpp\<close>, \<open>plugin_api.hpp\<close>. After a successful
    load every type in use has a factory and no two types share a library; creation follows
    the order of the configuration; a library is closed once, after the last object made from it. The adapter classes
    \<open>LoadedDriver\<close>, \<open>LoadedProcessor\<close>, \<open>LoadedPublisher\<close> and \<open>LoadedControlSource\<close> hold the same members, so one type of
    library, object and destroy function stands for the four; their methods are definitions of their own.
  \<^item> \<open>Gateway_Threads\<close>: \<open>runtime.cpp\<close>, \<open>scheduler.cpp\<close>, \<open>control.cpp\<close> once more, with every thread taking its own steps:
    \<open>gateway_act\<close> is the next step of a driver that pushes, a control source, the scheduler between the selection of a task (\<open>Poll_select\<close>, under its mutex) and its poll (\<open>Poll_begin\<close>,
    \<open>Poll_end\<close>, \<open>Poll_skip\<close>, without it), the batch worker, the dispatcher's worker in and out of a driver, and the thread inside \<open>stop\<close> (\<open>stop_act\<close>). It
    reuses the definitions of the sequential theories for what a step does; the answers an execution of a control gets agree
    with the gateway's drivers and gates (\<open>answers_agree\<close>, \<open>lock_agrees\<close>). The invariants say
    where the accepted batches are, who holds which I/O gate, how far each thread is in each phase of \<open>stop\<close> and which
    calls have been made. The locale \<open>submitting_processor\<close> is what a processor may do to the rest
    of the gateway; the built-in processors interpret it, behind their adapters too.
  \<^item> \<open>Gateway_Shutdown\<close>: whom \<open>stop\<close> waits for, a measure of the work left, and the theorems on all executions: no
    batch is lost, the gateway falls silent in order, nothing is left running, no circular wait, and \<open>stop\<close> returns.
  \<^item> \<open>Stop_Execution\<close>: the function for \<open>stop\<close> in \<open>Runtime\<close> computes what one of the executions of \<open>Gateway_Threads\<close> leaves behind.
  \<^item> \<open>Protocol\<close>: what is alive after a list of calls (\<open>tracks\<close>) and after a trace of the threads (\<open>follows\<close>), or that something
    was used before it was started or after it was stopped. In every execution the gateway follows that protocol.
  \<^item> \<open>Lifecycle\<close>: what running threads leave alone between \<open>start\<close> and \<open>stop\<close>, the calls of the gateway's owner in any order
    (\<open>lifetime\<close>), and the destructor, after which nothing is left running.
  \<^item> \<open>Gateway_Main\<close>: \<open>main.cpp\<close>. Waiting ends, and \<open>main\<close> leaves a stopped gateway behind.
  \<^item> \<open>Simulators\<close>: \<open>tests/simulation\<close> without the control source: the polling and the pushing simulator and the print publisher.
    A polled simulator's samples become readings of the simulated values; the pushing simulator and the raw queue agree on what was
    accepted and what was refused.
  \<^item> \<open>Periodic_Source\<close>: \<open>periodic_control_source.cpp\<close>, a source with its own thread, interleaved with the threads of the
    dispatcher (\<open>sourced_step\<close>). The invariant is that \<open>pending_\<close> counts its accepted and uncompleted requests; it gives
    that the source can be stopped and destroyed once the dispatcher is joined.
  \<^item> This theory: the composition of parser, registry and runtime. A parsed configuration with
    created plugins is accepted by the runtime's constructor.

  \<^bold>\<open>Parameters.\<close> Code outside the repository and choices of the environment are arguments:
  the operations of \<open>nlohmann::json\<close> (a record of functions, with an implementation on trees for the
  witnesses), the Paho library (its constants, return codes and callbacks), the dynamic loader and the
  exported functions of plugin libraries, the answers of drivers, publishers and control sources (values or exceptions),
  the file system, both clocks, whether a lock is obtained in time, and the moment a signal
  arrives. \<open>std::llround\<close> outside its range is an arbitrary function.

  \<^bold>\<open>Threads.\<close> What a thread does under one mutex is one step; \<open>Control\<close> and the theories above it let a submission or an execution
  count within its step, which only the statistics show. The dispatcher, which is
  used by several threads at once, is a step relation with all interleavings. The queue's operations are
  single steps and its theorems quantify over their sequences. The whole gateway is the transition system of
  \<open>Gateway_Threads\<close>, whose theorems quantify over all executions. In \<open>Runtime\<close> \<open>start\<close> and \<open>stop\<close> are also functions, for
  their order of calls and their rollback; there the effect of other threads (pushes that come before the close,
  control requests still running) is an argument, the join of the dispatcher is an argument that returns, and the join of the
  scheduler returns because its stop was requested; \<open>gateway_shutdown_completes\<close> is about the joins of the threads. The scheduler's loop is a sequence of turns, each with the clock
  readings and the outcome of its poll. \<open>main\<close> runs the functions and may let any execution of the threads happen in between.

  \<^bold>\<open>Loops and fuel.\<close> \<open>catch_up64\<close> and \<open>catch_up\<close> are \<^theory_text>\<open>partial_function\<close>s whose results are proved to exist, the former
  while the sums fit in 64 bits.
  \<open>process_batches\<close> runs with the number of waiting batches plus one turns: the queue is closed
  then, each turn takes one batch and the last sees the end, and \<open>stop_orderly\<close> proves that a
  result is returned. \<open>wait_until\<close> and \<open>wait_for_signal\<close> take a number of turns; \<open>d/100 + 2\<close> turns are
  proved enough for a duration of \<open>d\<close> milliseconds when the clock never falls behind the sleep it was asked for.
  All other loops are structural.

  \<^bold>\<open>Integers.\<close> Counters are 64-bit words and wrap or saturate as in the code. Event sequence numbers
  are 64-bit words. Time points and durations are integers of nanoseconds and milliseconds. Where the scheduler's policy adds
  intervals to time points the sums wrap around in 64 bits (\<open>add_interval\<close>); elsewhere, in the turns of \<open>Gateway_Threads\<close> too, they
  are exact. \<open>interval_overflow_accepted\<close> (in \<open>Config\<close>) shows an accepted configuration whose interval the clock cannot represent.

  \<^bold>\<open>Not modelled.\<close> The Windows branches (\<open>LoadLibraryW\<close>, wide paths); failing allocation, except where
  \<open>request_stop\<close> handles it; memory orderings of the atomics, which are read as sequentially
  consistent; a second caller of \<open>stop\<close> that waits for the
  first; the return code of \<open>MQTTAsync_disconnect\<close> beyond the wait it decides on, since \<open>stop\<close> destroys
  the handle in any case; the duration of a wait on a condition variable, which ends at any time here, so that a
  notification lost between the test and the wait costs nothing; the test programs, which hold assertions only;
  build files, documentation and sample configurations, which hold no program logic. The periodic source runs against the
  dispatcher alone and not inside \<open>Gateway_Threads\<close>, where a control source is any caller of \<open>submit_control\<close>.
\<close>

section \<open>From configuration to gateway\<close>

text \<open>What a throwing loop had done when it threw.\<close>

lemma rfold_Inl_split:
  "rfold f s xs = Inl e \<Longrightarrow> \<exists>ys x zs t. xs = ys @ x # zs \<and> rfold f s ys = Inr t \<and> f t x = Inl e"
proof (induction xs arbitrary: s)
  case (Cons x xs)
  show ?case
  proof (cases "f s x")
    case (Inl a)
    then show ?thesis using Cons.prems by (intro exI [of _ "[]"]) auto
  next
    case (Inr t)
    then have "rfold f t xs = Inl e" using Cons.prems by simp
    from Cons.IH [OF this] obtain ys y zs u where "xs = ys @ y # zs" "rfold f t ys = Inr u" "f u y = Inl e" by blast
    then show ?thesis using Inr by (intro exI [of _ "x # ys"]) auto
  qed
qed simp

lemma parsed_good: "parse_config J text source = Inr config \<Longrightarrow> good_config config"
  using parse_application_config_good [of J] by (auto simp: parse_config_def Let_def split: sum.splits)

text \<open>The exceptions of plugins that construction passes on, and the one complaint about the configuration that
  only the plugins' answers can decide.\<close>

definition plugin_refused where
  "plugin_refused pg config i e \<longleftrightarrow>
     (\<exists>x \<in> set (in_drivers i). \<exists>device. pg_driver_configure pg (the (di_driver x)) device = Some e) \<or>
     (\<exists>x \<in> set (in_drivers i). pg_driver_capabilities pg (the (di_driver x)) = Inl e) \<or>
     (\<exists>x \<in> set (in_event_publishers i). pg_publisher_configure pg (the (pi_publisher x)) (ac_gateway config) = Some e) \<or>
     (\<exists>s \<in> set (in_sources i). pg_source_configure pg (the s) = Some e) \<or>
     (\<exists>g \<in> set (gw_groups (ac_gateway config)). \<exists>x \<in> set (in_drivers i). di_device_id x = grp_device_id g \<and>
        pg_driver_capabilities pg (the (di_driver x)) = Inr Mode_Push \<and>
        e = Invalid_argument (''push device cannot own a collection group: '' @ grp_id g))"

lemma driver_loop_errors:
  assumes "rfold (validate_driver pg config) ([], Map.empty) ds = Inl e"
    and "map di_device_id ds = map dev_id (gw_devices config)" "distinct (map dev_id (gw_devices config))"
    and "\<forall>d \<in> set (gw_devices config). dev_id d \<noteq> []" "\<forall>x \<in> set ds. di_driver x \<noteq> None"
  shows "\<exists>x \<in> set ds. (\<exists>device. pg_driver_configure pg (the (di_driver x)) device = Some e) \<or>
    pg_driver_capabilities pg (the (di_driver x)) = Inl e"
proof -
  from rfold_Inl_split [OF assms(1)] obtain ys x zs ids modes where
    s: "ds = ys @ x # zs" "rfold (validate_driver pg config) ([], Map.empty) ys = Inr (ids, modes)"
      "validate_driver pg config (ids, modes) x = Inl e" by force
  have "ids = rev (map di_device_id ys)" using validate_drivers [OF s(2)] by simp
  moreover have "distinct (map di_device_id ds)" using assms(2,3) by simp
  ultimately have new: "di_device_id x \<notin> set ids" using s(1) by auto
  have "di_device_id x \<in> set (map dev_id (gw_devices config))" unfolding assms(2) [symmetric] using s(1) by simp
  then obtain device where d: "find_device config (di_device_id x) = Inr device" "di_device_id x \<noteq> []"
    using assms(4) by (fastforce simp: find_device_def find_None_iff split: option.splits)
  obtain driver where "di_driver x = Some driver" using assms(5) s(1) by auto
  with s(3) new d have "pg_driver_configure pg (the (di_driver x)) device = Some e \<or>
      pg_driver_capabilities pg (the (di_driver x)) = Inl e"
    by (auto simp: validate_driver_def rbind_Inl_iff split: option.splits)
  then show ?thesis using s(1) by auto
qed

lemma group_loop_errors:
  assumes "rfold (validate_group modes) [] gs = Inl e" and "distinct (map grp_id gs)"
    and "\<forall>g \<in> set gs. grp_id g \<noteq> [] \<and> 0 < grp_interval g \<and> 0 < grp_timeout g"
  shows "\<exists>g \<in> set gs. modes (grp_device_id g) \<noteq> Some Mode_Poll \<and>
    e = Invalid_argument (''push device cannot own a collection group: '' @ grp_id g)"
proof -
  from rfold_Inl_split [OF assms(1)] obtain ys g zs ids where
    s: "gs = ys @ g # zs" "rfold (validate_group modes) [] ys = Inr ids" "validate_group modes ids g = Inl e" by force
  have "ids = rev (map grp_id ys)" using s(2) by (simp add: groups.fold_iff)
  then have "grp_id g \<notin> set ids" using assms(2) s(1) by auto
  with s assms(3) show ?thesis by (auto simp: validate_group_def split: if_splits)
qed

lemma publisher_loop_errors:
  assumes "rfold (validate_publisher pg config) [] ps = Inl e" and "distinct (map pi_id ps)"
    and "\<forall>x \<in> set ps. pi_id x \<noteq> [] \<and> pi_publisher x \<noteq> None"
  shows "\<exists>x \<in> set ps. pg_publisher_configure pg (the (pi_publisher x)) config = Some e"
proof -
  from rfold_Inl_split [OF assms(1)] obtain ys x zs ids where
    s: "ps = ys @ x # zs" "rfold (validate_publisher pg config) [] ys = Inr ids"
      "validate_publisher pg config ids x = Inl e" by force
  have "ids = rev (map pi_id ys)" using s(2) by (simp add: publisher_names.fold_iff)
  then have "pi_id x \<notin> set ids" using assms(2) s(1) by auto
  with s assms(3) show ?thesis by (auto simp: validate_publisher_def split: option.splits)
qed

text \<open>The checks a parsed configuration cannot fail.\<close>

lemma good_config_parts:
  assumes "good_config config"
  shows "BoundedQueue_new (raw_queue_capacity (ac_gateway config)) \<noteq> Inl e"
    and "Normalizer_new (ac_gateway config) \<noteq> Inl e"
    and "Dispatcher_new (control_queue_capacity (ac_gateway config)) True True \<noteq> Inl e"
proof -
  show "BoundedQueue_new (raw_queue_capacity (ac_gateway config)) \<noteq> Inl e"
    "Dispatcher_new (control_queue_capacity (ac_gateway config)) True True \<noteq> Inl e"
    using assms by (simp_all add: good_config_def BoundedQueue_new_def Dispatcher_new_def ControlQueue_new_def)
  have "\<exists>nz. Normalizer_new (ac_gateway config) = Inr nz"
    using assms by (auto simp: good_config_def good_device_def Normalizer_new_def rbind_Inr_iff devices.fold_empty_iff)
  then show "Normalizer_new (ac_gateway config) \<noteq> Inl e" by auto
qed

lemma pipeline_accepts: "None \<notin> set ps \<Longrightarrow> ProcessingPipeline_new ps control \<noteq> Inl e"
  by (simp add: ProcessingPipeline_new_def)

lemma distinct_map_filter: "distinct (map f xs) \<Longrightarrow> distinct (map f (filter P xs))"
  by (induction xs) auto

lemma validate_errors:
  assumes "validate_and_configure pg (ac_gateway config) (in_drivers i) (in_event_publishers i) = Inl e"
    and good: "good_config config" and created: "PluginRegistry_create r config = Inr i"
  shows "plugin_refused pg config i e"
proof -
  let ?gw = "ac_gateway config"
  have dev: "map di_device_id (in_drivers i) = map dev_id (gw_devices ?gw)" "distinct (map dev_id (gw_devices ?gw))"
    "\<forall>d \<in> set (gw_devices ?gw). dev_id d \<noteq> []" "\<forall>x \<in> set (in_drivers i). di_driver x \<noteq> None"
    using created_shape(1,5) [OF created] good by (auto simp: good_config_def good_device_def valid_device_def)
  have pub: "distinct (map pi_id (in_event_publishers i))" "\<forall>x \<in> set (in_event_publishers i). pi_id x \<noteq> [] \<and> pi_publisher x \<noteq> None"
  proof -
    have ids: "map pi_id (in_event_publishers i) = map pc_id (filter pc_enabled (ac_event_publishers config))"
      by (rule created_shape(2) [OF created])
    then show "distinct (map pi_id (in_event_publishers i))"
      using good distinct_map_filter [of pc_id "ac_event_publishers config" pc_enabled] by (simp add: good_config_def)
    have "[] \<notin> set (map pi_id (in_event_publishers i))" unfolding ids using good by (auto simp: good_config_def)
    then show "\<forall>x \<in> set (in_event_publishers i). pi_id x \<noteq> [] \<and> pi_publisher x \<noteq> None"
      using created_shape(7) [OF created] by force
  qed
  consider (drivers) "rfold (validate_driver pg ?gw) ([], Map.empty) (in_drivers i) = Inl e"
    | (rest) ids modes where "rfold (validate_driver pg ?gw) ([], Map.empty) (in_drivers i) = Inr (ids, modes)"
        "length ids \<noteq> length (gw_devices ?gw) \<or> rfold (validate_group modes) [] (gw_groups ?gw) = Inl e \<or>
         rfold (validate_publisher pg ?gw) [] (in_event_publishers i) = Inl e"
    using assms(1) by (auto simp: validate_and_configure_def rbind_Inl_iff split: if_splits)
  then show ?thesis
  proof cases
    case drivers
    from driver_loop_errors [OF this dev] show ?thesis by (auto simp: plugin_refused_def)
  next
    case rest
    note v = validate_drivers [OF rest(1)]
    have "length ids = length (gw_devices ?gw)" using v dev(1) by (metis append_Nil2 length_map length_rev)
    with rest(2) consider (groups) "rfold (validate_group modes) [] (gw_groups ?gw) = Inl e"
      | (publishers) "rfold (validate_publisher pg ?gw) [] (in_event_publishers i) = Inl e" by blast
    then show ?thesis
    proof cases
      case groups
      have "distinct (map grp_id (gw_groups ?gw))"
        "\<forall>g \<in> set (gw_groups ?gw). grp_id g \<noteq> [] \<and> 0 < grp_interval g \<and> 0 < grp_timeout g"
        using good by (auto simp: good_config_def config_group_def)
      from group_loop_errors [OF groups this] obtain g where g: "g \<in> set (gw_groups ?gw)"
        "modes (grp_device_id g) \<noteq> Some Mode_Poll"
        "e = Invalid_argument (''push device cannot own a collection group: '' @ grp_id g)" by blast
      have "config_group (gw_devices ?gw) g" using good g(1) by (simp add: good_config_def)
      then have "grp_device_id g \<in> set (map dev_id (gw_devices ?gw))" by (force simp: config_group_def)
      then obtain x where x: "x \<in> set (in_drivers i)" "di_device_id x = grp_device_id g"
        unfolding dev(1) [symmetric] by auto
      with v obtain mode where "modes (grp_device_id g) = Some mode"
        "pg_driver_capabilities pg (the (di_driver x)) = Inr mode"
        by (fastforce simp: good_driver_def)
      with g x show ?thesis unfolding plugin_refused_def by (cases mode) auto
    next
      case publishers
      from publisher_loop_errors [OF this pub] show ?thesis by (auto simp: plugin_refused_def)
    qed
  qed
qed

text \<open>
  C11: a configuration that parses is accepted by the gateway. When the plugins of a parsed configuration have been
  created, the constructor of the runtime, which checks queue capacities, devices, points, drivers, groups, publishers
  and sources again, succeeds; the only exceptions it can throw are those a plugin throws itself, and the
  complaint about a collection group whose device turns out to have a push driver.
\<close>

theorem parsed_gateway_constructs:
  assumes "parse_config J text source = Inr config"
    and "PluginRegistry_create r config = Inr i"
    and "GatewayRuntime_new pg (ac_gateway config) (in_drivers i) (in_processors i) (in_event_publishers i) (in_sources i) = result"
  shows "case result of Inr rt \<Rightarrow> rt_config rt = ac_gateway config | Inl e \<Rightarrow> plugin_refused pg config i e"
proof (cases result)
  case (Inr rt)
  then show ?thesis using new_parts [OF assms(3) [unfolded Inr]] by auto
next
  case (Inl e)
  note good = parsed_good [OF assms(1)]
  from assms(3) [unfolded Inl] consider
      (validate) "validate_and_configure pg (ac_gateway config) (in_drivers i) (in_event_publishers i) = Inl e"
    | (sources) "rfold (configure_source pg) () (in_sources i) = Inl e"
    unfolding GatewayRuntime_new_def
    by (auto simp: rbind_Inl_iff good_config_parts [OF good] pipeline_accepts [OF created_shape(6) [OF assms(2)]])
  then have "plugin_refused pg config i e"
  proof cases
    case validate
    then show ?thesis by (rule validate_errors [OF _ good assms(2)])
  next
    case sources
    from rfold_Inl [OF this] obtain s where "s \<in> set (in_sources i)" "configure_source pg () s = Inl e" by auto
    moreover have "s \<noteq> None" using calculation(1) created_shape(8) [OF assms(2)] by metis
    ultimately have "\<exists>s \<in> set (in_sources i). pg_source_configure pg (the s) = Some e"
      by (intro bexI [of _ s]) (auto simp: configure_source_def split: option.splits)
    then show ?thesis unfolding plugin_refused_def by blast
  qed
  then show ?thesis unfolding Inl by simp
qed

theorem parsed_gateway_constructs_witness:
  "\<exists>config i rt. parse_config (me_json main_example) ''{...}'' [] = Inr config \<and>
     PluginRegistry_create (snd (load_dynamic_plugins registry_example_os config PluginRegistry_new)) config = Inr i \<and>
     GatewayRuntime_new (adapters (example_plugins 9)) (ac_gateway config) (in_drivers i) (in_processors i)
       (in_event_publishers i) (in_sources i) = Inr (rt :: (string, string, nat, nat) runtime) \<and>
     rt_config rt = ac_gateway config"
proof -
  let ?parse = "parse_config (me_json main_example) ''{...}'' []"
  let ?create = "\<lambda>config. PluginRegistry_create (snd (load_dynamic_plugins registry_example_os config PluginRegistry_new)) config"
  let ?new = "\<lambda>config i. GatewayRuntime_new (adapters (example_plugins 9)) (ac_gateway config) (in_drivers i) (in_processors i)
       (in_event_publishers i) (in_sources i) :: (string, string, nat, nat) runtime result"
  have "case ?parse of Inl _ \<Rightarrow> False | Inr config \<Rightarrow> (case ?create config of Inl _ \<Rightarrow> False | Inr i \<Rightarrow>
      (case ?new config i of Inl _ \<Rightarrow> False | Inr rt \<Rightarrow> True))" by code_simp
  then obtain config i rt where c: "?parse = Inr config" "?create config = Inr i" "?new config i = Inr rt"
    by (auto split: sum.splits)
  from parsed_gateway_constructs [OF this] c show ?thesis by auto
qed

end
